(* ===== verification/Fu_Prelude.thy ===== *)
theory Fu_Prelude
  imports Main "HOL-Library.Word"
begin

unbundle bit_operations_syntax

section \<open>Shared types, byte strings and word lemmas\<close>

text \<open>
  The vocabulary of every component: bytes and the fixed-width unsigned integers of the C
  code, PHP strings as byte lists (a \<open>zend_string\<close> is binary safe and carries its length),
  \<open>zend_result\<close>, and \<open>memcmp\<close>.  The abstract side of most properties is \<open>be_nat\<close>, the
  number a byte string denotes in network (big-endian) order; a UUID is a list of 16 bytes and
  denotes a number below \<open>2 ^ 128\<close>.  The generic lemmas relate the shifts, masks and stores of
  the C code to that number.
\<close>

type_synonym byte = "8 word"
type_synonym u16 = "16 word"
type_synonym u32 = "32 word"
type_synonym u64 = "64 word"

named_theorems fu_len \<open>lengths of the buffers the operations return\<close>
named_theorems fu_unat \<open>unsigned values of the word expressions of the code\<close>

datatype zend_result = SUCCESS | FAILURE

text \<open>A C string literal as the bytes the code stores or compares.\<close>

definition lit :: "string \<Rightarrow> byte list" where
  "lit s = map of_char s"

lemma length_lit [simp, fu_len]: "length (lit s) = length s"
  by (simp add: lit_def)

lemma sorted_wrt_less_distinct:
  fixes f :: "'a \<Rightarrow> 'b::linorder"
  shows "sorted_wrt (\<lambda>x y. f x < f y) xs \<Longrightarrow> distinct xs"
  by (induction xs) auto

lemma sorted_wrt_map_mono:
  "sorted_wrt (<) xs \<Longrightarrow> (\<And>x y. x \<in> set xs \<Longrightarrow> y \<in> set xs \<Longrightarrow> x < y \<Longrightarrow> Q (f x) (f y)) \<Longrightarrow> sorted_wrt Q (map f xs)"
  by (induction xs) auto

lemma ex_map_all: "\<forall>y \<in> set ys. \<exists>x. Q x \<and> y = f x \<Longrightarrow> \<exists>xs. ys = map f xs \<and> (\<forall>x \<in> set xs. Q x)"
proof (induction ys)
  case (Cons y ys)
  then obtain x xs where "Q x" "y = f x" "ys = map f xs" "\<forall>x \<in> set xs. Q x" by auto
  then show ?case by (intro exI [of _ "x # xs"]) simp
qed simp

subsection \<open>The big-endian value of a byte string\<close>

primrec be_nat :: "byte list \<Rightarrow> nat" where
  "be_nat [] = 0"
| "be_nat (b # bs) = unat b * 256 ^ length bs + be_nat bs"

lemma be_nat_append: "be_nat (xs @ ys) = be_nat xs * 256 ^ length ys + be_nat ys"
  by (induction xs) (simp_all add: power_add algebra_simps)

lemma unat_byte_less [simp]: "unat (b :: byte) < 256"
  using unsigned_less [of b] by simp

lemma be_nat_less: "be_nat bs < 256 ^ length bs"
proof (induction bs)
  case Nil
  then show ?case by simp
next
  case (Cons b bs)
  have "be_nat (b # bs) < (unat b + 1) * 256 ^ length bs"
    using Cons by simp
  also have "\<dots> \<le> 256 * 256 ^ length bs"
    using unat_byte_less [of b] by (intro mult_le_mono1) linarith
  finally show ?case by simp
qed

lemma be_nat_less_128: "length b = 16 \<Longrightarrow> be_nat b < 2 ^ 128"
  using be_nat_less [of b] by simp

lemma digit_split_less:
  fixes x y p a b :: nat
  assumes "x < y" and "a < p"
  shows "x * p + a < y * p + b"
proof -
  have "x * p + a < (x + 1) * p" using assms(2) by simp
  also have "\<dots> \<le> y * p" using assms(1) by (intro mult_le_mono1) simp
  finally show ?thesis by simp
qed

lemma nat_less_div_mod:
  fixes x y k :: nat
  shows "x < y \<longleftrightarrow> x div k < y div k \<or> x div k = y div k \<and> x mod k < y mod k"
proof (cases "x div k = y div k")
  case True
  then have "x < y \<longleftrightarrow> x mod k < y mod k"
    by (metis add_less_cancel_left div_mult_mod_eq)
  with True show ?thesis by simp
next
  case False
  show ?thesis
  proof (cases "x < y")
    case True
    then have "x div k \<le> y div k" by (intro div_le_mono) simp
    with True False show ?thesis by simp
  next
    case nless: False
    then have "y div k \<le> x div k" by (intro div_le_mono) simp
    with nless False show ?thesis by simp
  qed
qed

lemma digit_split_less_iff:
  fixes x y p a b :: nat
  assumes "a < p" and "b < p"
  shows "x * p + a < y * p + b \<longleftrightarrow> x < y \<or> x = y \<and> a < b"
  using nat_less_div_mod [of "x * p + a" "y * p + b" p] assms by simp

lemma be_nat_inject:
  "length xs = length ys \<Longrightarrow> be_nat xs = be_nat ys \<longleftrightarrow> xs = ys"
proof (induction xs ys rule: list_induct2)
  case Nil
  then show ?case by simp
next
  case (Cons x xs y ys)
  have px: "be_nat xs < 256 ^ length ys" and py: "be_nat ys < 256 ^ length ys"
    using be_nat_less [of xs] be_nat_less [of ys] Cons.hyps by simp_all
  consider "unat x < unat y" | "unat y < unat x" | "unat x = unat y" by linarith
  then show ?case
  proof cases
    case 1
    then show ?thesis
      using digit_split_less [OF 1 px, of "be_nat ys"] Cons.hyps by auto
  next
    case 2
    then show ?thesis
      using digit_split_less [OF 2 py, of "be_nat xs"] Cons.hyps by auto
  next
    case 3
    then show ?thesis using Cons by (simp add: word_unat_eq_iff)
  qed
qed

subsection \<open>Tables filled by a loop\<close>

lemma foldl_fill_nth:
  "i < length xs \<Longrightarrow>
   foldl (\<lambda>t j. t[a + j := f j]) xs [0..<n] ! i
     = (if a \<le> i \<and> i < a + n then f (i - a) else xs ! i)"
proof (induction n)
  case 0
  then show ?case by auto
next
  case (Suc n)
  have "length (foldl (\<lambda>t j. t[a + j := f j]) xs [0..<n]) = length xs"
    by (induction n) simp_all
  with Suc show ?case by (cases "i = a + n") auto
qed

lemmas foldl_fill0_nth = foldl_fill_nth [where a = 0, simplified]

lemma length_foldl_fill [simp]:
  "length (foldl (\<lambda>t j. t[g j := f j]) xs js) = length xs"
  by (induction js arbitrary: xs) simp_all

lemma foldl_pair:
  "foldl (\<lambda>(x, y) i. (f x i, g y i)) (x, y) is = (foldl f x is, foldl g y is)"
  by (induction "is" arbitrary: x y) simp_all

subsection \<open>memcmp\<close>

text \<open>C promises only the sign of \<open>memcmp\<close>, and the code only uses the sign; unsigned
  comparison of the first byte that differs.\<close>

fun memcmp :: "byte list \<Rightarrow> byte list \<Rightarrow> int" where
  "memcmp (x # xs) (y # ys) =
     (if x < y then - 1 else if y < x then 1 else memcmp xs ys)"
| "memcmp _ _ = 0"

lemma memcmp_be_nat:
  "length xs = length ys \<Longrightarrow>
   memcmp xs ys = (if be_nat xs < be_nat ys then - 1
                   else if be_nat ys < be_nat xs then 1 else 0)"
proof (induction xs ys rule: list_induct2)
  case Nil
  then show ?case by simp
next
  case (Cons x xs y ys)
  have px: "be_nat xs < 256 ^ length ys" and py: "be_nat ys < 256 ^ length ys"
    using be_nat_less [of xs] be_nat_less [of ys] Cons.hyps by simp_all
  consider "unat x < unat y" | "unat y < unat x" | "unat x = unat y" by linarith
  then show ?case
  proof cases
    case 1
    then show ?thesis
      using digit_split_less [OF 1 px, of "be_nat ys"] Cons.hyps
      by (simp add: word_less_nat_alt)
  next
    case 2
    then show ?thesis
      using digit_split_less [OF 2 py, of "be_nat xs"] Cons.hyps
      by (simp add: word_less_nat_alt)
  next
    case 3
    then show ?thesis using Cons by (simp add: word_less_nat_alt)
  qed
qed

lemma memcmp_eq_0_iff: "length xs = length ys \<Longrightarrow> memcmp xs ys = 0 \<longleftrightarrow> xs = ys"
  by (auto simp: memcmp_be_nat be_nat_inject [symmetric])

lemma memcmp_less_iff: "length xs = length ys \<Longrightarrow> memcmp xs ys < 0 \<longleftrightarrow> be_nat xs < be_nat ys"
  by (simp add: memcmp_be_nat)

subsection \<open>Storing a machine word in network order\<close>

text \<open>\<open>be_store n w\<close> is the low \<open>n\<close> bytes of \<open>w\<close>, most significant first: the shape the
  layout routines write out byte by byte.\<close>

definition be_store :: "nat \<Rightarrow> 'a::len word \<Rightarrow> byte list" where
  "be_store n w = map (\<lambda>i. ucast (drop_bit (8 * i) w)) (rev [0..<n])"

lemma be_store_0 [simp]: "be_store 0 w = []"
  by (simp add: be_store_def)

lemma be_store_Suc: "be_store (Suc n) w = ucast (drop_bit (8 * n) w) # be_store n w"
  by (simp add: be_store_def)

lemma length_be_store [simp, fu_len]: "length (be_store n w) = n"
  by (simp add: be_store_def)

lemma unat_ucast_byte: "unat (ucast (w :: 'a::len word) :: byte) = unat w mod 256"
  by (simp add: unsigned_ucast_eq take_bit_eq_mod)

lemma unat_drop_bit: "unat (drop_bit n (w :: 'a::len word)) = unat w div 2 ^ n"
  by (subst unat_drop_bit_eq) (simp add: drop_bit_eq_div)

lemma be_nat_be_store: "be_nat (be_store n w) = unat w mod 256 ^ n"
proof (induction n)
  case 0
  then show ?case by simp
next
  case (Suc n)
  have p: "(2::nat) ^ (8 * n) = 256 ^ n" by (simp add: power_mult)
  have "be_nat (be_store (Suc n) w)
        = (unat w div 256 ^ n) mod 256 * 256 ^ n + unat w mod 256 ^ n"
    by (simp add: be_store_Suc unat_ucast_byte unat_drop_bit p Suc.IH)
  also have "\<dots> = unat w mod (256 ^ n * 256)"
    by (subst mod_mult2_eq) (simp add: algebra_simps)
  finally show ?case by (simp add: mult.commute)
qed

text \<open>Bit fields: a shifted field with a smaller one below it.\<close>

lemma bit_unat_ge: "unat (w :: 'a::len word) < 2 ^ m \<Longrightarrow> m \<le> i \<Longrightarrow> \<not> bit w i"
proof -
  assume "unat w < 2 ^ m" and i: "m \<le> i"
  then have "w = take_bit m w"
    by (intro word_unat_eq_iff [THEN iffD2]) (simp add: unsigned_take_bit_eq take_bit_nat_eq_self)
  then show ?thesis using i by (metis bit_take_bit_iff not_less)
qed

lemma unat_ucast_up: "LENGTH('a::len) \<le> LENGTH('b::len) \<Longrightarrow> unat (ucast (w :: 'a word) :: 'b word) = unat w"
  by (simp add: unsigned_ucast_eq take_bit_nat_eq_self
      order_less_le_trans [OF unsigned_less power_increasing])

lemma push_or_add:
  assumes "unat (b :: 'a::len word) < 2 ^ n"
  shows "push_bit n a OR b = push_bit n a + b"
proof -
  have "push_bit n a AND b = 0"
    using bit_unat_ge [OF assms] by (intro bit_word_eqI) (auto simp: bit_simps)
  then show ?thesis by (rule disjunctive_add_eq_or [symmetric])
qed

lemma unat_push_or:
  assumes "unat (b :: 'a::len word) < 2 ^ n" and "unat a * 2 ^ n + unat b < 2 ^ LENGTH('a)"
  shows "unat (push_bit n a OR b) = unat a * 2 ^ n + unat b"
proof -
  have "unat (push_bit n a) = unat a * 2 ^ n"
    using assms(2) by (simp add: unsigned_push_bit_eq push_bit_nat_def take_bit_nat_eq_self)
  then show ?thesis
    unfolding push_or_add [OF assms(1)]
    using unat_add_lem [THEN iffD1, of "push_bit n a" b] assms(2) by simp
qed

end
