(* ===== verification/Fu_State.thy ===== *)
theory Fu_State
  imports Fu_Prelude
begin

section \<open>Module state, exceptions and the platform\<close>

text \<open>
  The module globals of \<open>php_fast_uuid.h\<close> as a record (one per process, one per thread under
  ZTS), extended by what an operation of the extension can also change: the pending exception
  \<open>EG(exception)\<close> and the outside world (clock, OS entropy) as an abstract state.  The engine
  and operating-system services the code calls are the fields of \<open>platform\<close>; each takes and
  returns the world.  Start-up, thread shutdown and the fork handler are here, with the
  well-formedness invariant \<open>fu_inv\<close> that every operation keeps.
\<close>

subsection \<open>Little-endian words in memory\<close>

text \<open>The targets of the extension (x86, x86-64, AArch64 in little-endian mode) store words
  least significant byte first; \<open>memcpy\<close> between words and bytes is this conversion.\<close>

definition le_store :: "nat \<Rightarrow> 'a::len word \<Rightarrow> byte list" where
  "le_store n w = rev (be_store n w)"

definition le_load :: "byte list \<Rightarrow> 'a::len word" where
  "le_load bs = of_nat (be_nat (rev bs))"

lemma length_le_store [simp, fu_len]: "length (le_store n w) = n"
  by (simp add: le_store_def)

lemma le_load_store:
  fixes w :: "'a::len word"
  assumes "LENGTH('a) = 8 * n"
  shows "le_load (le_store n w) = w"
proof -
  have "(256 :: nat) ^ n = 2 ^ LENGTH('a)" by (simp add: assms power_mult)
  then have "unat w mod 256 ^ n = unat w" by (simp add: unsigned_less)
  then show ?thesis by (simp add: le_load_def le_store_def be_nat_be_store)
qed

lemma unat_le_load:
  assumes "LENGTH('a) = 8 * length bs"
  shows "unat (le_load bs :: 'a::len word) = be_nat (rev bs)"
proof -
  have "be_nat (rev bs) < 2 ^ LENGTH('a)"
    using be_nat_less [of "rev bs"] by (simp add: assms power_mult)
  then show ?thesis unfolding le_load_def by (rule of_nat_inverse [OF refl])
qed

lemma le_store_load:
  assumes "LENGTH('a) = 8 * length bs" and "n = length bs"
  shows "le_store n (le_load bs :: 'a::len word) = bs"
proof -
  have "be_nat (be_store n (le_load bs :: 'a word)) = be_nat (rev bs)"
    using be_nat_less [of "rev bs"] assms(2)
    by (simp add: be_nat_be_store unat_le_load [OF assms(1)])
  then have "be_store n (le_load bs :: 'a word) = rev bs"
    using be_nat_inject [of "be_store n (le_load bs :: 'a word)" "rev bs"] assms(2) by simp
  then show ?thesis by (simp add: le_store_def)
qed

subsection \<open>Exceptions\<close>

text \<open>The three classes the extension throws, with their messages; \<open>Foreign\<close> is an exception
  thrown by engine or userland code the extension calls.\<close>

datatype exn_class =
  InvalidArgumentException | InvalidUuidStringException | UnsupportedOperationException

datatype php_exn = Exn exn_class string | Foreign nat

subsection \<open>Module globals\<close>

definition FU_RBUF :: nat where
  "FU_RBUF = 8192"

record globals =
  rbuf :: "byte list"
  rpos :: nat
  drbg_key :: "byte list"
  drbg_ctr :: "byte list"
  drbg_since_seed :: nat
  drbg_seeded :: bool
  v7_key :: u64
  v7_randb :: u64
  v7_initialized :: bool
  prng_s :: "u64 \<times> u64 \<times> u64 \<times> u64"
  prng_seeded :: bool
  greg_last :: u64
  v2_last :: u64

record 'w st = globals +
  EG_exception :: "php_exn option"
  world :: 'w

definition zend_throw :: "exn_class \<Rightarrow> string \<Rightarrow> 'w st \<Rightarrow> 'w st" where
  "zend_throw ce msg s = s\<lparr>EG_exception := Some (Exn ce msg)\<rparr>"

text \<open>\<open>PHP_GINIT\<close>: zero everything, then force a refill on first use.\<close>

definition fu_ginit :: globals where
  "fu_ginit =
     \<lparr>rbuf = replicate FU_RBUF 0, rpos = FU_RBUF,
      drbg_key = replicate 32 0, drbg_ctr = replicate 16 0, drbg_since_seed = 0, drbg_seeded = False,
      v7_key = 0, v7_randb = 0, v7_initialized = False,
      prng_s = (0, 0, 0, 0), prng_seeded = False, greg_last = 0, v2_last = 0\<rparr>"

text \<open>A process (or thread) right after start-up, in the world \<open>w\<close>.\<close>

definition fu_boot :: "'w \<Rightarrow> 'w st" where
  "fu_boot w = globals.extend fu_ginit \<lparr>EG_exception = None, world = w\<rparr>"

text \<open>\<open>PHP_GSHUTDOWN\<close>: wipe the buffer, the DRBG state and the xoshiro state.\<close>

definition fu_gshutdown :: "'a globals_scheme \<Rightarrow> 'a globals_scheme" where
  "fu_gshutdown g =
     g\<lparr>rbuf := replicate (length (rbuf g)) 0,
       drbg_key := replicate (length (drbg_key g)) 0,
       drbg_ctr := replicate (length (drbg_ctr g)) 0,
       prng_s := (0, 0, 0, 0)\<rparr>"

text \<open>The fork handler.  \<open>in_php\<close> is \<open>tsrm_get_ls_cache() != NULL\<close>: under ZTS a thread that
  never entered PHP has no globals to reset; it is true in every other build.\<close>

definition fu_atfork_child :: "bool \<Rightarrow> 'a globals_scheme \<Rightarrow> 'a globals_scheme" where
  "fu_atfork_child in_php g =
     (if \<not> in_php then g else
      g\<lparr>rbuf := replicate (length (rbuf g)) 0,
        prng_s := (0, 0, 0, 0),
        drbg_key := replicate (length (drbg_key g)) 0,
        drbg_ctr := replicate (length (drbg_ctr g)) 0,
        drbg_seeded := False,
        drbg_since_seed := 0,
        rpos := length (rbuf g),
        prng_seeded := False,
        v7_key := 0,
        v7_randb := 0,
        v7_initialized := False,
        greg_last := 0,
        v2_last := 0\<rparr>)"

subsection \<open>The invariant of the globals\<close>

definition FU_DRBG_RESEED_BYTES :: nat where
  "FU_DRBG_RESEED_BYTES = 64 * 1024"

definition fu_inv :: "'a globals_scheme \<Rightarrow> bool" where
  "fu_inv g \<longleftrightarrow>
     length (rbuf g) = FU_RBUF \<and> rpos g \<le> FU_RBUF \<and>
     length (drbg_key g) = 32 \<and> length (drbg_ctr g) = 16 \<and>
     drbg_since_seed g < FU_DRBG_RESEED_BYTES + FU_RBUF \<and>
     v7_key g < 2 ^ 60 \<and> v7_randb g < 2 ^ 62 \<and>
     (prng_seeded g \<longrightarrow> prng_s g \<noteq> (0, 0, 0, 0)) \<and>
     greg_last g < 2 ^ 60 \<and> v2_last g < 2 ^ 28"

lemma fu_inv_ginit: "fu_inv fu_ginit"
  by (simp add: fu_inv_def fu_ginit_def FU_DRBG_RESEED_BYTES_def FU_RBUF_def)

lemma fu_inv_boot: "fu_inv (fu_boot w)"
  using fu_inv_ginit by (simp add: fu_inv_def fu_boot_def globals.extend_def)

lemma fu_inv_atfork: "fu_inv g \<Longrightarrow> fu_inv (fu_atfork_child in_php g)"
  by (simp add: fu_inv_def fu_atfork_child_def FU_DRBG_RESEED_BYTES_def)

text \<open>After a fork the child is indistinguishable from a freshly started process: nothing of the
  parent's entropy, DRBG key, xoshiro seed or monotonic marks is left.\<close>

lemma fu_atfork_fresh:
  assumes "fu_inv g"
  shows "fu_atfork_child True g = globals.extend fu_ginit (globals.more g)"
  using assms
  by (cases g) (simp add: fu_atfork_child_def fu_inv_def fu_ginit_def globals.extend_def)

end
