(* ===== verification/Fu_Aes.thy ===== *)
theory Fu_Aes
  imports Fu_State
begin

section \<open>AES-256-CTR with fast key erasure\<close>

text \<open>
  The two hardware back ends of \<open>fu_aes_ctr\<close> (AES-NI and ARMv8) and their known-answer
  self-test.  A 128-bit register is a \<open>128 word\<close>, byte 0 least significant.  The AES instructions
  are parameters (records \<open>aes_x86\<close>, \<open>aes_arm\<close>); everything the C code does around them, the
  8-way pipelined loop, the two-block tail, the re-keying blocks, the 64-bit counter lane and the
  key schedules, is written out.  The lemmas show both back ends are plain counter mode for the
  block function their rounds compose to, whatever the instructions compute.
\<close>

type_synonym block = "128 word"

subsection \<open>Vector operations on 128-bit registers\<close>

definition dword :: "nat \<Rightarrow> block \<Rightarrow> u32" where
  "dword i v = ucast (drop_bit (32 * i) v)"

definition qword :: "nat \<Rightarrow> block \<Rightarrow> u64" where
  "qword i v = ucast (drop_bit (64 * i) v)"

definition of_qwords :: "u64 \<Rightarrow> u64 \<Rightarrow> block" where
  "of_qwords lo hi = word_cat hi lo"

definition of_dwords :: "u32 \<Rightarrow> u32 \<Rightarrow> u32 \<Rightarrow> u32 \<Rightarrow> block" where
  "of_dwords d0 d1 d2 d3 =
     ucast d0 OR push_bit 32 (ucast d1) OR push_bit 64 (ucast d2) OR push_bit 96 (ucast d3)"

definition add_epi64 :: "block \<Rightarrow> block \<Rightarrow> block" where
  "add_epi64 v w = of_qwords (qword 0 v + qword 0 w) (qword 1 v + qword 1 w)"

definition slli_si128 :: "block \<Rightarrow> nat \<Rightarrow> block" where
  "slli_si128 v n = push_bit (8 * n) v"

definition shuffle_epi32 :: "block \<Rightarrow> nat \<Rightarrow> block" where
  "shuffle_epi32 v imm =
     of_dwords (dword (imm mod 4) v) (dword (imm div 4 mod 4) v)
               (dword (imm div 16 mod 4) v) (dword (imm div 64 mod 4) v)"

text \<open>The constant \<open>one\<close> of both back ends: 1 in the low 64-bit lane, 0 in the high one.\<close>

definition ctr_one :: block where
  "ctr_one = of_qwords 1 0"

definition ctr_inc :: "block \<Rightarrow> block" where
  "ctr_inc c = add_epi64 c ctr_one"

definition load_block :: "byte list \<Rightarrow> block" where
  "load_block bs = le_load bs"

definition store_block :: "block \<Rightarrow> byte list" where
  "store_block v = le_store 16 v"

lemma length_store_block [simp, fu_len]: "length (store_block v) = 16"
  by (simp add: store_block_def)

lemma load_store_block [simp]: "load_block (store_block v) = v"
  by (simp add: load_block_def store_block_def le_load_store)

lemma store_load_block: "length bs = 16 \<Longrightarrow> store_block (load_block bs) = bs"
  by (simp add: load_block_def store_block_def le_store_load)

lemma qword_of_qwords [simp]: "qword 0 (of_qwords lo hi) = lo" "qword 1 (of_qwords lo hi) = hi"
  by (rule bit_word_eqI; auto simp: qword_def of_qwords_def bit_simps dest: bit_imp_le_length)+

lemma of_qwords_qword [simp]: "of_qwords (qword 0 v) (qword 1 v) = v"
  by (rule bit_word_eqI) (auto simp: qword_def of_qwords_def bit_simps dest: bit_imp_le_length)

lemmas qword_Suc_0 [simp] =
  qword_of_qwords(2) [unfolded One_nat_def] of_qwords_qword [unfolded One_nat_def]

text \<open>The counter advances in its low lane only, with wrap-around at \<open>2 ^ 64\<close>.\<close>

lemma ctr_inc_eq: "ctr_inc c = of_qwords (qword 0 c + 1) (qword 1 c)"
  by (simp add: ctr_inc_def add_epi64_def ctr_one_def)

definition ctr_add :: "block \<Rightarrow> nat \<Rightarrow> block" where
  "ctr_add c n = of_qwords (qword 0 c + of_nat n) (qword 1 c)"

lemma ctr_add_0 [simp]: "ctr_add c 0 = c"
  by (simp add: ctr_add_def)

lemma ctr_add_inc: "ctr_inc (ctr_add c n) = ctr_add c (Suc n)"
  by (simp add: ctr_add_def ctr_inc_eq add_ac)

lemma ctr_inc_add: "ctr_add (ctr_inc c) n = ctr_add c (Suc n)"
  by (simp add: ctr_add_def ctr_inc_eq add_ac)

lemma ctr_add_add [simp]: "ctr_add (ctr_add c m) n = ctr_add c (m + n)"
  by (simp add: ctr_add_def add_ac)

subsection \<open>The loops of fu_aes_ctr\<close>

text \<open>Both back ends have the same two loops.  \<open>pre\<close> is what happens to a counter as its
  register is loaded (AES-NI xors the first round key, ARMv8 nothing), \<open>rounds\<close> the lock-step
  rounds on all registers in flight.  \<open>ctr_load n\<close> fills \<open>n\<close> registers, advancing \<open>c\<close>.\<close>

fun ctr_load :: "(block \<Rightarrow> block) \<Rightarrow> nat \<Rightarrow> block \<Rightarrow> block list \<times> block" where
  "ctr_load pre 0 c = ([], c)"
| "ctr_load pre (Suc n) c = (let r = ctr_load pre n (ctr_inc c) in (pre c # fst r, snd r))"

text \<open>\<open>for (; len >= 128; len -= 128, out += 128)\<close>: what it writes, the counter and the length
  it leaves.\<close>

function ctr_wide :: "(block \<Rightarrow> block) \<Rightarrow> (block list \<Rightarrow> block list) \<Rightarrow> block \<Rightarrow> nat \<Rightarrow>
    byte list \<times> block \<times> nat" where
  "ctr_wide pre rounds c len =
     (if 128 \<le> len then
        (let ld = ctr_load pre 8 c;
             r = ctr_wide pre rounds (snd ld) (len - 128)
         in (concat (map store_block (rounds (fst ld))) @ fst r, snd r))
      else ([], c, len))"
  by pat_completeness auto
termination
  by (relation "measure (\<lambda>(pre, rounds, c, len). len)") auto

text \<open>\<open>while (1)\<close>: whole and partial blocks two at a time, then the new key.  The result is what
  it writes, the new key and the counter.\<close>

function ctr_tail :: "(block \<Rightarrow> block) \<Rightarrow> (block list \<Rightarrow> block list) \<Rightarrow> block \<Rightarrow> nat \<Rightarrow>
    byte list \<times> byte list \<times> block" where
  "ctr_tail pre rounds c len =
     (let tk = (if len < 32 then len else 32);
          rekey = (tk = 0);
          x0 = pre c; c = ctr_inc c;
          x1 = pre c;
          c = (if rekey \<or> 16 < tk then ctr_inc c else c);
          xs = rounds [x0, x1];
          tmp = store_block (xs ! 0) @ store_block (xs ! 1)
      in if rekey then ([], tmp, c)
         else (let r = ctr_tail pre rounds c (len - tk)
               in (take tk tmp @ fst r, snd r)))"
  by pat_completeness auto
termination
  by (relation "measure (\<lambda>(pre, rounds, c, len). len)") (auto split: if_splits)

declare ctr_wide.simps [simp del] ctr_tail.simps [simp del]

definition ctr_loops :: "(block \<Rightarrow> block) \<Rightarrow> (block list \<Rightarrow> block list) \<Rightarrow> byte list \<Rightarrow> nat \<Rightarrow>
    byte list \<times> byte list \<times> byte list" where
  "ctr_loops pre rounds ctr len =
     (let c = load_block ctr;
          w = ctr_wide pre rounds c len;
          t = ctr_tail pre rounds (fst (snd w)) (snd (snd w))
      in (fst w @ fst t, fst (snd t), store_block (snd (snd t))))"

subsection \<open>AES-NI\<close>

record aes_x86 =
  aesenc :: "block \<Rightarrow> block \<Rightarrow> block"
  aesenclast :: "block \<Rightarrow> block \<Rightarrow> block"
  aeskeygenassist :: "block \<Rightarrow> byte \<Rightarrow> block"

definition expand_even :: "aes_x86 \<Rightarrow> block \<Rightarrow> block \<Rightarrow> byte \<Rightarrow> block" where
  "expand_even I t1 t3 rcon =
     (let a = shuffle_epi32 (aeskeygenassist I t3 rcon) 0xff;
          t1 = t1 XOR slli_si128 t1 4;
          t1 = t1 XOR slli_si128 t1 8
      in t1 XOR a)"

definition expand_odd :: "aes_x86 \<Rightarrow> block \<Rightarrow> block \<Rightarrow> block" where
  "expand_odd I t3 t1 =
     (let a = shuffle_epi32 (aeskeygenassist I t1 0x00) 0xaa;
          t3 = t3 XOR slli_si128 t3 4;
          t3 = t3 XOR slli_si128 t3 8
      in t3 XOR a)"

text \<open>\<open>fu_aes_expand\<close>: the first two round keys are the key, then six even/odd pairs and a last
  even step.\<close>

fun expand_pairs :: "aes_x86 \<Rightarrow> block \<Rightarrow> block \<Rightarrow> byte list \<Rightarrow> block list" where
  "expand_pairs I t1 t3 [] = []"
| "expand_pairs I t1 t3 [rcon] = [expand_even I t1 t3 rcon]"
| "expand_pairs I t1 t3 (rcon # rs) =
     (let t1 = expand_even I t1 t3 rcon;
          t3 = expand_odd I t3 t1
      in t1 # t3 # expand_pairs I t1 t3 rs)"

definition fu_aes_expand_x86 :: "aes_x86 \<Rightarrow> byte list \<Rightarrow> block list" where
  "fu_aes_expand_x86 I key =
     (let t1 = load_block (take 16 key); t3 = load_block (drop 16 key)
      in t1 # t3 # expand_pairs I t1 t3 [0x01, 0x02, 0x04, 0x08, 0x10, 0x20, 0x40])"

definition aes_rounds8 :: "(block \<Rightarrow> block \<Rightarrow> block) \<Rightarrow> block \<Rightarrow> block list \<Rightarrow> block list" where
  "aes_rounds8 opn k bs = map (\<lambda>b. opn b k) bs"

definition x86_pre :: "block list \<Rightarrow> block \<Rightarrow> block" where
  "x86_pre rk c = c XOR rk ! 0"

definition x86_rounds :: "aes_x86 \<Rightarrow> block list \<Rightarrow> block list \<Rightarrow> block list" where
  "x86_rounds I rk bs =
     aes_rounds8 (aesenclast I) (rk ! 14)
       (foldl (\<lambda>bs r. aes_rounds8 (aesenc I) (rk ! r) bs) bs [1..<14])"

definition fu_aes_ctr_x86 :: "aes_x86 \<Rightarrow> byte list \<Rightarrow> byte list \<Rightarrow> nat \<Rightarrow>
    byte list \<times> byte list \<times> byte list" where
  "fu_aes_ctr_x86 I key ctr len =
     (let rk = fu_aes_expand_x86 I key in ctr_loops (x86_pre rk) (x86_rounds I rk) ctr len)"

subsection \<open>ARMv8\<close>

record aes_arm =
  vaeseq_u8 :: "block \<Rightarrow> block \<Rightarrow> block"
  vaesmcq_u8 :: "block \<Rightarrow> block"

definition fu_aes_subword :: "aes_arm \<Rightarrow> u32 \<Rightarrow> u32" where
  "fu_aes_subword I w = dword 0 (vaeseq_u8 I (of_dwords w w w w) 0)"

definition arm_rcon :: "u32 list" where
  "arm_rcon = [0x01, 0x02, 0x04, 0x08, 0x10, 0x20, 0x40]"

text \<open>One iteration of the key expansion, which appends word \<open>i = length w\<close>.\<close>

definition arm_expand_step :: "aes_arm \<Rightarrow> u32 list \<Rightarrow> nat \<Rightarrow> u32 list" where
  "arm_expand_step I w i =
     (let t = w ! (i - 1);
          t = (if i mod 8 = 0 then
                 fu_aes_subword I (drop_bit 8 t OR push_bit 24 t) XOR arm_rcon ! (i div 8 - 1)
               else if i mod 8 = 4 then fu_aes_subword I t
               else t)
      in w @ [w ! (i - 8) XOR t])"

definition fu_aes_expand_arm :: "aes_arm \<Rightarrow> byte list \<Rightarrow> block list" where
  "fu_aes_expand_arm I key =
     (let w = map (\<lambda>i. le_load (take 4 (drop (4 * i) key))) [0..<8];
          w = foldl (arm_expand_step I) w [8..<60]
      in map (\<lambda>r. of_dwords (w ! (4 * r)) (w ! (4 * r + 1)) (w ! (4 * r + 2)) (w ! (4 * r + 3)))
           [0..<15])"

definition aese_mc :: "aes_arm \<Rightarrow> block \<Rightarrow> block \<Rightarrow> block" where
  "aese_mc I s k = vaesmcq_u8 I (vaeseq_u8 I s k)"

definition arm_rounds :: "aes_arm \<Rightarrow> block list \<Rightarrow> block list \<Rightarrow> block list" where
  "arm_rounds I rk bs =
     aes_rounds8 (XOR) (rk ! 14)
       (aes_rounds8 (vaeseq_u8 I) (rk ! 13)
         (foldl (\<lambda>bs r. aes_rounds8 (aese_mc I) (rk ! r) bs) bs [0..<13]))"

definition fu_aes_ctr_arm :: "aes_arm \<Rightarrow> byte list \<Rightarrow> byte list \<Rightarrow> nat \<Rightarrow>
    byte list \<times> byte list \<times> byte list" where
  "fu_aes_ctr_arm I key ctr len =
     (let rk = fu_aes_expand_arm I key in ctr_loops (\<lambda>c. c) (arm_rounds I rk) ctr len)"

subsection \<open>The contract: counter mode, then two blocks of new key\<close>

definition nblocks :: "nat \<Rightarrow> nat" where
  "nblocks len = (len + 15) div 16"

definition keystream :: "(block \<Rightarrow> block) \<Rightarrow> block \<Rightarrow> nat \<Rightarrow> byte list" where
  "keystream E c n = concat (map (\<lambda>i. store_block (E (ctr_add c i))) [0..<n])"

definition ctr_spec :: "(block \<Rightarrow> block) \<Rightarrow> byte list \<Rightarrow> nat \<Rightarrow> byte list \<times> byte list \<times> byte list" where
  "ctr_spec E ctr len =
     (let c = load_block ctr; n = nblocks len
      in (take len (keystream E c n),
          store_block (E (ctr_add c n)) @ store_block (E (ctr_add c (n + 1))),
          store_block (ctr_add c (n + 2))))"

lemma length_keystream [simp, fu_len]: "length (keystream E c n) = 16 * n"
  by (induction n) (simp_all add: keystream_def)

lemma keystream_add: "keystream E c (m + n) = keystream E c m @ keystream E (ctr_add c m) n"
proof -
  have "map (\<lambda>i. store_block (E (ctr_add c i))) [m..<m + n]
      = map (\<lambda>i. store_block (E (ctr_add c (m + i)))) [0..<n]"
    by (induction n) simp_all
  moreover have "[0..<m + n] = [0..<m] @ [m..<m + n]"
    by (rule upt_add_eq_append) simp
  ultimately show ?thesis by (simp only: keystream_def map_append concat_append ctr_add_add)
qed

lemma keystream_0 [simp]: "keystream E c 0 = []"
  by (simp add: keystream_def)

lemma nblocks_simps: "nblocks 0 = 0" "nblocks (16 * n) = n" "nblocks (m * 16 + k) = m + nblocks k"
  by (simp_all add: nblocks_def)

lemma nblocks_ge: "len \<le> 16 * nblocks len"
  using div_mult_mod_eq [of "len + 15" 16] mod_less_divisor [of 16 "len + 15"]
  unfolding nblocks_def by linarith

locale ctr_cipher =
  fixes pre :: "block \<Rightarrow> block" and rounds :: "block list \<Rightarrow> block list" and E :: "block \<Rightarrow> block"
  assumes rounds_pre: "rounds (map pre cs) = map E cs"
begin

lemma ctr_load_eq: "ctr_load pre n c = (map pre (map (ctr_add c) [0..<n]), ctr_add c n)"
proof (induction n arbitrary: c)
  case 0
  then show ?case by simp
next
  case (Suc n)
  have "[0..<Suc n] = 0 # map Suc [0..<n]" by (simp add: map_Suc_upt upt_conv_Cons del: upt_Suc)
  then show ?case by (simp add: Suc Let_def ctr_inc_add o_def del: upt_Suc)
qed

lemma ctr_wide_eq:
  "ctr_wide pre rounds c len =
     (keystream E c (8 * (len div 128)), ctr_add c (8 * (len div 128)), len mod 128)"
proof (induction len arbitrary: c rule: less_induct)
  case (less len)
  show ?case
  proof (cases "128 \<le> len")
    case True
    have "concat (map store_block (rounds (fst (ctr_load pre 8 c)))) = keystream E c 8"
      unfolding ctr_load_eq fst_conv rounds_pre by (simp only: keystream_def map_map o_def)
    moreover have "snd (ctr_load pre 8 c) = ctr_add c 8" by (simp only: ctr_load_eq snd_conv)
    moreover have "8 * (len div 128) = 8 + 8 * ((len - 128) div 128)" and "len mod 128 = (len - 128) mod 128"
      using True by (simp_all add: le_div_geq le_mod_geq)
    ultimately show ?thesis
      using True less [of "len - 128" "ctr_add c 8"]
      by (subst ctr_wide.simps) (simp add: Let_def keystream_add)
  next
    case False
    then show ?thesis by (subst ctr_wide.simps) simp
  qed
qed

lemma ctr_tail_eq:
  "ctr_tail pre rounds c len =
     (take len (keystream E c (nblocks len)),
      store_block (E (ctr_add c (nblocks len))) @ store_block (E (ctr_add c (nblocks len + 1))),
      ctr_add c (nblocks len + 2))"
proof (induction len arbitrary: c rule: less_induct)
  case (less len)
  have inc: "ctr_inc c = ctr_add c (Suc 0)" "ctr_inc (ctr_add c (Suc 0)) = ctr_add c 2"
    using ctr_add_inc [of c 0] ctr_add_inc [of c "Suc 0"] by (simp_all add: numeral_2_eq_2)
  have two: "rounds [pre x, pre y] = [E x, E y]" for x y
    using rounds_pre [of "[x, y]"] by simp
  have ks2: "keystream E c 2 = store_block (E c) @ store_block (E (ctr_add c 1))"
    by (simp add: keystream_def numeral_2_eq_2)
  have ks1: "keystream E c 1 = store_block (E c)" by (simp add: keystream_def)
  consider "len = 0" | "0 < len" "len \<le> 16" | "16 < len" "len < 32" | "32 \<le> len" by linarith
  then show ?case
  proof cases
    case 1
    then show ?thesis
      by (subst ctr_tail.simps) (simp add: Let_def inc two nblocks_simps numeral_2_eq_2)
  next
    case 2
    then have "nblocks len = 1" unfolding nblocks_def by (intro div_nat_eqI) simp_all
    with 2 less [of 0 "ctr_add c 1"] show ?thesis
      by (subst ctr_tail.simps) (simp add: Let_def inc two nblocks_simps ks1 [simplified] numeral_2_eq_2 numeral_3_eq_3)
  next
    case 3
    then have "nblocks len = 2" unfolding nblocks_def by (intro div_nat_eqI) simp_all
    with 3 less [of 0 "ctr_add c 2"] show ?thesis
      by (subst ctr_tail.simps) (simp add: Let_def inc two nblocks_simps ks2 [simplified])
  next
    case 4
    then have n: "nblocks len = 2 + nblocks (len - 32)"
      using nblocks_simps(3) [of 2 "len - 32"] by simp
    have "take len (keystream E c (nblocks len))
        = keystream E c 2 @ take (len - 32) (keystream E (ctr_add c 2) (nblocks (len - 32)))"
      using 4 by (simp only: n keystream_add) simp
    with 4 less [of "len - 32" "ctr_add c 2"] show ?thesis
      by (subst ctr_tail.simps) (simp add: Let_def inc two ks2 n)
  qed
qed

lemma ctr_loops_eq: "ctr_loops pre rounds ctr len = ctr_spec E ctr len"
proof -
  let ?c = "load_block ctr" and ?m = "8 * (len div 128)"
  have "?m * 16 + len mod 128 = len"
    using div_mult_mod_eq [of len 128] by linarith
  then have n: "nblocks len = ?m + nblocks (len mod 128)"
    using nblocks_simps(3) [of ?m "len mod 128"] by simp
  have l: "length (keystream E ?c ?m) = len - len mod 128"
    using minus_mod_eq_mult_div [of len 128] unfolding length_keystream by linarith
  have m: "len mod 128 \<le> len" by simp
  have "take len (keystream E ?c (nblocks len))
      = keystream E ?c ?m @ take (len mod 128) (keystream E (ctr_add ?c ?m) (nblocks (len mod 128)))"
    unfolding n keystream_add take_append l using m by (simp add: l)
  then show ?thesis
    unfolding ctr_loops_def ctr_spec_def Let_def ctr_wide_eq ctr_tail_eq fst_conv snd_conv
    by (simp only: ctr_add_add n add.assoc)
qed

end

subsection \<open>Both back ends keep the contract\<close>

definition x86_cipher :: "aes_x86 \<Rightarrow> block list \<Rightarrow> block \<Rightarrow> block" where
  "x86_cipher I rk b =
     aesenclast I (foldl (\<lambda>b r. aesenc I b (rk ! r)) (b XOR rk ! 0) [1..<14]) (rk ! 14)"

definition arm_cipher :: "aes_arm \<Rightarrow> block list \<Rightarrow> block \<Rightarrow> block" where
  "arm_cipher I rk b =
     vaeseq_u8 I (foldl (\<lambda>b r. aese_mc I b (rk ! r)) b [0..<13]) (rk ! 13) XOR rk ! 14"

lemma foldl_rounds8:
  "foldl (\<lambda>bs r. aes_rounds8 opn (rk ! r) bs) (map f cs) rs
     = map (\<lambda>c. foldl (\<lambda>b r. opn b (rk ! r)) (f c) rs) cs"
  by (induction rs arbitrary: f) (simp_all add: aes_rounds8_def o_def)

interpretation x86: ctr_cipher "x86_pre rk" "x86_rounds I rk" "x86_cipher I rk" for I rk
proof unfold_locales
  fix cs
  show "x86_rounds I rk (map (x86_pre rk) cs) = map (x86_cipher I rk) cs"
    unfolding x86_rounds_def foldl_rounds8
    by (simp add: aes_rounds8_def x86_cipher_def x86_pre_def)
qed

interpretation arm: ctr_cipher "\<lambda>c. c" "arm_rounds I rk" "arm_cipher I rk" for I rk
proof unfold_locales
  fix cs
  have "foldl (\<lambda>bs r. aes_rounds8 (aese_mc I) (rk ! r) bs) cs [0..<13]
      = map (\<lambda>c. foldl (\<lambda>b r. aese_mc I b (rk ! r)) c [0..<13]) cs"
    using foldl_rounds8 [of "aese_mc I" rk "\<lambda>c. c" cs "[0..<13]"] by simp
  then show "arm_rounds I rk (map (\<lambda>c. c) cs) = map (arm_cipher I rk) cs"
    by (simp add: arm_rounds_def aes_rounds8_def arm_cipher_def)
qed

datatype aes_backend = AES_X86 aes_x86 | AES_ARM aes_arm

fun fu_aes_ctr :: "aes_backend \<Rightarrow> byte list \<Rightarrow> byte list \<Rightarrow> nat \<Rightarrow> byte list \<times> byte list \<times> byte list" where
  "fu_aes_ctr (AES_X86 I) key ctr len = fu_aes_ctr_x86 I key ctr len"
| "fu_aes_ctr (AES_ARM I) key ctr len = fu_aes_ctr_arm I key ctr len"

fun aes_block :: "aes_backend \<Rightarrow> byte list \<Rightarrow> block \<Rightarrow> block" where
  "aes_block (AES_X86 I) key = x86_cipher I (fu_aes_expand_x86 I key)"
| "aes_block (AES_ARM I) key = arm_cipher I (fu_aes_expand_arm I key)"

lemma fu_aes_ctr_spec: "fu_aes_ctr B key ctr len = ctr_spec (aes_block B key) ctr len"
  by (cases B) (simp_all add: fu_aes_ctr_x86_def fu_aes_ctr_arm_def Let_def
      x86.ctr_loops_eq arm.ctr_loops_eq)

lemma length_fu_aes_ctr [fu_len]:
  "length (fst (fu_aes_ctr B key ctr len)) = len"
  "length (fst (snd (fu_aes_ctr B key ctr len))) = 32"
  "length (snd (snd (fu_aes_ctr B key ctr len))) = 16"
  using nblocks_ge [of len] by (simp_all add: fu_aes_ctr_spec ctr_spec_def Let_def)

text \<open>C11: whatever the AES instructions compute, both back ends of \<open>fu_aes_ctr\<close> write exactly
  \<open>len\<close> bytes of counter-mode keystream under the old key (8-way loop, two-block tail and partial
  block together), replace the key by the two keystream blocks after the last one used, and leave
  the counter after those.\<close>

theorem fu_aes_ctr_is_counter_mode:
  "fu_aes_ctr B key ctr len =
     (let E = aes_block B key; c = load_block ctr; n = (len + 15) div 16
      in (take len (concat (map (\<lambda>i. store_block (E (ctr_add c i))) [0..<n])),
          store_block (E (ctr_add c n)) @ store_block (E (ctr_add c (n + 1))),
          store_block (ctr_add c (n + 2))))"
  by (simp add: fu_aes_ctr_spec ctr_spec_def keystream_def nblocks_def Let_def)

subsection \<open>The known-answer self-test\<close>

definition fips_key :: "byte list" where
  "fips_key = [
     0x00,0x01,0x02,0x03,0x04,0x05,0x06,0x07,0x08,0x09,0x0a,0x0b,0x0c,0x0d,0x0e,0x0f,
     0x10,0x11,0x12,0x13,0x14,0x15,0x16,0x17,0x18,0x19,0x1a,0x1b,0x1c,0x1d,0x1e,0x1f]"

definition fips_pt :: "byte list" where
  "fips_pt = [0x00,0x11,0x22,0x33,0x44,0x55,0x66,0x77,0x88,0x99,0xaa,0xbb,0xcc,0xdd,0xee,0xff]"

definition fips_ct :: "byte list" where
  "fips_ct = [0x8e,0xa2,0xb7,0xca,0x51,0x67,0x45,0xbf,0xea,0xfc,0x49,0x90,0x4b,0x49,0x60,0x89]"

definition sp_key :: "byte list" where
  "sp_key = [
     0x60,0x3d,0xeb,0x10,0x15,0xca,0x71,0xbe,0x2b,0x73,0xae,0xf0,0x85,0x7d,0x77,0x81,
     0x1f,0x35,0x2c,0x07,0x3b,0x61,0x08,0xd7,0x2d,0x98,0x10,0xa3,0x09,0x14,0xdf,0xf4]"

definition sp_in :: "byte list" where
  "sp_in = [0xf0,0xf1,0xf2,0xf3,0xf4,0xf5,0xf6,0xf7,0xf8,0xf9,0xfa,0xfb,0xfc,0xfd,0xfe,0xff]"

definition sp_out :: "byte list" where
  "sp_out = [0x0b,0xdf,0x7d,0xf1,0x59,0x17,0x16,0x33,0x5e,0x9a,0x8b,0x15,0xc8,0x60,0xc5,0x02]"

definition selftest_cases :: "(nat \<times> nat) list" where
  "selftest_cases =
     [(128, 0), (128, 1), (128, 2), (128, 3),
      (128, 4), (128, 5), (128, 6), (128, 7), (256, 8), (256, 15),
      (16, 0), (144, 8), (160, 9), (183, 10), (183, 11),
      (48, 3), (48, 4), (183, 12), (183, 13)]"

type_synonym ctr_fn = "byte list \<Rightarrow> byte list \<Rightarrow> nat \<Rightarrow> byte list \<times> byte list \<times> byte list"

definition selftest_case :: "ctr_fn \<Rightarrow> nat \<times> nat \<Rightarrow> bool" where
  "selftest_case ctr_fn cs =
     (let len = fst cs; blk = snd cs; nblk = (len + 15) div 16;
          lo = le_load (take 8 fips_pt) - of_nat blk :: u64;
          hi = le_load (drop 8 fips_pt) :: u64;
          ctr = le_store 8 lo @ drop 8 fips_pt;
          r = ctr_fn fips_key ctr len;
          out = fst r @ drop (length (fst r)) (replicate 272 0xa5);
          key = fst (snd r);
          lo_after = le_load (take 8 (snd (snd r))) :: u64;
          hi_after = le_load (drop 8 (snd (snd r))) :: u64
      in (if blk < nblk then
            (let cmp = (if len - blk * 16 < 16 then len - blk * 16 else 16)
             in memcmp (take cmp (drop (blk * 16) out)) (take cmp fips_ct) = 0)
          else memcmp (take 16 (drop ((blk - nblk) * 16) key)) fips_ct = 0) \<and>
         out ! len = 0xa5 \<and>
         lo_after = lo + of_nat nblk + 2 \<and> hi_after = hi)"

definition fu_aes_selftest :: "ctr_fn \<Rightarrow> bool" where
  "fu_aes_selftest ctr_fn \<longleftrightarrow>
     list_all (selftest_case ctr_fn) selftest_cases \<and>
     memcmp (take 16 (fst (ctr_fn sp_key sp_in 16))) sp_out = 0"

lemma keystream_block:
  assumes "i < n"
  shows "drop (16 * i) (keystream E c n)
           = store_block (E (ctr_add c i)) @ keystream E (ctr_add c (Suc i)) (n - Suc i)"
proof -
  have "keystream E c n = keystream E c i @ keystream E (ctr_add c i) (1 + (n - Suc i))"
    using assms by (simp add: keystream_add [symmetric])
  moreover have "keystream E (ctr_add c i) (1 + (n - Suc i))
      = store_block (E (ctr_add c i)) @ keystream E (ctr_add c (Suc i)) (n - Suc i)"
    unfolding keystream_add by (simp add: keystream_def)
  ultimately show ?thesis by simp
qed

lemma qword_load_block:
  assumes "length bs = 16"
  shows "qword 0 (load_block bs) = le_load (take 8 bs)" and "qword 1 (load_block bs) = le_load (drop 8 bs)"
proof -
  have "be_nat (rev bs) = be_nat (rev (drop 8 bs)) * 256 ^ 8 + be_nat (rev (take 8 bs))"
    using be_nat_append [of "rev (drop 8 bs)" "rev (take 8 bs)"] assms
    by (simp flip: rev_append)
  moreover have "be_nat (rev (take 8 bs)) < 256 ^ 8" "be_nat (rev (drop 8 bs)) < 256 ^ 8"
    using be_nat_less [of "rev (take 8 bs)"] be_nat_less [of "rev (drop 8 bs)"] assms by simp_all
  moreover have "unat (load_block bs) = be_nat (rev bs)"
    unfolding load_block_def by (rule unat_le_load) (simp add: assms)
  moreover have "unat (le_load (take 8 bs) :: u64) = be_nat (rev (take 8 bs))"
    "unat (le_load (drop 8 bs) :: u64) = be_nat (rev (drop 8 bs))"
    by (rule unat_le_load; simp add: assms)+
  ultimately show "qword 0 (load_block bs) = le_load (take 8 bs)"
    "qword 1 (load_block bs) = le_load (drop 8 bs)"
    by (simp_all add: word_unat_eq_iff qword_def unsigned_ucast_eq take_bit_eq_mod unat_drop_bit)
qed

lemma of_qwords_bytes: "length bs = 8 \<Longrightarrow> load_block (le_store 8 (lo :: u64) @ bs) = of_qwords lo (le_load bs)"
proof -
  assume "length bs = 8"
  then have l: "length (le_store 8 lo @ bs) = 16" by simp
  have "load_block (le_store 8 lo @ bs)
      = of_qwords (qword 0 (load_block (le_store 8 lo @ bs))) (qword 1 (load_block (le_store 8 lo @ bs)))"
    by (simp only: of_qwords_qword)
  then show ?thesis
    unfolding qword_load_block [OF l] by (simp add: le_load_store)
qed

text \<open>One case of the self-test, through the counter-mode contract: the block compared is the
  encryption of the FIPS plaintext, the bytes past \<open>len\<close> and the counter are as they should.\<close>

lemma selftest_slice:
  assumes "blk < nblocks len"
  defines "cmp \<equiv> (if len - blk * 16 < 16 then len - blk * 16 else 16)"
  shows "take cmp (drop (blk * 16) (take len (keystream E c (nblocks len)) @ rest)) = take cmp (store_block (E (ctr_add c blk)))"
proof -
  have "blk * 16 < len"
    using assms(1) div_mult_mod_eq [of "len + 15" 16] mod_less_divisor [of 16 "len + 15"]
    unfolding nblocks_def by linarith
  moreover have "cmp \<le> len - 16 * blk" "cmp \<le> 16" "len - blk * 16 < 16 \<longrightarrow> cmp = len - 16 * blk"
    by (auto simp: cmp_def)
  ultimately show ?thesis
    using nblocks_ge [of len] keystream_block [OF assms(1), of E c] by (simp add: drop_take mult.commute)
qed

lemma selftest_case_iff:
  assumes "len < 272" and "blk \<le> nblocks len + 1"
  shows "selftest_case (fu_aes_ctr B) (len, blk) \<longleftrightarrow>
           (let ct = store_block (aes_block B fips_key (load_block fips_pt));
                cmp = (if blk < nblocks len \<and> len - blk * 16 < 16 then len - blk * 16 else 16)
            in take cmp ct = take cmp fips_ct)"
proof -
  define E where "E = aes_block B fips_key"
  define lo where "lo = (le_load (take 8 fips_pt) - of_nat blk :: u64)"
  define hi where "hi = (le_load (drop 8 fips_pt) :: u64)"
  define ctr where "ctr = le_store 8 lo @ drop 8 fips_pt"
  have lens: "length fips_pt = 16" "length fips_ct = 16"
    by (simp_all add: fips_pt_def fips_ct_def)
  have c: "load_block ctr = of_qwords lo hi"
    unfolding ctr_def hi_def by (rule of_qwords_bytes) (simp add: lens)
  have pt: "ctr_add (load_block ctr) blk = load_block fips_pt"
    using of_qwords_qword [of "load_block fips_pt"]
    by (simp add: c ctr_add_def lo_def hi_def qword_load_block [OF lens(1)]
        qword_load_block(2) [OF lens(1), unfolded One_nat_def])
  have r: "fu_aes_ctr B fips_key ctr len = ctr_spec E ctr len"
    by (simp add: fu_aes_ctr_spec E_def)
  let ?ctr' = "store_block (ctr_add (load_block ctr) (nblocks len + 2))"
  have after: "le_load (take 8 ?ctr') = lo + of_nat (nblocks len) + 2" "le_load (drop 8 ?ctr') = hi"
    using qword_load_block [of ?ctr'] by (simp_all add: c ctr_add_def add_ac)
  have past: "(take len (keystream E (load_block ctr) (nblocks len)) @ drop len (replicate 272 0xa5)) ! len = 0xa5"
    using assms(1) nblocks_ge [of len] by (simp add: nth_append)
  show ?thesis
  proof (cases "blk < nblocks len")
    case True
    define cmp where "cmp = (if len - blk * 16 < 16 then len - blk * 16 else 16)"
    note selftest_slice [OF True, of E "load_block ctr" "drop len (replicate 272 0xa5)", folded cmp_def, unfolded pt]
    then show ?thesis
      using True after past lens
      by (simp add: selftest_case_def Let_def nblocks_def [symmetric] lo_def [symmetric]
          hi_def [symmetric] ctr_def [symmetric] r ctr_spec_def E_def [symmetric]
          cmp_def [symmetric] memcmp_eq_0_iff nblocks_ge min_absorb1 min_absorb2)
  next
    case False
    then have "blk = nblocks len \<or> blk = nblocks len + 1" using assms(2) by auto
    then have "take 16 (drop ((blk - nblocks len) * 16) (fst (snd (ctr_spec E ctr len))))
        = store_block (E (load_block fips_pt))"
      using pt by (auto simp: ctr_spec_def Let_def)
    then show ?thesis
      using False after past lens
      by (simp add: selftest_case_def Let_def nblocks_def [symmetric] lo_def [symmetric]
          hi_def [symmetric] ctr_def [symmetric] r E_def [symmetric] memcmp_eq_0_iff)
         (simp add: ctr_spec_def Let_def nblocks_ge min_absorb1)
  qed
qed

lemma store_block_eq_iff: "length bs = 16 \<Longrightarrow> store_block x = bs \<longleftrightarrow> x = load_block bs"
  using store_load_block by force

lemma selftest_cases_bounds:
  "list_all (\<lambda>cs. fst cs < 272 \<and> snd cs \<le> nblocks (fst cs) + 1) selftest_cases"
  by (simp add: selftest_cases_def nblocks_def)

text \<open>The start-up self-test passes exactly when the back end encrypts the FIPS-197 C.3 and
  the SP 800-38A F.5.5 vectors correctly; every other check in it (lanes, tail, partial block,
  new-key blocks, no write past the end, counter advance) holds by construction of the loops.\<close>

theorem fu_aes_selftest_iff:
  "fu_aes_selftest (fu_aes_ctr B) \<longleftrightarrow>
     aes_block B fips_key (load_block fips_pt) = load_block fips_ct \<and>
     aes_block B sp_key (load_block sp_in) = load_block sp_out"
proof -
  let ?ct = "store_block (aes_block B fips_key (load_block fips_pt))"
  have lens: "length fips_ct = 16" "length sp_out = 16" "length sp_in = 16"
    by (simp_all add: fips_ct_def sp_out_def sp_in_def)
  define good where "good = (\<lambda>cs. let cmp = (if snd cs < nblocks (fst cs) \<and> fst cs - snd cs * 16 < 16
      then fst cs - snd cs * 16 else 16) in take cmp ?ct = take cmp fips_ct)"
  have "selftest_case (fu_aes_ctr B) cs = good cs" if "cs \<in> set selftest_cases" for cs
    using selftest_case_iff [of "fst cs" "snd cs" B] selftest_cases_bounds that
    by (simp add: list_all_iff good_def Let_def)
  then have "list_all (selftest_case (fu_aes_ctr B)) selftest_cases = list_all good selftest_cases"
    by (simp add: list_all_iff)
  also have "\<dots> \<longleftrightarrow> ?ct = fips_ct"
    by (auto simp: selftest_cases_def good_def nblocks_def lens)
  finally have cases: "list_all (selftest_case (fu_aes_ctr B)) selftest_cases \<longleftrightarrow> ?ct = fips_ct" .
  have "take 16 (fst (fu_aes_ctr B sp_key sp_in 16)) = store_block (aes_block B sp_key (load_block sp_in))"
    by (simp add: fu_aes_ctr_spec ctr_spec_def Let_def nblocks_def keystream_def)
  then show ?thesis
    unfolding fu_aes_selftest_def cases by (simp add: memcmp_eq_0_iff lens store_block_eq_iff)
qed

end
