(* ===== verification/Fu_Platform.thy ===== *)
theory Fu_Platform
  imports Fu_Aes
begin

section \<open>The platform an operation runs on\<close>

text \<open>
  What the extension calls and does not contain: the engine's OS-entropy function, the wall
  clock and the AES instructions the build and the CPU offer.  \<open>'w\<close> is the outside world they
  read and advance.
\<close>

datatype fu_aes_status =
  FU_AES_NOT_BUILT | FU_AES_NO_CPU | FU_AES_NO_DETECT | FU_AES_SELFTEST_FAILED | FU_AES_ACTIVE

text \<open>A reading of the wall clock: \<open>clock_gettime\<close> on POSIX (an error text, or seconds and
  nanoseconds), the two halves of a \<open>FILETIME\<close> on Windows.\<close>

datatype clock_reading = Clock_error string | Timespec int int | Filetime u32 u32

text \<open>\<open>random_bytes n\<close> is \<open>php_random_bytes_throw\<close> for a buffer of \<open>n\<close> bytes: the exception it
  throws, if any, and byte \<open>i\<close> of the buffer afterwards.  \<open>aes\<close> is the back end compiled in (\<open>None\<close> without \<open>FU_HAVE_AES\<close>), \<open>aes_state\<close> the static
  \<open>fu_aes_state\<close> that start-up sets.\<close>

record 'w platform =
  random_bytes :: "nat \<Rightarrow> 'w \<Rightarrow> php_exn option \<times> (nat \<Rightarrow> byte) \<times> 'w"
  clock :: "'w \<Rightarrow> clock_reading \<times> 'w"
  aes :: "aes_backend option"
  aes_state :: fu_aes_status

text \<open>The AES part of module start-up: \<open>detect\<close> is the result of \<open>fu_detect_aes\<close>.\<close>

fun fu_aes_minit :: "aes_backend option \<Rightarrow> int \<Rightarrow> fu_aes_status" where
  "fu_aes_minit None detect = FU_AES_NOT_BUILT"
| "fu_aes_minit (Some B) detect =
     (if detect < 0 then FU_AES_NO_DETECT
      else if detect = 0 then FU_AES_NO_CPU
      else if \<not> fu_aes_selftest (fu_aes_ctr B) then FU_AES_SELFTEST_FAILED
      else FU_AES_ACTIVE)"

text \<open>The start-up gate: a back end is used only if the CPU has it and it passes the self-test.\<close>

lemma fu_aes_minit_active:
  "fu_aes_minit b detect = FU_AES_ACTIVE \<longleftrightarrow>
     (\<exists>B. b = Some B \<and> 0 < detect \<and> fu_aes_selftest (fu_aes_ctr B))"
  by (cases b) (auto split: if_splits)

subsection \<open>OS entropy into a buffer\<close>

definition os_random :: "'w platform \<Rightarrow> byte list \<Rightarrow> 'w st \<Rightarrow> zend_result \<times> byte list \<times> 'w st" where
  "os_random P dst s =
     (let n = length dst; r = random_bytes P n (world s); bs = map (fst (snd r)) [0..<n]
      in case fst r of
           None \<Rightarrow> (SUCCESS, bs, s\<lparr>world := snd (snd r)\<rparr>)
         | Some e \<Rightarrow> (FAILURE, bs, s\<lparr>world := snd (snd r), EG_exception := Some e\<rparr>))"

text \<open>An OS source that never fails.\<close>

definition entropy_ok :: "'w platform \<Rightarrow> bool" where
  "entropy_ok P \<longleftrightarrow> (\<forall>n w. fst (random_bytes P n w) = None)"

lemma os_random_total: "entropy_ok P \<Longrightarrow> fst (os_random P dst s) = SUCCESS"
  by (simp add: os_random_def entropy_ok_def Let_def)

subsection \<open>A platform for the worked examples\<close>

text \<open>The OS source counts bytes up from the world's counter, the clock reads 1700000000 s and 123456789 ns each time,
  and there is no AES back end.\<close>

definition sample_platform :: "nat platform" where
  "sample_platform =
     \<lparr>random_bytes = (\<lambda>n w. (None, \<lambda>i. of_nat (w + i), w + 1)),
      clock = (\<lambda>w. (Timespec 1700000000 123456789, w)),
      aes = None, aes_state = FU_AES_NOT_BUILT\<rparr>"

text \<open>The same with a source that always fails.\<close>

definition failing_platform :: "nat platform" where
  "failing_platform = sample_platform\<lparr>random_bytes := (\<lambda>n w. (Some (Foreign 1), \<lambda>i. 0, w))\<rparr>"

end
