(* ===== verification/Fu_Random.thy ===== *)
theory Fu_Random
  imports Fu_Platform
begin

section \<open>Randomness\<close>

text \<open>
  \<open>fu_drbg_fill\<close>, \<open>fu_rand_fill\<close>, the 8 KiB buffer behind \<open>fu_rand\<close>, \<open>fu_rand_u64\<close> and the
  xoshiro256** generator of \<open>uuid_v4_fast()\<close>.  A filling function takes the buffer it
  overwrites and returns the result code, the buffer and the state.
\<close>

subsection \<open>The DRBG\<close>

definition fu_drbg_reseed :: "'w platform \<Rightarrow> 'w st \<Rightarrow> zend_result \<times> 'w st" where
  "fu_drbg_reseed P s =
     (if \<not> drbg_seeded s \<or> FU_DRBG_RESEED_BYTES \<le> drbg_since_seed s then
        (case os_random P (replicate 48 0) s of
           (FAILURE, seed, s) \<Rightarrow> (FAILURE, s)
         | (SUCCESS, seed, s) \<Rightarrow>
             (SUCCESS, s\<lparr>drbg_key := map2 (XOR) (drbg_key s) (take 32 seed),
                         drbg_ctr := map2 (XOR) (drbg_ctr s) (drop 32 seed),
                         drbg_seeded := True, drbg_since_seed := 0\<rparr>))
      else (SUCCESS, s))"

definition fu_drbg_chunk :: "aes_backend \<Rightarrow> nat \<Rightarrow> 'w st \<Rightarrow> byte list \<times> 'w st" where
  "fu_drbg_chunk B tk s =
     (let r = fu_aes_ctr B (drbg_key s) (drbg_ctr s) tk
      in (fst r, s\<lparr>drbg_key := fst (snd r), drbg_ctr := snd (snd r),
                   drbg_since_seed := drbg_since_seed s + tk\<rparr>))"

text \<open>\<open>while (n > 0)\<close>: \<open>dst\<close> is what is left to fill; on a failed reseed it is left as it was.\<close>

function fu_drbg_fill :: "'w platform \<Rightarrow> aes_backend \<Rightarrow> byte list \<Rightarrow> 'w st \<Rightarrow>
    zend_result \<times> byte list \<times> 'w st" where
  "fu_drbg_fill P B dst s =
     (if dst = [] then (SUCCESS, [], s)
      else case fu_drbg_reseed P s of
             (FAILURE, s) \<Rightarrow> (FAILURE, dst, s)
           | (SUCCESS, s) \<Rightarrow>
               (let n = length dst;
                    tk = (if n < FU_RBUF then n else FU_RBUF);
                    c = fu_drbg_chunk B tk s;
                    r = fu_drbg_fill P B (drop tk dst) (snd c)
                in (fst r, fst c @ fst (snd r), snd (snd r))))"
  by pat_completeness auto
termination
  by (relation "measure (\<lambda>(P, B, dst, s). length dst)") (auto simp: FU_RBUF_def)

declare fu_drbg_fill.simps [simp del]

definition fu_rand_fill :: "'w platform \<Rightarrow> byte list \<Rightarrow> 'w st \<Rightarrow> zend_result \<times> byte list \<times> 'w st" where
  "fu_rand_fill P dst s =
     (case aes P of
        Some B \<Rightarrow> (if aes_state P = FU_AES_ACTIVE then fu_drbg_fill P B dst s else os_random P dst s)
      | None \<Rightarrow> os_random P dst s)"

subsection \<open>The buffer\<close>

definition fu_rand_serve :: "nat \<Rightarrow> 'w st \<Rightarrow> zend_result \<times> byte list \<times> 'w st" where
  "fu_rand_serve n s = (SUCCESS, take n (drop (rpos s) (rbuf s)), s\<lparr>rpos := rpos s + n\<rparr>)"

definition fu_rand :: "'w platform \<Rightarrow> byte list \<Rightarrow> 'w st \<Rightarrow> zend_result \<times> byte list \<times> 'w st" where
  "fu_rand P dst s =
     (let n = length dst
      in if FU_RBUF < n then
           (case fu_rand_fill P dst s of
              (FAILURE, d, s) \<Rightarrow> (FAILURE, replicate n 0, s)
            | (SUCCESS, d, s) \<Rightarrow> (SUCCESS, d, s))
         else if FU_RBUF < rpos s + n then
           (case fu_rand_fill P (rbuf s) s of
              (FAILURE, buf, s) \<Rightarrow> (FAILURE, replicate n 0, s\<lparr>rbuf := buf\<rparr>)
            | (SUCCESS, buf, s) \<Rightarrow> fu_rand_serve n (s\<lparr>rbuf := buf, rpos := 0\<rparr>))
         else fu_rand_serve n s)"

text \<open>A fresh local array of \<open>n\<close> bytes handed to \<open>fu_rand\<close>, and the bytes it got.\<close>

definition fu_rand_n :: "'w platform \<Rightarrow> nat \<Rightarrow> 'w st \<Rightarrow> zend_result \<times> byte list \<times> 'w st" where
  "fu_rand_n P n s = fu_rand P (replicate n 0) s"

definition fu_rand_u64 :: "'w platform \<Rightarrow> 'w st \<Rightarrow> u64 option \<times> 'w st" where
  "fu_rand_u64 P s =
     (case fu_rand_n P 8 s of
        (FAILURE, r, s) \<Rightarrow> (None, s)
      | (SUCCESS, r, s) \<Rightarrow>
          (Some (push_bit 56 (ucast (r ! 0)) OR push_bit 48 (ucast (r ! 1)) OR
                 push_bit 40 (ucast (r ! 2)) OR push_bit 32 (ucast (r ! 3)) OR
                 push_bit 24 (ucast (r ! 4)) OR push_bit 16 (ucast (r ! 5)) OR
                 push_bit 8 (ucast (r ! 6)) OR ucast (r ! 7)), s))"

subsection \<open>xoshiro256**\<close>

definition fu_rotl :: "u64 \<Rightarrow> nat \<Rightarrow> u64" where
  "fu_rotl x k = push_bit k x OR drop_bit (64 - k) x"

text \<open>The output and the next state, in the order of the C statements.\<close>

fun xs_step :: "u64 \<times> u64 \<times> u64 \<times> u64 \<Rightarrow> u64 \<times> (u64 \<times> u64 \<times> u64 \<times> u64)" where
  "xs_step (s0, s1, s2, s3) =
     (let r = fu_rotl (s1 * 5) 7 * 9;
          t = push_bit 17 s1;
          s2 = s2 XOR s0;
          s3 = s3 XOR s1;
          s1 = s1 XOR s2;
          s0 = s0 XOR s3;
          s2 = s2 XOR t;
          s3 = fu_rotl s3 45
      in (r, (s0, s1, s2, s3)))"

definition xs_load :: "byte list \<Rightarrow> u64 \<times> u64 \<times> u64 \<times> u64" where
  "xs_load b = (le_load (take 8 b), le_load (take 8 (drop 8 b)),
                le_load (take 8 (drop 16 b)), le_load (take 8 (drop 24 b)))"

text \<open>Seeding on first use: the four state words are the destination of \<open>fu_rand\<close>, so a failed
  draw leaves them zero; an all-zero draw is replaced.\<close>

definition xs_store :: "u64 \<times> u64 \<times> u64 \<times> u64 \<Rightarrow> byte list" where
  "xs_store q = (case q of (a, b, c, d) \<Rightarrow> le_store 8 a @ le_store 8 b @ le_store 8 c @ le_store 8 d)"

definition xs_fix :: "u64 \<times> u64 \<times> u64 \<times> u64 \<Rightarrow> u64 \<times> u64 \<times> u64 \<times> u64" where
  "xs_fix q = (case q of (a, b, c, d) \<Rightarrow>
     if a OR b OR c OR d = 0 then (0x9e3779b97f4a7c15, b, c, d) else q)"

definition fu_xs_next :: "'w platform \<Rightarrow> 'w st \<Rightarrow> u64 \<times> 'w st" where
  "fu_xs_next P s =
     (let seed = (if \<not> prng_seeded s then
                    (case fu_rand P (xs_store (prng_s s)) s of
                       (FAILURE, d, s) \<Rightarrow> (FAILURE, s\<lparr>prng_s := xs_load d\<rparr>)
                     | (SUCCESS, d, s) \<Rightarrow>
                         (SUCCESS, s\<lparr>prng_s := xs_fix (xs_load d), prng_seeded := True\<rparr>))
                  else (SUCCESS, s))
      in case seed of
           (FAILURE, s) \<Rightarrow> (0, s)
         | (SUCCESS, s) \<Rightarrow> (let r = xs_step (prng_s s) in (fst r, s\<lparr>prng_s := snd r\<rparr>)))"

subsection \<open>The contract of a byte source\<close>

text \<open>The globals the generators own: no byte source touches them.\<close>

definition gen_marks :: "'a globals_scheme \<Rightarrow> u64 \<times> u64 \<times> bool \<times> u64 \<times> u64" where
  "gen_marks s = (v7_key s, v7_randb s, v7_initialized s, greg_last s, v2_last s)"

text \<open>What the callers of every filling function rely on: the buffer keeps its length, the
  invariant holds, the generators' marks and the xoshiro state are untouched, and a failure has
  thrown while a success has not.\<close>

locale byte_source =
  fixes fill :: "byte list \<Rightarrow> 'w st \<Rightarrow> zend_result \<times> byte list \<times> 'w st"
  assumes fill_length: "fu_inv s \<Longrightarrow> length (fst (snd (fill dst s))) = length dst"
    and fill_inv: "fu_inv s \<Longrightarrow> fu_inv (snd (snd (fill dst s)))"
    and fill_marks: "gen_marks (snd (snd (fill dst s))) = gen_marks s"
    and fill_prng: "prng_s (snd (snd (fill dst s))) = prng_s s"
      "prng_seeded (snd (snd (fill dst s))) = prng_seeded s"
    and fill_failure: "fst (fill dst s) = FAILURE \<Longrightarrow> EG_exception (snd (snd (fill dst s))) \<noteq> None"
    and fill_success: "fst (fill dst s) = SUCCESS \<Longrightarrow> EG_exception (snd (snd (fill dst s))) = EG_exception s"
begin

lemma fill_cases:
  assumes "fu_inv s"
  obtains (ok) bs s' where "fill dst s = (SUCCESS, bs, s')" "length bs = length dst" "fu_inv s'"
      "gen_marks s' = gen_marks s" "EG_exception s' = EG_exception s"
      "prng_s s' = prng_s s" "prng_seeded s' = prng_seeded s"
    | (fail) bs s' where "fill dst s = (FAILURE, bs, s')" "length bs = length dst" "fu_inv s'"
      "gen_marks s' = gen_marks s" "EG_exception s' \<noteq> None"
      "prng_s s' = prng_s s" "prng_seeded s' = prng_seeded s"
proof (cases "fill dst s")
  case (fields rc bs s')
  note * = fill_length [OF assms, of dst] fill_inv [OF assms, of dst] fill_marks [of dst s]
    fill_prng [of dst s] fill_failure [of dst s] fill_success [of dst s]
  show ?thesis
    using * fields ok fail by (cases rc) auto
qed

end

interpretation os: byte_source "os_random P" for P :: "'w platform"
  by unfold_locales
     (auto simp: os_random_def Let_def fu_inv_def gen_marks_def split: option.splits)

lemma fu_drbg_reseed_props:
  assumes "fu_drbg_reseed P s = (rc, s')"
  shows "fu_inv s \<Longrightarrow> fu_inv s'"
    and "gen_marks s' = gen_marks s" and "prng_s s' = prng_s s" and "prng_seeded s' = prng_seeded s"
    and "rc = FAILURE \<Longrightarrow> EG_exception s' \<noteq> None"
    and "rc = SUCCESS \<Longrightarrow> EG_exception s' = EG_exception s \<and> drbg_seeded s' \<and>
           drbg_since_seed s' < FU_DRBG_RESEED_BYTES"
  using assms
  by (auto simp: fu_drbg_reseed_def os_random_def Let_def fu_inv_def gen_marks_def
      FU_DRBG_RESEED_BYTES_def split: option.splits if_splits)

lemma fu_drbg_chunk_props:
  assumes "fu_drbg_chunk B tk s = (bs, s')" and "tk \<le> FU_RBUF"
  shows "fu_inv s \<Longrightarrow> drbg_since_seed s < FU_DRBG_RESEED_BYTES \<Longrightarrow> fu_inv s'"
    and "length bs = tk" and "gen_marks s' = gen_marks s" and "prng_s s' = prng_s s"
    and "prng_seeded s' = prng_seeded s" and "EG_exception s' = EG_exception s"
  using assms
  by (auto simp: fu_drbg_chunk_def Let_def fu_inv_def gen_marks_def length_fu_aes_ctr)

lemma fu_drbg_fill_props:
  assumes "fu_drbg_fill P B dst s = (rc, bs, s')"
  shows "(fu_inv s \<longrightarrow> fu_inv s') \<and> length bs = length dst \<and> gen_marks s' = gen_marks s \<and>
         prng_s s' = prng_s s \<and> prng_seeded s' = prng_seeded s \<and>
         (rc = FAILURE \<longrightarrow> EG_exception s' \<noteq> None) \<and> (rc = SUCCESS \<longrightarrow> EG_exception s' = EG_exception s)"
  using assms
proof (induction P B dst s arbitrary: rc bs s' rule: fu_drbg_fill.induct)
  case (1 P B dst s)
  show ?case
  proof (cases "dst = []")
    case True
    with 1 show ?thesis by (simp add: fu_drbg_fill.simps)
  next
    case False
    obtain rc0 s0 where r0: "fu_drbg_reseed P s = (rc0, s0)" by fastforce
    note p0 = fu_drbg_reseed_props [OF r0]
    show ?thesis
    proof (cases rc0)
      case FAILURE
      with 1(2) False r0 p0 show ?thesis by (subst (asm) fu_drbg_fill.simps) auto
    next
      case SUCCESS
      define tk where "tk = (if length dst < FU_RBUF then length dst else FU_RBUF)"
      have tk: "tk \<le> FU_RBUF" "tk \<le> length dst" by (auto simp: tk_def)
      obtain c s1 where r1: "fu_drbg_chunk B tk s0 = (c, s1)" by fastforce
      note p1 = fu_drbg_chunk_props [OF r1 tk(1)]
      obtain rc2 d s2 where r2: "fu_drbg_fill P B (drop tk dst) s1 = (rc2, d, s2)"
        by (cases "fu_drbg_fill P B (drop tk dst) s1")
      have eq: "rc = rc2" "bs = c @ d" "s' = s2"
        using 1(2) False r0 SUCCESS r1 r2 by (subst (asm) fu_drbg_fill.simps; simp add: Let_def tk_def)+
      from 1(1) [OF False r0 [symmetric] SUCCESS refl tk_def r1 [symmetric], of rc2 d s2]
      have "(fu_inv s1 \<longrightarrow> fu_inv s2) \<and> length d = length (drop tk dst) \<and> gen_marks s2 = gen_marks s1 \<and>
         prng_s s2 = prng_s s1 \<and> prng_seeded s2 = prng_seeded s1 \<and>
         (rc2 = FAILURE \<longrightarrow> EG_exception s2 \<noteq> None) \<and> (rc2 = SUCCESS \<longrightarrow> EG_exception s2 = EG_exception s1)"
        using r2 by simp
      with p0 p1 SUCCESS tk show ?thesis unfolding eq by auto
    qed
  qed
qed

interpretation drbg: byte_source "fu_drbg_fill P B" for P :: "'w platform" and B
proof unfold_locales
  fix s :: "'w st" and dst
  obtain rc bs s' where r: "fu_drbg_fill P B dst s = (rc, bs, s')"
    by (cases "fu_drbg_fill P B dst s")
  note p = fu_drbg_fill_props [OF r]
  show "fu_inv s \<Longrightarrow> length (fst (snd (fu_drbg_fill P B dst s))) = length dst"
    "fu_inv s \<Longrightarrow> fu_inv (snd (snd (fu_drbg_fill P B dst s)))"
    "gen_marks (snd (snd (fu_drbg_fill P B dst s))) = gen_marks s"
    "prng_s (snd (snd (fu_drbg_fill P B dst s))) = prng_s s"
    "prng_seeded (snd (snd (fu_drbg_fill P B dst s))) = prng_seeded s"
    "fst (fu_drbg_fill P B dst s) = FAILURE \<Longrightarrow> EG_exception (snd (snd (fu_drbg_fill P B dst s))) \<noteq> None"
    "fst (fu_drbg_fill P B dst s) = SUCCESS \<Longrightarrow>
       EG_exception (snd (snd (fu_drbg_fill P B dst s))) = EG_exception s"
    using p by (simp_all add: r)
qed

interpretation fill: byte_source "fu_rand_fill P" for P :: "'w platform"
proof (cases "\<exists>B. aes P = Some B \<and> aes_state P = FU_AES_ACTIVE")
  case True
  then obtain B where B: "aes P = Some B" "aes_state P = FU_AES_ACTIVE" by blast
  have "fu_rand_fill P = fu_drbg_fill P B"
    by (simp add: fu_rand_fill_def fun_eq_iff B)
  then show "byte_source (fu_rand_fill P)"
    by (simp add: drbg.byte_source_axioms)
next
  case False
  then have "fu_rand_fill P = os_random P"
    by (auto simp: fu_rand_fill_def fun_eq_iff split: option.splits)
  then show "byte_source (fu_rand_fill P)"
    by (simp add: os.byte_source_axioms)
qed

subsection \<open>The buffered source\<close>

text \<open>The bytes of the buffer no caller has been given yet.\<close>

definition unserved :: "'a globals_scheme \<Rightarrow> byte list" where
  "unserved s = drop (rpos s) (rbuf s)"

text \<open>\<open>fu_rand\<close> also zeroes the destination when it fails, so that no caller reads stale bytes.\<close>

locale zeroing_source = byte_source +
  assumes fill_zero: "fst (fill dst s) = FAILURE \<Longrightarrow> fst (snd (fill dst s)) = replicate (length dst) 0"

lemma fu_inv_rand_updates:
  "length buf = FU_RBUF \<Longrightarrow> fu_inv s \<Longrightarrow> fu_inv (s\<lparr>rbuf := buf\<rparr>)"
  "p \<le> FU_RBUF \<Longrightarrow> fu_inv s \<Longrightarrow> fu_inv (s\<lparr>rpos := p\<rparr>)"
  "length buf = FU_RBUF \<Longrightarrow> p \<le> FU_RBUF \<Longrightarrow> fu_inv s \<Longrightarrow> fu_inv (s\<lparr>rbuf := buf, rpos := p\<rparr>)"
  by (simp_all add: fu_inv_def)

lemma gen_marks_updates [simp]:
  "gen_marks (s\<lparr>rbuf := buf\<rparr>) = gen_marks s" "gen_marks (s\<lparr>rpos := p\<rparr>) = gen_marks s"
  "gen_marks (s\<lparr>prng_s := q\<rparr>) = gen_marks s" "gen_marks (s\<lparr>prng_seeded := b\<rparr>) = gen_marks s"
  by (simp_all add: gen_marks_def)

lemma fu_inv_rbuf: "fu_inv s \<Longrightarrow> length (rbuf s) = FU_RBUF" "fu_inv s \<Longrightarrow> rpos s \<le> FU_RBUF"
  by (simp_all add: fu_inv_def)

interpretation rnd: zeroing_source "fu_rand P" for P :: "'w platform"
proof unfold_locales
  fix s :: "'w st" and dst
  note f = fill.fill_length [of s P] fill.fill_inv [of s P] fill.fill_marks [of P _ s]
    fill.fill_prng [of P _ s] fill.fill_failure [of P _ s] fill.fill_success [of P _ s]
  note u = fu_rand_def fu_rand_serve_def Let_def
  show "fu_inv s \<Longrightarrow> length (fst (snd (fu_rand P dst s))) = length dst"
    using f(1) [of dst] f(1) [of "rbuf s"] fu_inv_rbuf [of s]
    by (auto simp: u split: prod.splits zend_result.splits)
  show "fu_inv s \<Longrightarrow> fu_inv (snd (snd (fu_rand P dst s)))"
    using f(1) [of dst] f(1) [of "rbuf s"] f(2) [of dst] f(2) [of "rbuf s"] fu_inv_rbuf [of s]
    by (auto simp: u intro!: fu_inv_rand_updates split: prod.splits zend_result.splits)
  show "gen_marks (snd (snd (fu_rand P dst s))) = gen_marks s"
    using f(3) [of dst] f(3) [of "rbuf s"] by (auto simp: u split: prod.splits zend_result.splits)
  show "prng_s (snd (snd (fu_rand P dst s))) = prng_s s"
    using f(4) [of dst] f(4) [of "rbuf s"] by (auto simp: u split: prod.splits zend_result.splits)
  show "prng_seeded (snd (snd (fu_rand P dst s))) = prng_seeded s"
    using f(5) [of dst] f(5) [of "rbuf s"] by (auto simp: u split: prod.splits zend_result.splits)
  show "fst (fu_rand P dst s) = FAILURE \<Longrightarrow> EG_exception (snd (snd (fu_rand P dst s))) \<noteq> None"
    using f(6) [of dst] f(6) [of "rbuf s"] by (auto simp: u split: prod.splits zend_result.splits if_splits)
  show "fst (fu_rand P dst s) = SUCCESS \<Longrightarrow> EG_exception (snd (snd (fu_rand P dst s))) = EG_exception s"
    using f(7) [of dst] f(7) [of "rbuf s"] by (auto simp: u split: prod.splits zend_result.splits if_splits)
  show "fst (fu_rand P dst s) = FAILURE \<Longrightarrow> fst (snd (fu_rand P dst s)) = replicate (length dst) 0"
    by (auto simp: u split: prod.splits zend_result.splits if_splits)
qed

text \<open>With an OS source that never fails, no draw fails.\<close>

lemma fu_drbg_fill_total: "entropy_ok P \<Longrightarrow> fst (fu_drbg_fill P B dst s) = SUCCESS"
proof (induction P B dst s rule: fu_drbg_fill.induct)
  case (1 P B dst s)
  obtain rc s0 where r0: "fu_drbg_reseed P s = (rc, s0)" by fastforce
  have rc: "rc = SUCCESS"
    using r0 os_random_total [OF 1(2), of "replicate 48 0" s]
    by (auto simp: fu_drbg_reseed_def split: if_splits prod.splits zend_result.splits)
  define tk where "tk = (if length dst < FU_RBUF then length dst else FU_RBUF)"
  obtain c s1 where r1: "fu_drbg_chunk B tk s0 = (c, s1)" by fastforce
  show ?case
  proof (cases "dst = []")
    case False
    show ?thesis
      using False 1(1) [OF False r0 [symmetric] rc refl tk_def r1 [symmetric] 1(2)]
      by (simp add: fu_drbg_fill.simps [of P B dst s] r0 rc Let_def tk_def [symmetric] r1)
  qed (simp add: fu_drbg_fill.simps)
qed

lemma fu_rand_fill_total: "entropy_ok P \<Longrightarrow> fst (fu_rand_fill P dst s) = SUCCESS"
  by (simp add: fu_rand_fill_def os_random_total fu_drbg_fill_total split: option.split)

lemma fu_rand_total: "entropy_ok P \<Longrightarrow> fst (fu_rand P dst s) = SUCCESS"
  using fu_rand_fill_total [of P dst s] fu_rand_fill_total [of P "rbuf s" s]
  by (auto simp: fu_rand_def fu_rand_serve_def Let_def split: prod.splits zend_result.splits)

lemma fu_rand_n_cases:
  assumes "fu_inv s"
  obtains (ok) bs s' where "fu_rand_n P n s = (SUCCESS, bs, s')" "length bs = n" "fu_inv s'"
      "gen_marks s' = gen_marks s" "EG_exception s' = EG_exception s"
      "prng_s s' = prng_s s" "prng_seeded s' = prng_seeded s"
    | (fail) bs s' where "fu_rand_n P n s = (FAILURE, bs, s')" "length bs = n" "fu_inv s'"
      "gen_marks s' = gen_marks s" "EG_exception s' \<noteq> None"
      "prng_s s' = prng_s s" "prng_seeded s' = prng_seeded s"
  unfolding fu_rand_n_def
  by (rule rnd.fill_cases [OF assms, of P "replicate n 0"]) (use ok fail in \<open>auto simp: fu_rand_n_def\<close>)

lemma fu_rand_from_buffer:
  assumes "fu_inv s" and "length dst \<le> length (unserved s)"
  shows "fu_rand P dst s = (SUCCESS, take (length dst) (unserved s), s\<lparr>rpos := rpos s + length dst\<rparr>)"
proof -
  have "\<not> FU_RBUF < rpos s + length dst" "\<not> FU_RBUF < length dst"
    using assms fu_inv_rbuf [OF assms(1)] by (auto simp: unserved_def)
  then show ?thesis by (simp add: fu_rand_def fu_rand_serve_def unserved_def Let_def)
qed

lemma fu_rand_refill:
  assumes "fu_inv s" and "length (unserved s) < length dst" and "length dst \<le> FU_RBUF"
  shows "fu_rand P dst s =
    (case fu_rand_fill P (rbuf s) s of
       (FAILURE, buf, s1) \<Rightarrow> (FAILURE, replicate (length dst) 0, s1\<lparr>rbuf := buf\<rparr>)
     | (SUCCESS, buf, s1) \<Rightarrow>
         (SUCCESS, take (length dst) buf, s1\<lparr>rbuf := buf, rpos := length dst\<rparr>))"
  using assms fu_inv_rbuf [OF assms(1)]
  by (auto simp: fu_rand_def fu_rand_serve_def unserved_def Let_def split: prod.splits zend_result.splits)

lemma unserved_split:
  "take n (unserved s) @ unserved (s\<lparr>rpos := rpos s + n\<rparr>) = unserved s"
  "take n buf @ unserved (s\<lparr>rbuf := buf, rpos := n\<rparr>) = buf"
  by (simp_all add: unserved_def add.commute [of "rpos s" n] append_take_drop_id flip: drop_drop)

text \<open>C10: while the buffer lasts, a draw is served from it without touching the outside world, and
  exactly the bytes handed out leave it; otherwise the whole buffer is refilled once and the draw is
  the head of the new bytes.  So no byte is handed out twice and none that precedes a refill follows it.\<close>

theorem fu_rand_serves_each_byte_once:
  assumes "fu_inv s" and "length dst \<le> FU_RBUF" and "fu_rand P dst s = (SUCCESS, bs, s')"
  shows "length bs = length dst \<and>
    (if length dst \<le> length (unserved s)
     then unserved s = bs @ unserved s' \<and> s' = s\<lparr>rpos := rpos s + length dst\<rparr>
     else \<exists>buf s1. fu_rand_fill P (rbuf s) s = (SUCCESS, buf, s1) \<and> buf = bs @ unserved s' \<and>
            s' = s1\<lparr>rbuf := buf, rpos := length dst\<rparr>)"
proof (cases "length dst \<le> length (unserved s)")
  case True
  then have "bs = take (length dst) (unserved s)" "s' = s\<lparr>rpos := rpos s + length dst\<rparr>"
    using fu_rand_from_buffer [OF assms(1) True, of P] assms(3) by simp_all
  then show ?thesis using True by (simp add: unserved_split)
next
  case False
  then have l: "length (unserved s) < length dst" by simp
  obtain rc buf s1 where r: "fu_rand_fill P (rbuf s) s = (rc, buf, s1)"
    by (cases "fu_rand_fill P (rbuf s) s")
  have len: "length buf = FU_RBUF"
    using fill.fill_length [OF assms(1), of P "rbuf s"] fu_inv_rbuf [OF assms(1)] r by simp
  have "rc = SUCCESS \<and> bs = take (length dst) buf \<and> s' = s1\<lparr>rbuf := buf, rpos := length dst\<rparr>"
    using assms(3) unfolding fu_rand_refill [OF assms(1) l assms(2)] r by (cases rc) simp_all
  then show ?thesis using False r len assms(2) by (simp add: unserved_split(2) min_absorb2)
qed

text \<open>A failed draw has thrown and leaves its destination zeroed, so no caller reads stale or
  uninitialised bytes.\<close>

theorem fu_rand_failure:
  assumes "fu_rand P dst s = (FAILURE, bs, s')"
  shows "bs = replicate (length dst) 0 \<and> EG_exception s' \<noteq> None"
  using rnd.fill_zero [of P dst s] rnd.fill_failure [of P dst s] assms by simp

subsection \<open>64-bit draws\<close>

lemma bit_of_nat_ge: "k < 2 ^ m \<Longrightarrow> m \<le> i \<Longrightarrow> \<not> bit (of_nat k :: 'a::len word) i"
proof -
  assume k: "k < 2 ^ m" "m \<le> i"
  then have "of_nat k = (take_bit m (of_nat k) :: 'a word)"
    by (simp add: take_bit_of_nat take_bit_nat_eq_self)
  then show ?thesis using k(2) by (metis bit_take_bit_iff not_less)
qed

lemma push_byte_or:
  assumes "8 * length bs < LENGTH('a::len)"
  shows "push_bit (8 * length bs) (ucast (b :: byte) :: 'a word) OR of_nat (be_nat bs) = of_nat (be_nat (b # bs))"
proof -
  have "be_nat bs < 2 ^ (8 * length bs)" using be_nat_less [of bs] by (simp add: power_mult)
  then have "push_bit (8 * length bs) (ucast b :: 'a word) AND of_nat (be_nat bs) = 0"
    by (intro bit_word_eqI) (auto simp: bit_simps dest: bit_of_nat_ge [where 'a = 'a])
  then have "push_bit (8 * length bs) (ucast b :: 'a word) OR of_nat (be_nat bs)
      = push_bit (8 * length bs) (ucast b) + of_nat (be_nat bs)"
    by (rule disjunctive_add_eq_or [symmetric])
  also have "\<dots> = of_nat (be_nat (b # bs))"
    by (simp add: push_bit_eq_mult power_mult)
  finally show ?thesis .
qed


lemma or_bytes_be_nat:
  "push_bit 56 (ucast (a :: byte)) OR push_bit 48 (ucast (b :: byte)) OR push_bit 40 (ucast (c :: byte)) OR
   push_bit 32 (ucast (d :: byte)) OR push_bit 24 (ucast (e :: byte)) OR push_bit 16 (ucast (f :: byte)) OR
   push_bit 8 (ucast (g :: byte)) OR ucast (h :: byte) = (of_nat (be_nat [a, b, c, d, e, f, g, h]) :: u64)"
proof -
  have h: "(ucast h :: u64) = of_nat (be_nat [h])"
    by simp
  have p:
    "push_bit 8 (ucast g :: u64) OR of_nat (be_nat [h]) = of_nat (be_nat [g, h])"
    "push_bit 16 (ucast f :: u64) OR of_nat (be_nat [g, h]) = of_nat (be_nat [f, g, h])"
    "push_bit 24 (ucast e :: u64) OR of_nat (be_nat [f, g, h]) = of_nat (be_nat [e, f, g, h])"
    "push_bit 32 (ucast d :: u64) OR of_nat (be_nat [e, f, g, h]) = of_nat (be_nat [d, e, f, g, h])"
    "push_bit 40 (ucast c :: u64) OR of_nat (be_nat [d, e, f, g, h]) = of_nat (be_nat [c, d, e, f, g, h])"
    "push_bit 48 (ucast b :: u64) OR of_nat (be_nat [c, d, e, f, g, h]) = of_nat (be_nat [b, c, d, e, f, g, h])"
    "push_bit 56 (ucast a :: u64) OR of_nat (be_nat [b, c, d, e, f, g, h]) = of_nat (be_nat [a, b, c, d, e, f, g, h])"
    using push_byte_or [of "[h]" g, where 'a = 64] push_byte_or [of "[g, h]" f, where 'a = 64]
      push_byte_or [of "[f, g, h]" e, where 'a = 64] push_byte_or [of "[e, f, g, h]" d, where 'a = 64]
      push_byte_or [of "[d, e, f, g, h]" c, where 'a = 64] push_byte_or [of "[c, d, e, f, g, h]" b, where 'a = 64]
      push_byte_or [of "[b, c, d, e, f, g, h]" a, where 'a = 64]
    by (simp_all del: be_nat.simps)
  show ?thesis
    unfolding or.assoc h p ..
qed

lemma list_8: "length r = 8 \<Longrightarrow> r = [r ! 0, r ! 1, r ! 2, r ! 3, r ! 4, r ! 5, r ! 6, r ! 7]"
  by (rule nth_equalityI) (auto simp: less_Suc_eq numeral_eq_Suc)

text \<open>The 64-bit draw is the big-endian value of eight fresh bytes.\<close>

lemma fu_rand_u64_eq:
  assumes "fu_inv s"
  shows "fu_rand_u64 P s =
    (case fu_rand_n P 8 s of (FAILURE, r, s) \<Rightarrow> (None, s) | (SUCCESS, r, s) \<Rightarrow> (Some (of_nat (be_nat r)), s))"
proof (rule fu_rand_n_cases [OF assms, of P 8])
  fix bs s' assume r: "fu_rand_n P 8 s = (SUCCESS, bs, s')" "length bs = 8"
  have "be_nat [bs ! 0, bs ! 1, bs ! 2, bs ! 3, bs ! 4, bs ! 5, bs ! 6, bs ! 7] = be_nat bs"
    by (rule arg_cong [OF list_8 [OF r(2), symmetric]])
  then show ?thesis
    unfolding fu_rand_u64_def or_bytes_be_nat r(1) by (simp del: be_nat.simps)
qed (simp add: fu_rand_u64_def)

lemma fu_rand_u64_cases:
  assumes "fu_inv s"
  obtains (ok) r s' where "fu_rand_u64 P s = (Some (of_nat (be_nat r)), s')" "length r = 8"
      "fu_rand_n P 8 s = (SUCCESS, r, s')" "fu_inv s'" "gen_marks s' = gen_marks s"
      "EG_exception s' = EG_exception s"
    | (fail) s' where "fu_rand_u64 P s = (None, s')" "fu_inv s'" "gen_marks s' = gen_marks s"
      "EG_exception s' \<noteq> None"
  by (rule fu_rand_n_cases [OF assms, of P 8]) (use ok fail in \<open>auto simp: fu_rand_u64_eq [OF assms]\<close>)


subsection \<open>The DRBG in one request\<close>

text \<open>C12: a request of at most the buffer size takes the DRBG (re-keyed from OS entropy first when it
  was never seeded or \<open>FU_DRBG_RESEED_BYTES\<close> were drawn) through one counter-mode run: the output is
  keystream under the current key, the next key is the 32 keystream bytes after the output's last
  block, never handed out, and the amount drawn since the seed grows by the request.\<close>

theorem fu_drbg_fill_one_chunk:
  assumes "fu_drbg_reseed P s = (SUCCESS, s1)" and "dst \<noteq> []" and "length dst \<le> FU_RBUF"
  shows "fu_drbg_fill P B dst s =
    (let E = aes_block B (drbg_key s1); c = load_block (drbg_ctr s1); n = nblocks (length dst);
         ks = keystream E c (n + 2)
     in (SUCCESS, take (length dst) ks,
         s1\<lparr>drbg_key := drop (16 * n) ks,
            drbg_ctr := store_block (ctr_add c (n + 2)),
            drbg_since_seed := drbg_since_seed s1 + length dst\<rparr>))"
proof -
  define E c n where "E = aes_block B (drbg_key s1)" and "c = load_block (drbg_ctr s1)"
    and "n = nblocks (length dst)"
  have tk: "(if length dst < FU_RBUF then length dst else FU_RBUF) = length dst"
    using assms(3) by simp
  have "keystream E c (n + 2) = keystream E c n @ store_block (E (ctr_add c n)) @ store_block (E (ctr_add c (n + 1)))"
    by (simp only: keystream_add) (simp add: keystream_def numeral_2_eq_2 ctr_add_add)
  then have ks: "take (length dst) (keystream E c n) = take (length dst) (keystream E c (n + 2))"
    "store_block (E (ctr_add c n)) @ store_block (E (ctr_add c (n + 1))) = drop (16 * n) (keystream E c (n + 2))"
    using nblocks_ge [of "length dst"] by (simp_all add: n_def)
  have "fu_drbg_chunk B (length dst) s1 = (take (length dst) (keystream E c (n + 2)),
      s1\<lparr>drbg_key := drop (16 * n) (keystream E c (n + 2)),
         drbg_ctr := store_block (ctr_add c (n + 2)), drbg_since_seed := drbg_since_seed s1 + length dst\<rparr>)"
    unfolding fu_drbg_chunk_def Let_def fu_aes_ctr_spec ctr_spec_def
    by (simp only: ks fst_conv snd_conv flip: E_def c_def n_def)
  moreover have "fu_drbg_fill P B [] s' = (SUCCESS, [], s')" for s' :: "'a st"
    by (simp add: fu_drbg_fill.simps)
  ultimately show ?thesis
    unfolding Let_def E_def [symmetric] c_def [symmetric] n_def [symmetric]
    using assms by (simp add: fu_drbg_fill.simps [of P B dst s] Let_def tk)
qed

subsection \<open>The xoshiro256** state\<close>

lemma fu_rotl_eq_0:
  assumes "k < 64"
  shows "fu_rotl x k = 0 \<longleftrightarrow> x = 0"
proof
  assume z: "fu_rotl x k = 0"
  have "\<not> bit x i" for i
  proof
    assume b: "bit x i"
    then have i: "i < 64" by (auto dest: bit_imp_le_length)
    have "\<not> bit (fu_rotl x k) (i + k)" "\<not> bit (fu_rotl x k) (i + k - 64)" by (simp_all add: z)
    with b i assms show False by (cases "i + k < 64") (auto simp: fu_rotl_def bit_simps)
  qed
  then show "x = 0" by (simp add: bit_eq_iff)
qed (simp add: fu_rotl_def)

lemma xor_eq_0: "x XOR y = 0 \<longleftrightarrow> x = (y :: 'a::len word)"
  by (auto simp: bit_eq_iff bit_simps dest: bit_imp_le_length)

lemma push_bit_fixed:
  assumes "push_bit n x = (x :: 'a::len word)" and "0 < n"
  shows "x = 0"
proof -
  have "\<not> bit x i" for i
  proof (induction i rule: less_induct)
    case (less i)
    show ?case
    proof
      assume b: "bit x i"
      then have "bit (push_bit n x) i" by (simp add: assms(1))
      then have "n \<le> i" "bit x (i - n)" by (auto simp: bit_simps)
      with less [of "i - n"] assms(2) show False by simp
    qed
  qed
  then show ?thesis by (simp add: bit_eq_iff)
qed

text \<open>The transition takes only the zero state to zero, so a seeded generator never gets stuck.\<close>

lemma xs_step_nonzero:
  assumes "q \<noteq> (0, 0, 0, 0)"
  shows "snd (xs_step q) \<noteq> (0, 0, 0, 0)"
proof
  obtain a b c d where q: "q = (a, b, c, d)" by (cases q)
  have r: "fu_rotl x 45 = 0 \<longleftrightarrow> x = 0" for x by (rule fu_rotl_eq_0) simp
  assume "snd (xs_step q) = (0, 0, 0, 0)"
  then have e: "a = d XOR b" "b = c XOR a" "c XOR a = push_bit 17 b" "d = b"
    unfolding q xs_step.simps Let_def snd_conv prod.inject r xor_eq_0 by iprover+
  have "push_bit 17 b = b" by (rule sym [OF trans [OF e(2) e(3)]])
  then have b: "b = 0" by (rule push_bit_fixed) simp
  have d: "d = 0" using e(4) b by simp
  have a: "a = 0" using e(1) b d by simp
  have "c = 0" using e(3) a b by simp
  with a b d q assms show False by simp
qed

lemma xs_fix_nonzero: "xs_fix q \<noteq> (0, 0, 0, 0)"
  by (cases q) (auto simp: xs_fix_def)

lemma xs_load_store: "xs_load (xs_store q) = q"
  by (cases q) (simp add: xs_load_def xs_store_def le_load_store)

lemma fu_inv_prng_updates:
  "fu_inv s \<Longrightarrow> q \<noteq> (0, 0, 0, 0) \<Longrightarrow> fu_inv (s\<lparr>prng_s := q, prng_seeded := b\<rparr>)"
  "fu_inv s \<Longrightarrow> \<not> prng_seeded s \<Longrightarrow> fu_inv (s\<lparr>prng_s := q\<rparr>)"
  "fu_inv s \<Longrightarrow> q \<noteq> (0, 0, 0, 0) \<Longrightarrow> fu_inv (s\<lparr>prng_s := q\<rparr>)"
  by (simp_all add: fu_inv_def)

lemma fu_xs_next_cases:
  assumes "fu_inv s"
  obtains (ok) s1 where "fu_inv s1" "gen_marks s1 = gen_marks s" "EG_exception s1 = EG_exception s"
      "prng_seeded s1" "prng_s s1 \<noteq> (0, 0, 0, 0)" "prng_seeded s \<longrightarrow> s1 = s"
      "fu_xs_next P s = (fst (xs_step (prng_s s1)), s1\<lparr>prng_s := snd (xs_step (prng_s s1))\<rparr>)"
    | (fail) s1 where "fu_inv s1" "gen_marks s1 = gen_marks s" "EG_exception s1 \<noteq> None"
      "\<not> prng_seeded s" "\<not> prng_seeded s1" "fu_xs_next P s = (0, s1)"
proof (cases "prng_seeded s")
  case True
  with assms have "prng_s s \<noteq> (0, 0, 0, 0)" by (simp add: fu_inv_def)
  with True show ?thesis using assms by (intro ok [of s]) (simp_all add: fu_xs_next_def Let_def)
next
  case False
  show ?thesis
  proof (rule rnd.fill_cases [OF assms, of P "xs_store (prng_s s)"])
    fix d s1
    assume r: "fu_rand P (xs_store (prng_s s)) s = (SUCCESS, d, s1)" "fu_inv s1"
      "gen_marks s1 = gen_marks s" "EG_exception s1 = EG_exception s"
    then show ?thesis
      using False xs_fix_nonzero [of "xs_load d"]
      by (intro ok [of "s1\<lparr>prng_s := xs_fix (xs_load d), prng_seeded := True\<rparr>"])
         (simp_all add: fu_inv_prng_updates fu_xs_next_def Let_def)
  next
    fix d s1
    assume r: "fu_rand P (xs_store (prng_s s)) s = (FAILURE, d, s1)" "fu_inv s1"
      "gen_marks s1 = gen_marks s" "EG_exception s1 \<noteq> None" "prng_seeded s1 = prng_seeded s"
    then show ?thesis
      using False
      by (intro fail [of "s1\<lparr>prng_s := xs_load d\<rparr>"])
         (simp_all add: fu_inv_prng_updates fu_xs_next_def Let_def)
  qed
qed

lemma fu_xs_next_inv: "fu_inv s \<Longrightarrow> fu_inv (snd (fu_xs_next P s))"
  by (rule fu_xs_next_cases [of s P]) (auto intro!: fu_inv_prng_updates(3) xs_step_nonzero)

theorem fu_rand_serves_each_byte_once_witness:
  "fu_rand sample_platform [0, 0] ((fu_boot 5)\<lparr>rpos := 8190\<rparr>) = (SUCCESS, [0, 0], fu_boot 5) \<and>
   unserved ((fu_boot (5 :: nat))\<lparr>rpos := 8190\<rparr>) = [0, 0 :: byte] @ unserved (fu_boot (5 :: nat))"
proof -
  let ?s = "(fu_boot (5 :: nat))\<lparr>rpos := 8190\<rparr>"
  have i: "fu_inv ?s" by (rule fu_inv_rand_updates) (simp_all add: fu_inv_boot FU_RBUF_def)
  have r: "fu_rand sample_platform [0, 0] ?s = (SUCCESS, [0, 0], fu_boot 5)"
    by (simp add: fu_rand_def fu_rand_serve_def fu_boot_def fu_ginit_def FU_RBUF_def globals.extend_def
        numeral_2_eq_2)
  have "length (unserved ?s) = 2"
    by (simp add: unserved_def fu_boot_def fu_ginit_def FU_RBUF_def globals.extend_def)
  then show ?thesis using fu_rand_serves_each_byte_once [OF i _ r] r by (simp add: FU_RBUF_def)
qed

theorem fu_rand_failure_witness:
  "\<exists>s'. fu_rand failing_platform [7, 7] (fu_boot 5) = (FAILURE, [0, 0], s') \<and> EG_exception s' \<noteq> None"
proof -
  obtain bs s' where r: "fu_rand failing_platform [7, 7] (fu_boot 5) = (FAILURE, bs, s')"
    by (simp add: fu_rand_def fu_rand_fill_def os_random_def failing_platform_def sample_platform_def
        fu_boot_def fu_ginit_def FU_RBUF_def globals.extend_def)
  then show ?thesis using fu_rand_failure [OF r] by (auto simp: numeral_2_eq_2)
qed

text \<open>A stand-in for the AES instructions, for the worked examples.\<close>

definition sample_aes :: aes_backend where
  "sample_aes = AES_X86 \<lparr>aesenc = (XOR), aesenclast = (XOR), aeskeygenassist = (\<lambda>k r. k)\<rparr>"

theorem fu_drbg_fill_one_chunk_witness:
  "drbg_since_seed (snd (snd (fu_drbg_fill sample_platform sample_aes [0, 0, 0] ((fu_boot 5)\<lparr>drbg_seeded := True\<rparr>)))) = 3"
proof -
  let ?s = "(fu_boot (5 :: nat))\<lparr>drbg_seeded := True\<rparr>"
  have "fu_drbg_reseed sample_platform ?s = (SUCCESS, ?s)"
    by (simp add: fu_drbg_reseed_def fu_boot_def fu_ginit_def FU_DRBG_RESEED_BYTES_def globals.extend_def)
  then show ?thesis
    using fu_drbg_fill_one_chunk [of sample_platform ?s ?s "[0, 0, 0]" sample_aes]
    by (simp add: FU_RBUF_def Let_def fu_boot_def fu_ginit_def globals.extend_def)
qed

subsection \<open>\<open>fast_uuid_random_bytes\<close>\<close>

definition FU_MAX_RANDOM_BYTES :: int where
  "FU_MAX_RANDOM_BYTES = 16 * 1024 * 1024"

text \<open>The string returned, or \<open>None\<close> with the exception pending.\<close>

definition fu_fn_random_bytes :: "'w platform \<Rightarrow> int \<Rightarrow> 'w st \<Rightarrow> byte list option \<times> 'w st" where
  "fu_fn_random_bytes P n s =
     (if n \<le> 0 then (None, zend_throw InvalidArgumentException ''length must be > 0'' s)
      else if FU_MAX_RANDOM_BYTES < n then
        (None, zend_throw InvalidArgumentException ''length is too large (max 16777216)'' s)
      else
        (let str = replicate (nat n) 0;
             r = (if FU_RBUF div 2 < nat n \<and> nat n < FU_RBUF then fu_rand_fill P str s else fu_rand P str s)
         in case r of
              (FAILURE, b, s) \<Rightarrow> (None, s)
            | (SUCCESS, b, s) \<Rightarrow> (Some b, s)))"

lemma random_bytes_facts:
  assumes "fu_inv s" and "EG_exception s = None" and "fu_fn_random_bytes P n s = (r, s')"
  shows "fu_inv s' \<and> (r = None \<longleftrightarrow> EG_exception s' \<noteq> None) \<and>
    (\<forall>b. r = Some b \<longrightarrow> length b = nat n \<and> 1 \<le> n \<and> n \<le> 16777216)"
proof (cases "n \<le> 0 \<or> FU_MAX_RANDOM_BYTES < n")
  case True
  then have "r = None \<and> EG_exception s' \<noteq> None \<and> fu_inv s'"
    using assms by (auto simp: fu_fn_random_bytes_def zend_throw_def fu_inv_def split: if_splits)
  then show ?thesis by simp
next
  case False
  define str :: "byte list" where "str = replicate (nat n) 0"
  have "(fu_inv s' \<and> (r = None \<longleftrightarrow> EG_exception s' \<noteq> None)) \<and> (\<forall>b. r = Some b \<longrightarrow> length b = length str)"
  proof (cases "FU_RBUF div 2 < nat n \<and> nat n < FU_RBUF")
    case True
    show ?thesis
      by (rule fill.fill_cases [OF assms(1), of P str])
        (use assms False True in \<open>auto simp: fu_fn_random_bytes_def Let_def str_def\<close>)
  next
    case no: False
    show ?thesis
      by (rule rnd.fill_cases [OF assms(1), of P str])
        (use assms False no in \<open>auto simp: fu_fn_random_bytes_def Let_def str_def\<close>)
  qed
  then show ?thesis using False by (auto simp: str_def FU_MAX_RANDOM_BYTES_def)
qed

text \<open>C26: a request returns a string of exactly the length asked for and throws nothing, or returns
  nothing with an exception pending; only lengths from 1 to 16 MiB can succeed; and the invariant
  of the globals is kept on every path.\<close>

theorem fu_fn_random_bytes_result:
  assumes "fu_inv s" and "EG_exception s = None" and "fu_fn_random_bytes P n s = (r, s')"
  shows "fu_inv s' \<and> (r = None \<longleftrightarrow> EG_exception s' \<noteq> None) \<and>
    (\<forall>b. r = Some b \<longrightarrow> length b = nat n \<and> 1 \<le> n \<and> n \<le> 16777216)"
  by (rule random_bytes_facts [OF assms])

theorem fu_fn_random_bytes_result_witness:
  "\<exists>b. fst (fu_fn_random_bytes sample_platform 4 (fu_boot 5)) = Some b \<and> length b = 4"
proof -
  obtain b s' where r: "fu_fn_random_bytes sample_platform 4 (fu_boot 5) = (Some b, s')"
    by (simp add: fu_fn_random_bytes_def FU_MAX_RANDOM_BYTES_def fu_rand_def fu_rand_fill_def fu_rand_serve_def
        os_random_def sample_platform_def fu_boot_def fu_ginit_def FU_RBUF_def globals.extend_def Let_def)
  have "EG_exception (fu_boot (5 :: nat)) = None" by (simp add: fu_boot_def globals.extend_def)
  then show ?thesis using fu_fn_random_bytes_result [OF fu_inv_boot _ r] r by simp
qed

text \<open>A call of the non-cryptographic generator keeps the invariant of the globals; from a seeded
  state it is the xoshiro256** transition and draws nothing; otherwise it seeds from \<open>fu_rand\<close> and
  either throws and returns 0 or leaves a seeded, non-zero state.\<close>

theorem fu_xs_next_seeding:
  assumes "fu_inv s" and "EG_exception s = None"
  shows "case fu_xs_next P s of (r, s') \<Rightarrow>
    fu_inv s' \<and>
    (if prng_seeded s then r = fst (xs_step (prng_s s)) \<and> s' = s\<lparr>prng_s := snd (xs_step (prng_s s))\<rparr>
     else if EG_exception s' = None then prng_seeded s' \<and> prng_s s' \<noteq> (0, 0, 0, 0)
     else r = 0 \<and> \<not> prng_seeded s')"
proof (rule fu_xs_next_cases [OF assms(1), of P])
  fix s1 assume "fu_inv s1" "EG_exception s1 = EG_exception s" "prng_seeded s1" "prng_s s1 \<noteq> (0, 0, 0, 0)"
    "prng_seeded s \<longrightarrow> s1 = s"
    "fu_xs_next P s = (fst (xs_step (prng_s s1)), s1\<lparr>prng_s := snd (xs_step (prng_s s1))\<rparr>)"
  then show ?thesis
    using xs_step_nonzero [of "prng_s s1"] assms(2) by (auto intro!: fu_inv_prng_updates(3))
qed (use fu_xs_next_inv [OF assms(1), of P] in auto)

theorem fu_xs_next_seeding_witness:
  "fst (fu_xs_next sample_platform ((fu_boot 5)\<lparr>prng_s := (1, 2, 3, 4), prng_seeded := True\<rparr>)) = 11520"
proof -
  let ?s = "(fu_boot (5 :: nat))\<lparr>prng_s := (1, 2, 3, 4), prng_seeded := True\<rparr>"
  have "fu_inv ?s" by (rule fu_inv_prng_updates) (simp_all add: fu_inv_boot)
  moreover have "EG_exception ?s = None" by (simp add: fu_boot_def globals.extend_def)
  moreover have "fst (xs_step (1, 2, 3, 4)) = 11520" by code_simp
  ultimately show ?thesis
    using fu_xs_next_seeding [of ?s sample_platform] by (simp split: prod.splits del: xs_step.simps)
qed

end
