(* ===== verification/Fu_Clock.thy ===== *)
theory Fu_Clock
  imports Fu_Random "HOL-Library.Option_ord"
begin

section \<open>Clocks\<close>

text \<open>
  \<open>fu_unix_nanos\<close> (the POSIX and the Windows branch), the Gregorian 100 ns clock behind
  versions 1, 2 and 6, and the two monotonic clocks over it.  The contract of a monotonic source of
  values, shared by both clocks and by the version 7 generator, is the locale \<open>monotonic_clock\<close>.
\<close>

subsection \<open>Nanoseconds since the Unix epoch\<close>

definition UINT64_MAX :: u64 where
  "UINT64_MAX = 18446744073709551615"

definition before_epoch :: string where
  "before_epoch = ''System clock is before the Unix epoch''"

definition clock_too_far :: string where
  "clock_too_far = ''System clock too far in the future for nanosecond representation''"

text \<open>A clock reading to nanoseconds: the message thrown, or the value.  The casts of \<open>tv_sec\<close> and
  \<open>tv_nsec\<close> to \<open>uint64_t\<close> are \<open>of_int\<close>.\<close>

fun clock_nanos :: "clock_reading \<Rightarrow> string + u64" where
  "clock_nanos (Clock_error err) = Inl (''clock_gettime(CLOCK_REALTIME) failed: '' @ err)"
| "clock_nanos (Timespec tv_sec tv_nsec) =
     (if tv_sec < 0 then Inl before_epoch
      else if (UINT64_MAX - of_int tv_nsec) div 1000000000 < of_int tv_sec then Inl clock_too_far
      else Inr (of_int tv_sec * 1000000000 + of_int tv_nsec))"
| "clock_nanos (Filetime dwHighDateTime dwLowDateTime) =
     (let t100 = push_bit 32 (ucast dwHighDateTime) OR ucast dwLowDateTime
      in if t100 < 116444736000000000 then Inl before_epoch
         else (let t100 = t100 - 116444736000000000
               in if UINT64_MAX div 100 < t100 then Inl clock_too_far
                  else Inr (t100 * 100)))"

definition fu_unix_nanos :: "'w platform \<Rightarrow> 'w st \<Rightarrow> u64 option \<times> 'w st" where
  "fu_unix_nanos P s =
     (let c = clock P (world s); s = s\<lparr>world := snd c\<rparr>
      in case clock_nanos (fst c) of
           Inl msg \<Rightarrow> (None, zend_throw UnsupportedOperationException msg s)
         | Inr ns \<Rightarrow> (Some ns, s))"

subsection \<open>Gregorian time\<close>

definition FU_GREG_UNIX_EPOCH :: u64 where
  "FU_GREG_UNIX_EPOCH = 0x01B21DD213814000"

definition fu_greg_now :: "'w platform \<Rightarrow> 'w st \<Rightarrow> u64 option \<times> 'w st" where
  "fu_greg_now P s =
     (case fu_unix_nanos P s of
        (None, s) \<Rightarrow> (None, s)
      | (Some ns, s) \<Rightarrow> (Some (ns div 100 + FU_GREG_UNIX_EPOCH), s))"

definition fu_greg_monotonic :: "'w platform \<Rightarrow> 'w st \<Rightarrow> u64 option \<times> 'w st" where
  "fu_greg_monotonic P s =
     (case fu_greg_now P s of
        (None, s) \<Rightarrow> (None, s)
      | (Some g, s) \<Rightarrow>
          if g \<le> greg_last s then
            (if greg_last s = push_bit 60 1 - 1 then
               (None, zend_throw UnsupportedOperationException ''Gregorian timestamp exhausted'' s)
             else (let g = greg_last s + 1 in (Some g, s\<lparr>greg_last := g\<rparr>)))
          else (Some g, s\<lparr>greg_last := g\<rparr>))"

text \<open>Version 2 keeps its mark on the 28 visible timestamp bits.\<close>

definition fu_v2_monotonic :: "'w platform \<Rightarrow> 'w st \<Rightarrow> u64 option \<times> 'w st" where
  "fu_v2_monotonic P s =
     (case fu_greg_now P s of
        (None, s) \<Rightarrow> (None, s)
      | (Some g, s) \<Rightarrow>
          (let vis = drop_bit 32 g
           in if vis \<le> v2_last s then
                (if v2_last s = push_bit 28 1 - 1 then
                   (None, zend_throw UnsupportedOperationException ''v2 timestamp exhausted'' s)
                 else (let vis = v2_last s + 1
                       in (Some (push_bit 32 vis OR (g AND 0xffffffff)), s\<lparr>v2_last := vis\<rparr>)))
              else (Some (push_bit 32 vis OR (g AND 0xffffffff)), s\<lparr>v2_last := vis\<rparr>)))"

subsection \<open>The contract of a monotonic source\<close>

text \<open>Calls made one after another, whatever the outcome of each (a caller may catch the exception
  and go on): the values of those that succeeded, and the final state.\<close>

fun run_calls :: "('i \<Rightarrow> 's \<Rightarrow> 'a option \<times> 's) \<Rightarrow> 'i list \<Rightarrow> 's \<Rightarrow> 'a list \<times> 's" where
  "run_calls f [] s = ([], s)"
| "run_calls f (i # is) s =
     (let r = f i s; rs = run_calls f is (snd r)
      in ((case fst r of None \<Rightarrow> fst rs | Some x \<Rightarrow> x # fst rs), snd rs))"

text \<open>A source issues values above its mark and moves the mark to the value issued; a failed call
  never moves the mark back.  The index \<open>'i\<close> is what may change from call to call (the platform, the
  arguments), \<open>valid\<close> the indices the contract covers, \<open>stamp\<close> the part of a value that is ordered.\<close>

locale monotonic_clock =
  fixes tick :: "'i \<Rightarrow> 'w st \<Rightarrow> 'a option \<times> 'w st"
    and valid :: "'i \<Rightarrow> bool"
    and stamp :: "'a \<Rightarrow> 't::linorder"
    and mark :: "'w st \<Rightarrow> 't option"
  assumes tick_inv: "fu_inv s \<Longrightarrow> valid i \<Longrightarrow> fu_inv (snd (tick i s))"
    and tick_issues: "fu_inv s \<Longrightarrow> valid i \<Longrightarrow> tick i s = (Some x, s') \<Longrightarrow>
      mark s < Some (stamp x) \<and> mark s' = Some (stamp x)"
    and tick_fails: "fu_inv s \<Longrightarrow> valid i \<Longrightarrow> tick i s = (None, s') \<Longrightarrow>
      mark s \<le> mark s' \<and> EG_exception s' \<noteq> None"
begin

lemma tick_cases:
  assumes "fu_inv s" and "valid i"
  obtains (issued) x s' where "tick i s = (Some x, s')" "fu_inv s'" "mark s < Some (stamp x)" "mark s' = Some (stamp x)"
    | (failed) s' where "tick i s = (None, s')" "fu_inv s'" "mark s \<le> mark s'" "EG_exception s' \<noteq> None"
proof -
  obtain r s' where t: "tick i s = (r, s')" by fastforce
  have inv: "fu_inv s'" using tick_inv [OF assms] t by simp
  show ?thesis
  proof (cases r)
    case None
    with t inv tick_fails [OF assms, of s'] show ?thesis by (intro failed) auto
  next
    case (Some x)
    with t inv tick_issues [OF assms, of x s'] show ?thesis by (intro issued) auto
  qed
qed

lemma run_inv: "fu_inv s \<Longrightarrow> \<forall>i \<in> set is. valid i \<Longrightarrow> fu_inv (snd (run_calls tick is s))"
  by (induction "is" arbitrary: s) (simp_all add: Let_def tick_inv)

lemma run_above_mark:
  "fu_inv s \<Longrightarrow> \<forall>i \<in> set is. valid i \<Longrightarrow> x \<in> set (fst (run_calls tick is s)) \<Longrightarrow> mark s < Some (stamp x)"
proof (induction "is" arbitrary: s)
  case (Cons i "is")
  then have v: "valid i" by simp
  show ?case
  proof (rule tick_cases [OF Cons.prems(1) v])
    fix y s1 assume t: "tick i s = (Some y, s1)" "fu_inv s1" and y: "mark s < Some (stamp y)" "mark s1 = Some (stamp y)"
    then have "x = y \<or> x \<in> set (fst (run_calls tick is s1))" using Cons.prems(3) by (simp add: Let_def)
    with Cons.IH [OF t(2)] Cons.prems(2) y show ?thesis by (metis order_less_trans list.set_intros(2))
  next
    fix s1 assume t: "tick i s = (None, s1)" "fu_inv s1" and le: "mark s \<le> mark s1"
    then have "mark s1 < Some (stamp x)" using Cons.prems Cons.IH [OF t(2)] by (simp add: Let_def)
    with le show ?thesis by (rule order_le_less_trans)
  qed
qed simp

lemma run_strictly_increasing:
  "fu_inv s \<Longrightarrow> \<forall>i \<in> set is. valid i \<Longrightarrow> sorted_wrt (\<lambda>x y. stamp x < stamp y) (fst (run_calls tick is s))"
proof (induction "is" arbitrary: s)
  case (Cons i "is")
  then have v: "valid i" "\<forall>i \<in> set is. valid i" by simp_all
  show ?case
  proof (rule tick_cases [OF Cons.prems(1) v(1)])
    fix y s1 assume t: "tick i s = (Some y, s1)" "fu_inv s1" "mark s1 = Some (stamp y)"
    then show ?thesis
      using Cons.IH [OF t(2) v(2)] run_above_mark [OF t(2) v(2)] by (auto simp: Let_def)
  next
    fix s1 assume t: "tick i s = (None, s1)" "fu_inv s1"
    then show ?thesis using Cons.IH [OF t(2) v(2)] by (simp add: Let_def)
  qed
qed simp

text \<open>Every value issued was the mark of a state that satisfies the invariant.\<close>

lemma run_issued:
  "fu_inv s \<Longrightarrow> \<forall>i \<in> set is. valid i \<Longrightarrow> x \<in> set (fst (run_calls tick is s)) \<Longrightarrow>
     \<exists>s'. fu_inv s' \<and> mark s' = Some (stamp x)"
proof (induction "is" arbitrary: s)
  case (Cons i "is")
  then have v: "valid i" "\<forall>i \<in> set is. valid i" by simp_all
  show ?case
  proof (rule tick_cases [OF Cons.prems(1) v(1)])
    fix y s1 assume t: "tick i s = (Some y, s1)" "fu_inv s1" "mark s1 = Some (stamp y)"
    then have "x = y \<or> x \<in> set (fst (run_calls tick is s1))" using Cons.prems(3) by (simp add: Let_def)
    with t Cons.IH [OF t(2) v(2)] show ?thesis by blast
  next
    fix s1 assume t: "tick i s = (None, s1)" "fu_inv s1"
    then show ?thesis using Cons.IH [OF t(2) v(2)] Cons.prems(3) by (simp add: Let_def)
  qed
qed simp

lemma run_distinct: "fu_inv s \<Longrightarrow> \<forall>i \<in> set is. valid i \<Longrightarrow> distinct (fst (run_calls tick is s))"
  by (rule sorted_wrt_less_distinct [OF run_strictly_increasing])

lemma run_all:
  assumes "\<And>i s x s'. fu_inv s \<Longrightarrow> valid i \<Longrightarrow> tick i s = (Some x, s') \<Longrightarrow> Q x"
  shows "fu_inv s \<Longrightarrow> \<forall>i \<in> set is. valid i \<Longrightarrow> x \<in> set (fst (run_calls tick is s)) \<Longrightarrow> Q x"
proof (induction "is" arbitrary: s)
  case (Cons i "is")
  then have v: "valid i" "\<forall>i \<in> set is. valid i" by simp_all
  show ?case
  proof (rule tick_cases [OF Cons.prems(1) v(1)])
    fix y s1 assume t: "tick i s = (Some y, s1)" "fu_inv s1"
    then have "x = y \<or> x \<in> set (fst (run_calls tick is s1))" using Cons.prems(3) by (simp add: Let_def)
    with assms [OF Cons.prems(1) v(1) t(1)] Cons.IH [OF t(2) v(2)] show ?thesis by blast
  next
    fix s1 assume t: "tick i s = (None, s1)" "fu_inv s1"
    then show ?thesis using Cons.IH [OF t(2) v(2)] Cons.prems(3) by (simp add: Let_def)
  qed
qed simp

end

lemma run_calls_map:
  "run_calls (\<lambda>i s. map_prod (map_option f) id (t i s)) is s = map_prod (map f) id (run_calls t is s)"
  by (induction "is" arbitrary: s) (simp_all add: Let_def split: option.split)

subsection \<open>The clock reading is exact or refused\<close>

lemma unat_UINT64_MAX: "unat UINT64_MAX = 2 ^ 64 - 1"
  by (simp add: UINT64_MAX_def)

lemma clock_nanos_timespec:
  assumes "0 \<le> nsec" and "nsec < 1000000000" and "sec < 2 ^ 63"
  shows "clock_nanos (Timespec sec nsec) =
    (if sec < 0 then Inl before_epoch
     else if 2 ^ 64 \<le> sec * 1000000000 + nsec then Inl clock_too_far
     else Inr (of_int (sec * 1000000000 + nsec)))"
proof (cases "sec < 0")
  case False
  define a n where "a = nat sec" and "n = nat nsec"
  have e: "sec = int a" "nsec = int n" using False assms(1) by (simp_all add: a_def n_def)
  have b: "n < 1000000000" "a < 2 ^ 63" using assms(2,3) by (simp_all add: e)
  have u: "unat (of_nat a :: u64) = a" "unat (of_nat n :: u64) = n"
    using b by (simp_all add: of_nat_inverse)
  have "of_nat n \<le> UINT64_MAX" using b by (simp add: word_le_nat_alt u unat_UINT64_MAX)
  then have "unat (UINT64_MAX - of_nat n) = 2 ^ 64 - 1 - n"
    by (simp add: unat_sub u unat_UINT64_MAX)
  then have "(UINT64_MAX - of_nat n) div 1000000000 < (of_nat a :: u64) \<longleftrightarrow> (2 ^ 64 - 1 - n) div 1000000000 < a"
    by (simp add: word_less_nat_alt unat_div u)
  also have "\<dots> \<longleftrightarrow> 2 ^ 64 - 1 - n < a * 1000000000"
    by (rule div_less_iff_less_mult) simp
  also have "\<dots> \<longleftrightarrow> 2 ^ 64 \<le> sec * 1000000000 + nsec"
    using b by (simp add: e) linarith
  finally show ?thesis using False by (simp add: e)
qed simp

lemma clock_nanos_filetime:
  fixes hi lo :: u32
  defines "t \<equiv> unat hi * 2 ^ 32 + unat lo"
  shows "clock_nanos (Filetime hi lo) =
    (if t < 116444736000000000 then Inl before_epoch
     else if 2 ^ 64 \<le> (t - 116444736000000000) * 100 then Inl clock_too_far
     else Inr (of_nat ((t - 116444736000000000) * 100)))"
proof -
  let ?t = "push_bit 32 (ucast hi :: u64) OR ucast lo"
  have "unat hi < 2 ^ 32" "unat lo < 2 ^ 32" using unsigned_less [of hi] unsigned_less [of lo] by simp_all
  then have t: "unat ?t = t"
    unfolding t_def by (subst unat_push_or) (simp_all add: unat_ucast_up)
  have c: "unat (116444736000000000 :: u64) = 116444736000000000" by simp
  have lt: "?t < 116444736000000000 \<longleftrightarrow> t < 116444736000000000"
    by (simp add: word_less_nat_alt t)
  show ?thesis
  proof (cases "t < 116444736000000000")
    case False
    define d where "d = t - 116444736000000000"
    have ud: "unat (?t - 116444736000000000) = d"
      using False by (subst unat_sub) (simp_all add: word_le_nat_alt t d_def)
    have "UINT64_MAX div 100 < ?t - 116444736000000000 \<longleftrightarrow> (2 ^ 64 - 1) div 100 < d"
      by (simp add: word_less_nat_alt unat_div unat_UINT64_MAX ud)
    also have "\<dots> \<longleftrightarrow> 2 ^ 64 \<le> d * 100"
      by (subst div_less_iff_less_mult) (simp_all, linarith)
    moreover have "(?t - 116444736000000000) * 100 = of_nat (d * 100)"
      by (simp flip: ud)
    ultimately show ?thesis using False lt by (simp add: Let_def d_def)
  qed (use lt in simp)
qed

subsection \<open>The two Gregorian clocks\<close>

lemma fu_inv_world: "fu_inv (s\<lparr>world := w\<rparr>) = fu_inv s" "fu_inv (s\<lparr>EG_exception := e\<rparr>) = fu_inv s"
  "gen_marks (s\<lparr>world := w\<rparr>) = gen_marks s" "gen_marks (s\<lparr>EG_exception := e\<rparr>) = gen_marks s"
  for s :: "'w st"
  by (simp_all add: fu_inv_def gen_marks_def)

lemma zend_throw_simps [simp]:
  "fu_inv (zend_throw ce msg s) = fu_inv s" "gen_marks (zend_throw ce msg s) = gen_marks s"
  "EG_exception (zend_throw ce msg s) = Some (Exn ce msg)" "world (zend_throw ce msg s) = world s"
  "rbuf (zend_throw ce msg s) = rbuf s" "greg_last (zend_throw ce msg s) = greg_last s"
  "v2_last (zend_throw ce msg s) = v2_last s"
  by (simp_all add: zend_throw_def fu_inv_world)

lemma gen_marks_iff:
  "gen_marks s = gen_marks s' \<longleftrightarrow> v7_key s = v7_key s' \<and> v7_randb s = v7_randb s' \<and>
     v7_initialized s = v7_initialized s' \<and> greg_last s = greg_last s' \<and> v2_last s = v2_last s'"
  by (simp add: gen_marks_def)

lemma fu_unix_nanos_cases:
  assumes "fu_inv s"
  obtains (ok) ns s' where "fu_unix_nanos P s = (Some ns, s')" "fu_inv s'" "gen_marks s' = gen_marks s"
      "EG_exception s' = EG_exception s"
    | (fail) s' where "fu_unix_nanos P s = (None, s')" "fu_inv s'" "gen_marks s' = gen_marks s"
      "EG_exception s' \<noteq> None"
proof (cases "clock_nanos (fst (clock P (world s)))")
  case (Inl msg)
  then show ?thesis using assms fail by (simp add: fu_unix_nanos_def Let_def fu_inv_world)
next
  case (Inr ns)
  then show ?thesis using assms ok by (simp add: fu_unix_nanos_def Let_def fu_inv_world)
qed

lemma bump_mark:
  assumes "(w :: u64) < 2 ^ n" and "w \<noteq> push_bit n 1 - 1" and "n < 64"
  shows "w < w + 1" and "w + 1 < 2 ^ n"
proof -
  have lt: "(2 :: nat) ^ n < 2 ^ 64" using assms(3) by (intro power_strict_increasing) simp_all
  then have "unat (of_nat (2 ^ n) :: u64) = 2 ^ n" by (intro of_nat_inverse [OF refl]) simp
  then have p: "unat ((2 :: u64) ^ n) = 2 ^ n" by simp
  have "unat (push_bit n (1 :: u64) - 1) = 2 ^ n - 1"
    using p by (simp add: push_bit_eq_mult unat_sub word_le_nat_alt)
  with assms(2) have "unat w \<noteq> 2 ^ n - 1" by (metis word_unat_eq_iff)
  moreover have "unat w < 2 ^ n" using assms(1) p by (simp add: word_less_nat_alt)
  ultimately have less: "unat w + 1 < 2 ^ n" by linarith
  have u: "unat (w + 1) = unat w + 1"
    using unat_add_lem [THEN iffD1, of w 1] less lt by simp
  show "w < w + 1" "w + 1 < 2 ^ n" using less p u by (simp_all add: word_less_nat_alt)
qed

lemma greg_value_bound: "(ns :: u64) div 100 + FU_GREG_UNIX_EPOCH < 2 ^ 59"
proof -
  have "unat ns < 2 ^ 64" using unsigned_less [of ns] by simp
  then have "unat (ns div 100) \<le> 184467440737095516" by (simp add: unat_div)
  then have "unat (ns div 100 + FU_GREG_UNIX_EPOCH) \<le> 184467440737095516 + 122192928000000000"
    by (subst unat_add_lem [THEN iffD1]) (simp_all add: FU_GREG_UNIX_EPOCH_def)
  then show ?thesis by (simp add: word_less_nat_alt)
qed

lemma fu_greg_now_cases:
  assumes "fu_inv s"
  obtains (ok) g s' where "fu_greg_now P s = (Some g, s')" "g < 2 ^ 59" "fu_inv s'" "gen_marks s' = gen_marks s"
      "EG_exception s' = EG_exception s"
    | (fail) s' where "fu_greg_now P s = (None, s')" "fu_inv s'" "gen_marks s' = gen_marks s"
      "EG_exception s' \<noteq> None"
  by (rule fu_unix_nanos_cases [OF assms, of P])
     (use ok fail greg_value_bound in \<open>auto simp: fu_greg_now_def\<close>)

text \<open>The assertion \<open>ZEND_ASSERT(g < (1ULL << 60))\<close> is part of the conclusion.\<close>

lemma fu_greg_monotonic_cases:
  assumes "fu_inv s"
  obtains (ok) g s' where "fu_greg_monotonic P s = (Some g, s')" "greg_last s < g" "greg_last s' = g"
      "g < 2 ^ 60" "fu_inv s'" "gen_marks s' = gen_marks (s\<lparr>greg_last := g\<rparr>)" "EG_exception s' = EG_exception s"
    | (fail) s' where "fu_greg_monotonic P s = (None, s')" "fu_inv s'" "gen_marks s' = gen_marks s"
      "EG_exception s' \<noteq> None"
proof (rule fu_greg_now_cases [OF assms, of P])
  fix g s1 assume r: "fu_greg_now P s = (Some g, s1)" "g < 2 ^ 59" "fu_inv s1" "gen_marks s1 = gen_marks s"
    "EG_exception s1 = EG_exception s"
  have l: "greg_last s1 = greg_last s" "v2_last s1 = v2_last s" using r(4) by (simp_all add: gen_marks_iff)
  have inv: "fu_inv (s1\<lparr>greg_last := x\<rparr>)" if "x < 2 ^ 60" for x using r(3) that by (simp add: fu_inv_def)
  have g60: "g < 2 ^ 60" using r(2) by (rule order_less_trans) simp
  have last: "greg_last s < 2 ^ 60" using assms by (simp add: fu_inv_def)
  show ?thesis
  proof (cases "g \<le> greg_last s")
    case False
    then show ?thesis
      using r l inv g60 by (intro ok [of g "s1\<lparr>greg_last := g\<rparr>"]) (simp_all add: fu_greg_monotonic_def gen_marks_iff)
  next
    case le: True
    show ?thesis
    proof (cases "greg_last s = push_bit 60 1 - 1")
      case True
      with le r l show ?thesis
        by (intro fail [of "zend_throw UnsupportedOperationException ''Gregorian timestamp exhausted'' s1"])
           (simp_all add: fu_greg_monotonic_def)
    next
      case False
      note b = bump_mark [OF last False, simplified]
      with False le r l inv show ?thesis
        by (intro ok [of "greg_last s + 1" "s1\<lparr>greg_last := greg_last s + 1\<rparr>"])
           (simp_all add: fu_greg_monotonic_def Let_def gen_marks_iff)
    qed
  qed
qed (rule fail, auto simp: fu_greg_monotonic_def)

lemma v2_join:
  assumes "(v :: u64) < 2 ^ 28"
  shows "drop_bit 32 (push_bit 32 v OR (g AND 0xffffffff)) = v" "push_bit 32 v OR (g AND 0xffffffff) < 2 ^ 60"
proof -
  have m: "g AND 0xffffffff = take_bit 32 g" by (simp add: take_bit_eq_mask mask_eq_exp_minus_1)
  have b: "unat (g AND 0xffffffff) < 2 ^ 32"
    unfolding m unsigned_take_bit_eq using take_bit_nat_less_exp [of 32 "unat g"] by simp
  have v: "unat v < 2 ^ 28" using assms by (simp add: word_less_nat_alt)
  have u: "unat (push_bit 32 v OR (g AND 0xffffffff)) = unat v * 2 ^ 32 + unat (g AND 0xffffffff)"
    using b v by (intro unat_push_or) simp_all
  show "drop_bit 32 (push_bit 32 v OR (g AND 0xffffffff)) = v"
    unfolding word_unat_eq_iff unat_drop_bit u using b by simp
  show "push_bit 32 v OR (g AND 0xffffffff) < 2 ^ 60"
    using b v by (simp add: word_less_nat_alt u)
qed

lemma drop_32_bound: "(g :: u64) < 2 ^ 60 \<Longrightarrow> drop_bit 32 g < 2 ^ 28"
  by (simp add: word_less_nat_alt unat_drop_bit less_mult_imp_div_less)

lemma fu_v2_monotonic_cases:
  assumes "fu_inv s"
  obtains (ok) g s' where "fu_v2_monotonic P s = (Some g, s')" "v2_last s < drop_bit 32 g"
      "v2_last s' = drop_bit 32 g" "g < 2 ^ 60" "fu_inv s'" "gen_marks s' = gen_marks (s\<lparr>v2_last := drop_bit 32 g\<rparr>)"
      "EG_exception s' = EG_exception s"
    | (fail) s' where "fu_v2_monotonic P s = (None, s')" "fu_inv s'" "gen_marks s' = gen_marks s"
      "EG_exception s' \<noteq> None"
proof (rule fu_greg_now_cases [OF assms, of P])
  fix g s1 assume r: "fu_greg_now P s = (Some g, s1)" "g < 2 ^ 59" "fu_inv s1" "gen_marks s1 = gen_marks s"
    "EG_exception s1 = EG_exception s"
  have l: "greg_last s1 = greg_last s" "v2_last s1 = v2_last s" using r(4) by (simp_all add: gen_marks_iff)
  have inv: "fu_inv (s1\<lparr>v2_last := x\<rparr>)" if "x < 2 ^ 28" for x using r(3) that by (simp add: fu_inv_def)
  have v28: "drop_bit 32 g < 2 ^ 28" by (rule drop_32_bound, rule order_less_trans [OF r(2)]) simp
  have last: "v2_last s < 2 ^ 28" using assms by (simp add: fu_inv_def)
  show ?thesis
  proof (cases "drop_bit 32 g \<le> v2_last s")
    case False
    then show ?thesis
      using r l inv [OF v28] v2_join [OF v28, of g]
      by (intro ok [of "push_bit 32 (drop_bit 32 g) OR (g AND 0xffffffff)" "s1\<lparr>v2_last := drop_bit 32 g\<rparr>"])
         (simp_all add: fu_v2_monotonic_def Let_def gen_marks_iff)
  next
    case le: True
    show ?thesis
    proof (cases "v2_last s = push_bit 28 1 - 1")
      case True
      with le r l show ?thesis
        by (intro fail [of "zend_throw UnsupportedOperationException ''v2 timestamp exhausted'' s1"])
           (simp_all add: fu_v2_monotonic_def Let_def)
    next
      case False
      have b: "v2_last s < v2_last s + 1" "v2_last s + 1 < 2 ^ 28"
        using bump_mark [OF last False] by simp_all
      with False le r l inv v2_join [OF b(2), of g] show ?thesis
        by (intro ok [of "push_bit 32 (v2_last s + 1) OR (g AND 0xffffffff)" "s1\<lparr>v2_last := v2_last s + 1\<rparr>"])
           (simp_all add: fu_v2_monotonic_def Let_def gen_marks_iff)
    qed
  qed
qed (rule fail, auto simp: fu_v2_monotonic_def)

interpretation greg: monotonic_clock fu_greg_monotonic "\<lambda>_. True" "\<lambda>g. g" "\<lambda>s. Some (greg_last s)"
proof unfold_locales
  fix s s' :: "'a st" and P and g assume inv: "fu_inv s"
  show "fu_inv (snd (fu_greg_monotonic P s))"
    by (rule fu_greg_monotonic_cases [OF inv, of P]) simp_all
  show "fu_greg_monotonic P s = (Some g, s') \<Longrightarrow> Some (greg_last s) < Some g \<and> Some (greg_last s') = Some g"
    by (rule fu_greg_monotonic_cases [OF inv, of P]) simp_all
  show "fu_greg_monotonic P s = (None, s') \<Longrightarrow> Some (greg_last s) \<le> Some (greg_last s') \<and> EG_exception s' \<noteq> None"
    by (rule fu_greg_monotonic_cases [OF inv, of P]) (simp_all add: gen_marks_iff)
qed

interpretation v2clock: monotonic_clock fu_v2_monotonic "\<lambda>_. True" "drop_bit 32" "\<lambda>s. Some (v2_last s)"
proof unfold_locales
  fix s s' :: "'a st" and P and g assume inv: "fu_inv s"
  show "fu_inv (snd (fu_v2_monotonic P s))"
    by (rule fu_v2_monotonic_cases [OF inv, of P]) simp_all
  show "fu_v2_monotonic P s = (Some g, s') \<Longrightarrow>
      Some (v2_last s) < Some (drop_bit 32 g) \<and> Some (v2_last s') = Some (drop_bit 32 g)"
    by (rule fu_v2_monotonic_cases [OF inv, of P]) simp_all
  show "fu_v2_monotonic P s = (None, s') \<Longrightarrow> Some (v2_last s) \<le> Some (v2_last s') \<and> EG_exception s' \<noteq> None"
    by (rule fu_v2_monotonic_cases [OF inv, of P]) (simp_all add: gen_marks_iff)
qed

text \<open>C25: a POSIX reading yields exactly \<open>tv_sec * 10^9 + tv_nsec\<close> and a Windows reading exactly 100 ns
  times the ticks since 1970; a reading before the epoch, or one whose nanoseconds do not fit 64
  bits, is refused; nothing ever wraps.\<close>

theorem clock_nanos_exact:
  assumes "0 \<le> nsec" and "nsec < 1000000000" and "sec < 2 ^ 63"
  shows "clock_nanos (Timespec sec nsec) =
      (if sec < 0 then Inl before_epoch
       else if 2 ^ 64 \<le> sec * 1000000000 + nsec then Inl clock_too_far
       else Inr (of_int (sec * 1000000000 + nsec))) \<and>
    clock_nanos (Filetime hi lo) =
      (let t = unat hi * 2 ^ 32 + unat lo
       in if t < 116444736000000000 then Inl before_epoch
          else if 2 ^ 64 \<le> (t - 116444736000000000) * 100 then Inl clock_too_far
          else Inr (of_nat ((t - 116444736000000000) * 100)))"
  using clock_nanos_timespec [OF assms] clock_nanos_filetime [of hi lo] by (simp add: Let_def)

theorem clock_nanos_exact_witness:
  "clock_nanos (Timespec 1700000000 123456789) = Inr 1700000000123456789 \<and>
   clock_nanos (Timespec 18446744074 0) = Inl clock_too_far"
  using clock_nanos_exact [of 123456789 1700000000] clock_nanos_exact [of 0 18446744074] by simp

end
