(* ===== verification/Fu_Hex.thy ===== *)
theory Fu_Hex
  imports Fu_Prelude
begin

section \<open>Hex tables and the canonical form\<close>

text \<open>
  The lookup tables \<open>fu_lut\<close> and \<open>fu_nib_lut\<close> that module start-up fills, the three
  implementations of \<open>fu_hex32\<close> (scalar table, SSSE3, NEON) and \<open>fu_format36\<close>.
  A 128-bit vector register is the list of its 16 bytes in memory order; the vector intrinsics
  the two SIMD bodies use are written out lane by lane.  The out buffers are the results.
\<close>

subsection \<open>Lookup tables, filled by the loops of module start-up\<close>

definition fu_hexd :: "byte list" where
  "fu_hexd = lit ''0123456789abcdef''"

text \<open>First loop: both halves of \<open>fu_lut\<close> and a \<open>-1\<close> in every entry of the nibble table.
  Statics start zeroed.\<close>

definition fu_lut_fill :: "byte list \<times> int list" where
  "fu_lut_fill =
     foldl (\<lambda>(lut, nib) i.
              (lut[i * 2 := fu_hexd ! (drop_bit 4 i), i * 2 + 1 := fu_hexd ! (i AND 15)],
               nib[i := - 1]))
           (replicate 512 0, replicate 256 0) [0..<256]"

definition fu_lut :: "byte list" where
  "fu_lut = fst fu_lut_fill"

text \<open>Second and third loop: the decimal digits, then both cases of the letters.\<close>

definition fu_nib_lut :: "int list" where
  "fu_nib_lut =
     (let nib = snd fu_lut_fill;
          nib = foldl (\<lambda>t i. t[48 + i := int i]) nib [0..<10]
      in foldl (\<lambda>t i. t[97 + i := 10 + int i, 65 + i := 10 + int i]) nib [0..<6])"

text \<open>What the tables hold.\<close>

definition nibble_of :: "nat \<Rightarrow> int" where
  "nibble_of c =
     (if 48 \<le> c \<and> c < 58 then int c - 48
      else if 97 \<le> c \<and> c < 103 then int c - 87
      else if 65 \<le> c \<and> c < 71 then int c - 55 else - 1)"

lemma length_fu_hexd [simp, fu_len]: "length fu_hexd = 16"
  by (simp add: fu_hexd_def)

lemma foldl_lut_nth:
  fixes f g :: "nat \<Rightarrow> 'a"
  assumes "k < n" and "2 * n \<le> length xs"
  shows "foldl (\<lambda>t i. t[i * 2 := f i, Suc (i * 2) := g i]) xs [0..<n] ! (k * 2) = f k
       \<and> foldl (\<lambda>t i. t[i * 2 := f i, Suc (i * 2) := g i]) xs [0..<n] ! (k * 2 + 1) = g k"
  using assms
proof (induction n)
  case 0
  then show ?case by simp
next
  case (Suc n)
  have len: "length (foldl (\<lambda>t i. t[i * 2 := f i, Suc (i * 2) := g i]) xs js) = length xs" for js
    by (induction js rule: rev_induct) simp_all
  show ?case
  proof (cases "k = n")
    case True
    with Suc.prems show ?thesis by (simp add: len nth_list_update)
  next
    case False
    then have "k * 2 \<noteq> n * 2" "k * 2 \<noteq> n * 2 + 1" "k * 2 + 1 \<noteq> n * 2" "k * 2 + 1 \<noteq> n * 2 + 1"
      by presburger+
    with Suc False show ?thesis by (simp add: nth_list_update)
  qed
qed

lemma fu_lut_fill_eq:
  "fu_lut_fill =
     (foldl (\<lambda>t i. t[i * 2 := fu_hexd ! (i div 16), Suc (i * 2) := fu_hexd ! (i mod 16)])
        (replicate 512 0) [0..<256],
      foldl (\<lambda>t i. t[i := - 1]) (replicate 256 0) [0..<256])"
proof -
  have "i AND 15 = i mod 16" for i :: nat
    using take_bit_eq_mask [of 4 i] by (simp add: take_bit_eq_mod mask_eq_exp_minus_1)
  then show ?thesis
    by (simp add: fu_lut_fill_def drop_bit_eq_div foldl_pair)
qed

lemma fu_lut_nth:
  assumes "k < 256"
  shows "fu_lut ! (k * 2) = fu_hexd ! (k div 16)"
    and "fu_lut ! (k * 2 + 1) = fu_hexd ! (k mod 16)"
  using foldl_lut_nth [OF assms, of "replicate 512 0" "\<lambda>i. fu_hexd ! (i div 16)"
      "\<lambda>i. fu_hexd ! (i mod 16)"]
  by (simp_all add: fu_lut_def fu_lut_fill_eq)

lemma foldl_fill2_nth:
  "i < length xs \<Longrightarrow> a + n \<le> b \<Longrightarrow>
   foldl (\<lambda>t j. t[b + j := f j, a + j := f j]) xs [0..<n] ! i
     = (if b \<le> i \<and> i < b + n then f (i - b)
        else if a \<le> i \<and> i < a + n then f (i - a) else xs ! i)"
proof (induction n)
  case 0
  then show ?case by auto
next
  case (Suc n)
  have "length (foldl (\<lambda>t j. t[b + j := f j, a + j := f j]) xs js) = length xs" for js
    by (induction js rule: rev_induct) simp_all
  with Suc show ?case by (cases "i = a + n"; cases "i = b + n") auto
qed

lemma fu_nib_lut_nth: "c < 256 \<Longrightarrow> fu_nib_lut ! c = nibble_of c"
  unfolding fu_nib_lut_def Let_def fu_lut_fill_eq snd_conv
  by (subst foldl_fill2_nth)
     (auto simp: foldl_fill_nth foldl_fill0_nth nibble_of_def)


subsection \<open>The three formatters\<close>

definition fu_hex32_scalar :: "byte list \<Rightarrow> byte list" where
  "fu_hex32_scalar b =
     concat (map (\<lambda>i. [fu_lut ! (unat (b ! i) * 2), fu_lut ! (unat (b ! i) * 2 + 1)]) [0..<16])"

text \<open>Vector operations, on the list of bytes of a register: a 16-bit lane is two
  consecutive bytes, the low one first.\<close>

fun mm_srli_epi16 :: "byte list \<Rightarrow> nat \<Rightarrow> byte list" where
  "mm_srli_epi16 (lo # hi # v) n =
     (let w = drop_bit n (word_cat hi lo :: u16)
      in ucast w # ucast (drop_bit 8 w) # mm_srli_epi16 v n)"
| "mm_srli_epi16 v n = v"

definition mm_and_si128 :: "byte list \<Rightarrow> byte list \<Rightarrow> byte list" where
  "mm_and_si128 v w = map2 (AND) v w"

definition mm_shuffle_epi8 :: "byte list \<Rightarrow> byte list \<Rightarrow> byte list" where
  "mm_shuffle_epi8 t idx = map (\<lambda>x. if bit x 7 then 0 else t ! unat (x AND 15)) idx"

fun interleave :: "'a list \<Rightarrow> 'a list \<Rightarrow> 'a list" where
  "interleave (x # xs) (y # ys) = x # y # interleave xs ys"
| "interleave _ _ = []"

definition mm_unpacklo_epi8 :: "byte list \<Rightarrow> byte list \<Rightarrow> byte list" where
  "mm_unpacklo_epi8 v w = interleave (take 8 v) (take 8 w)"

definition mm_unpackhi_epi8 :: "byte list \<Rightarrow> byte list \<Rightarrow> byte list" where
  "mm_unpackhi_epi8 v w = interleave (drop 8 v) (drop 8 w)"

definition fu_hex32_ssse3 :: "byte list \<Rightarrow> byte list" where
  "fu_hex32_ssse3 b =
     (let v = b;
          msk = replicate 16 0x0f;
          lut = lit ''0123456789abcdef'';
          hi = mm_and_si128 (mm_srli_epi16 v 4) msk;
          lo = mm_and_si128 v msk;
          hh = mm_shuffle_epi8 lut hi;
          lh = mm_shuffle_epi8 lut lo
      in mm_unpacklo_epi8 hh lh @ mm_unpackhi_epi8 hh lh)"

definition vshrq_n_u8 :: "byte list \<Rightarrow> nat \<Rightarrow> byte list" where
  "vshrq_n_u8 v n = map (drop_bit n) v"

definition vandq_u8 :: "byte list \<Rightarrow> byte list \<Rightarrow> byte list" where
  "vandq_u8 v w = map2 (AND) v w"

definition vqtbl1q_u8 :: "byte list \<Rightarrow> byte list \<Rightarrow> byte list" where
  "vqtbl1q_u8 t idx = map (\<lambda>x. if unat x < 16 then t ! unat x else 0) idx"

definition vzipq_u8 :: "byte list \<Rightarrow> byte list \<Rightarrow> byte list \<times> byte list" where
  "vzipq_u8 v w = (interleave (take 8 v) (take 8 w), interleave (drop 8 v) (drop 8 w))"

definition fu_hex32_neon :: "byte list \<Rightarrow> byte list" where
  "fu_hex32_neon b =
     (let v = b;
          msk = replicate 16 0x0f;
          lut = fu_hexd;
          hi = vshrq_n_u8 v 4;
          lo = vandq_u8 v msk;
          hh = vqtbl1q_u8 lut hi;
          lh = vqtbl1q_u8 lut lo;
          z = vzipq_u8 hh lh
      in fst z @ snd z)"

text \<open>The dispatch: the backend the build and the CPU probe select.  \<open>has_ssse3\<close> is the
  static \<open>fu_has_ssse3\<close>; an AArch64 build always takes the NEON path.\<close>

datatype fu_simd = FU_X86 bool | FU_AARCH64 | FU_NO_SIMD

fun fu_hex32 :: "fu_simd \<Rightarrow> byte list \<Rightarrow> byte list" where
  "fu_hex32 (FU_X86 has_ssse3) b = (if has_ssse3 then fu_hex32_ssse3 b else fu_hex32_scalar b)"
| "fu_hex32 FU_AARCH64 b = fu_hex32_neon b"
| "fu_hex32 FU_NO_SIMD b = fu_hex32_scalar b"

subsection \<open>Reference form and agreement of the formatters\<close>

definition hex_pair :: "byte \<Rightarrow> byte list" where
  "hex_pair x = [fu_hexd ! (unat x div 16), fu_hexd ! (unat x mod 16)]"

definition hex_spec :: "byte list \<Rightarrow> byte list" where
  "hex_spec b = concat (map hex_pair b)"

lemma length_hex_spec [simp, fu_len]: "length (hex_spec b) = 2 * length b"
  by (induction b) (simp_all add: hex_spec_def hex_pair_def)

lemma map_index: "map f xs = map (\<lambda>i. f (xs ! i)) [0..<length xs]"
proof -
  have "map f xs = map f (map (nth xs) [0..<length xs])" by (simp only: map_nth)
  then show ?thesis by (simp only: map_map o_def)
qed

lemma fu_hex32_scalar_spec: "length b = 16 \<Longrightarrow> fu_hex32_scalar b = hex_spec b"
  unfolding fu_hex32_scalar_def hex_spec_def fu_lut_nth [OF unat_byte_less] hex_pair_def
  by (subst map_index) simp

lemma byte_and_15: "x AND 15 = (take_bit 4 x :: byte)"
  by (simp add: take_bit_eq_mask mask_eq_exp_minus_1)

lemma srli_nibble_lo: "ucast (drop_bit 4 (word_cat (hi :: byte) (lo :: byte) :: u16)) AND (15 :: byte) = drop_bit 4 lo"
  by (rule bit_word_eqI) (auto simp: byte_and_15 bit_simps dest: bit_imp_le_length)

lemma srli_nibble_hi:
  "ucast (drop_bit 8 (drop_bit 4 (word_cat (hi :: byte) (lo :: byte) :: u16))) AND (15 :: byte) = drop_bit 4 hi"
  by (rule bit_word_eqI) (auto simp: byte_and_15 bit_simps dest: bit_imp_le_length)

lemma mm_srli_epi16_nibbles:
  "even (length v) \<Longrightarrow>
   mm_and_si128 (mm_srli_epi16 v 4) (replicate (length v) 15) = map (drop_bit 4) v"
  by (induction v "4::nat" rule: mm_srli_epi16.induct)
     (simp_all add: mm_and_si128_def srli_nibble_lo srli_nibble_hi [simplified] Let_def)

lemma map2_and_15: "map2 (AND) v (replicate (length v) 15) = map (\<lambda>x. x AND 15) v"
  for v :: "byte list"
  by (induction v) simp_all

lemma nibble_hi_unat: "unat (drop_bit 4 (x :: byte)) = unat x div 16"
  by (simp add: unat_drop_bit)

lemma nibble_lo_unat: "unat ((x :: byte) AND 15) = unat x mod 16"
  by (simp only: byte_and_15 unsigned_take_bit_eq) (simp add: take_bit_eq_mod)

lemma nibble_no_bit7: "\<not> bit (drop_bit 4 (x :: byte)) 7" "\<not> bit ((x :: byte) AND 15) 7"
  by (auto simp: byte_and_15 bit_simps dest: bit_imp_le_length)

lemma nibble_idem: "drop_bit 4 (x :: byte) AND 15 = drop_bit 4 x" "(x :: byte) AND 15 AND 15 = x AND 15"
  by (rule bit_word_eqI; auto simp: byte_and_15 bit_simps dest: bit_imp_le_length)+

lemma interleave_map: "interleave (map f v) (map g v) = concat (map (\<lambda>x. [f x, g x]) v)"
  by (induction v) simp_all

lemma interleave_halves:
  "length v = 16 \<Longrightarrow>
   interleave (take 8 (map f v)) (take 8 (map g v)) @ interleave (drop 8 (map f v)) (drop 8 (map g v))
     = concat (map (\<lambda>x. [f x, g x]) v)"
  by (simp only: take_map drop_map interleave_map concat_append [symmetric] map_append [symmetric]
      append_take_drop_id)

lemma fu_hex32_ssse3_spec:
  assumes len: "length b = 16"
  shows "fu_hex32_ssse3 b = hex_spec b"
proof -
  have hi: "mm_and_si128 (mm_srli_epi16 b 4) (replicate 16 15) = map (drop_bit 4) b"
    and lo: "mm_and_si128 b (replicate 16 15) = map (\<lambda>x. x AND 15) b"
    using mm_srli_epi16_nibbles [of b] map2_and_15 [of b] len by (simp_all add: mm_and_si128_def)
  show ?thesis
    unfolding fu_hex32_ssse3_def Let_def hi lo mm_shuffle_epi8_def mm_unpacklo_epi8_def
      mm_unpackhi_epi8_def map_map o_def hex_spec_def hex_pair_def
    by (simp add: nibble_no_bit7 nibble_idem nibble_hi_unat nibble_lo_unat fu_hexd_def
        interleave_halves len)
qed

lemma fu_hex32_neon_spec:
  assumes len: "length b = 16"
  shows "fu_hex32_neon b = hex_spec b"
proof -
  have lo: "vandq_u8 b (replicate 16 15) = map (\<lambda>x. x AND 15) b"
    using map2_and_15 [of b] len by (simp add: vandq_u8_def)
  have small: "unat x div 16 < 16" for x :: byte
    by (rule less_mult_imp_div_less) simp
  show ?thesis
    unfolding fu_hex32_neon_def Let_def lo vqtbl1q_u8_def vzipq_u8_def vshrq_n_u8_def
      map_map o_def hex_spec_def hex_pair_def
    by (simp add: nibble_hi_unat nibble_lo_unat small interleave_halves len)
qed

lemma fu_hex32_spec: "length b = 16 \<Longrightarrow> fu_hex32 h b = hex_spec b"
  by (cases h) (simp_all add: fu_hex32_scalar_spec fu_hex32_ssse3_spec fu_hex32_neon_spec)


subsection \<open>The canonical 8-4-4-4-12 form\<close>

text \<open>\<open>fu_format36\<close> with the formatter it calls as a parameter, and with the dispatching one.\<close>

definition fu_format36_with :: "(byte list \<Rightarrow> byte list) \<Rightarrow> byte list \<Rightarrow> byte list" where
  "fu_format36_with hex32 b =
     (let h = hex32 b
      in take 8 h @ lit ''-'' @ take 4 (drop 8 h) @ lit ''-'' @ take 4 (drop 12 h) @ lit ''-'' @
         take 4 (drop 16 h) @ lit ''-'' @ take 12 (drop 20 h))"

definition fu_format36 :: "fu_simd \<Rightarrow> byte list \<Rightarrow> byte list" where
  "fu_format36 h b = fu_format36_with (fu_hex32 h) b"

text \<open>The contract every formatter keeps, and what the callers of \<open>fu_hex32\<close> get from it.\<close>

locale hex_formatter =
  fixes hex32 :: "byte list \<Rightarrow> byte list"
  assumes hex32_spec: "length b = 16 \<Longrightarrow> hex32 b = hex_spec b"
begin

lemma length_hex32: "length b = 16 \<Longrightarrow> length (hex32 b) = 32"
  by (simp add: hex32_spec)

lemma length_format36: "length b = 16 \<Longrightarrow> length (fu_format36_with hex32 b) = 36"
  by (simp add: fu_format36_with_def Let_def hex32_spec)

lemma format36_agrees:
  "hex_formatter hx \<Longrightarrow> length b = 16 \<Longrightarrow> fu_format36_with hx b = fu_format36_with hex32 b"
  by (simp add: fu_format36_with_def hex32_spec hex_formatter.hex32_spec)

end

interpretation scalar: hex_formatter fu_hex32_scalar
  by unfold_locales (rule fu_hex32_scalar_spec)

interpretation ssse3: hex_formatter fu_hex32_ssse3
  by unfold_locales (rule fu_hex32_ssse3_spec)

interpretation neon: hex_formatter fu_hex32_neon
  by unfold_locales (rule fu_hex32_neon_spec)

interpretation hex32: hex_formatter "fu_hex32 h" for h
  by unfold_locales (rule fu_hex32_spec)

lemma length_fu_format36 [fu_len]: "length b = 16 \<Longrightarrow> length (fu_format36 h b) = 36"
  unfolding fu_format36_def by (rule hex32.length_format36)

text \<open>The reference for the canonical form: the hex digits of 4, 2, 2, 2 and 6 bytes, joined by dashes.\<close>

definition canonical_text :: "byte list \<Rightarrow> byte list" where
  "canonical_text b =
     hex_spec (take 4 b) @ lit ''-'' @ hex_spec (take 2 (drop 4 b)) @ lit ''-'' @ hex_spec (take 2 (drop 6 b)) @ lit ''-'' @
     hex_spec (take 2 (drop 8 b)) @ lit ''-'' @ hex_spec (drop 10 b)"

lemma hex_spec_append: "hex_spec (xs @ ys) = hex_spec xs @ hex_spec ys"
  by (simp add: hex_spec_def)

lemma drop_hex_spec: "n \<le> length b \<Longrightarrow> drop (2 * n) (hex_spec b) = hex_spec (drop n b)"
  using hex_spec_append [of "take n b" "drop n b"] by simp

lemma take_hex_spec: "n \<le> length b \<Longrightarrow> take (2 * n) (hex_spec b) = hex_spec (take n b)"
  using hex_spec_append [of "take n b" "drop n b"] by simp

lemma slice_hex_spec: "m + n \<le> length b \<Longrightarrow> take (2 * n) (drop (2 * m) (hex_spec b)) = hex_spec (take n (drop m b))"
  by (simp add: drop_hex_spec take_hex_spec)

lemma fu_format36_canonical:
  assumes "length b = 16"
  shows "fu_format36 h b = canonical_text b"
  using assms slice_hex_spec [of 0 4 b] slice_hex_spec [of 4 2 b] slice_hex_spec [of 6 2 b] slice_hex_spec [of 8 2 b]
    slice_hex_spec [of 10 6 b]
  by (simp add: fu_format36_def fu_format36_with_def Let_def fu_hex32_spec canonical_text_def)

lemma upt_0_16: "[0..<16] = [0, 1, 2, 3, 4, 5, 6, 7, 8, 9, 10, 11, 12, 13, 14, 15 :: nat]"
  by code_simp

lemma list_16:
  assumes "length b = 16"
  shows "b = [b ! 0, b ! 1, b ! 2, b ! 3, b ! 4, b ! 5, b ! 6, b ! 7,
    b ! 8, b ! 9, b ! 10, b ! 11, b ! 12, b ! 13, b ! 14, b ! 15]"
  using map_nth [of b, symmetric] unfolding assms upt_0_16 by simp

definition hex_hi :: "byte \<Rightarrow> byte" where
  "hex_hi x = fu_hexd ! (unat x div 16)"

definition hex_lo :: "byte \<Rightarrow> byte" where
  "hex_lo x = fu_hexd ! (unat x mod 16)"

lemma hex_pair_eq: "hex_pair x = [hex_hi x, hex_lo x]"
  by (simp add: hex_pair_def hex_hi_def hex_lo_def)

text \<open>The 36 characters written out.\<close>

lemma fu_format36_chars:
  assumes "length b = 16"
  shows "fu_format36 h b =
    [hex_hi (b!0), hex_lo (b!0), hex_hi (b!1), hex_lo (b!1), hex_hi (b!2), hex_lo (b!2),
     hex_hi (b!3), hex_lo (b!3), 45, hex_hi (b!4), hex_lo (b!4), hex_hi (b!5), hex_lo (b!5), 45,
     hex_hi (b!6), hex_lo (b!6), hex_hi (b!7), hex_lo (b!7), 45,
     hex_hi (b!8), hex_lo (b!8), hex_hi (b!9), hex_lo (b!9), 45,
     hex_hi (b!10), hex_lo (b!10), hex_hi (b!11), hex_lo (b!11), hex_hi (b!12), hex_lo (b!12),
     hex_hi (b!13), hex_lo (b!13), hex_hi (b!14), hex_lo (b!14), hex_hi (b!15), hex_lo (b!15)]"
proof -
  have "hex_spec b = hex_spec [b ! 0, b ! 1, b ! 2, b ! 3, b ! 4, b ! 5, b ! 6, b ! 7,
    b ! 8, b ! 9, b ! 10, b ! 11, b ! 12, b ! 13, b ! 14, b ! 15]"
    using list_16 [OF assms] by simp
  then show ?thesis
    by (simp add: fu_format36_def fu_format36_with_def fu_hex32_spec [OF assms] hex_spec_def
        hex_pair_eq lit_def)
qed


subsection \<open>Text order is byte order\<close>

lemma unat_fu_hexd: "v < 16 \<Longrightarrow> unat (fu_hexd ! v) = (if v < 10 then 48 + v else 87 + v)"
proof -
  assume "v < 16"
  then have "v \<in> set [0..<16]" by simp
  then show ?thesis unfolding upt_0_16 by (auto simp: fu_hexd_def lit_def)
qed

lemma fu_hexd_less_iff: "i < 16 \<Longrightarrow> j < 16 \<Longrightarrow> fu_hexd ! i < fu_hexd ! j \<longleftrightarrow> i < j"
  by (simp add: word_less_nat_alt unat_fu_hexd)

lemma byte_div_16 [simp]: "unat (x :: byte) div 16 < 16"
  by (rule less_mult_imp_div_less) simp

lemma hex_hi_less_iff: "hex_hi x < hex_hi y \<longleftrightarrow> unat x div 16 < unat y div 16"
  by (simp add: hex_hi_def fu_hexd_less_iff)

lemma hex_lo_less_iff: "hex_lo x < hex_lo y \<longleftrightarrow> unat x mod 16 < unat y mod 16"
  by (simp add: hex_lo_def fu_hexd_less_iff)

lemma memcmp_hex_pair:
  "memcmp (hex_hi x # hex_lo x # xs) (hex_hi y # hex_lo y # ys)
     = (if x < y then - 1 else if y < x then 1 else memcmp xs ys)"
proof -
  have "x < y \<longleftrightarrow> unat x div 16 < unat y div 16 \<or>
          unat x div 16 = unat y div 16 \<and> unat x mod 16 < unat y mod 16" for x y :: byte
    unfolding word_less_nat_alt by (rule nat_less_div_mod)
  then have less: "x < y \<longleftrightarrow> hex_hi x < hex_hi y \<or> \<not> hex_hi y < hex_hi x \<and> hex_lo x < hex_lo y" for x y
    unfolding hex_hi_less_iff hex_lo_less_iff by auto
  show ?thesis
    using less [of x y] less [of y x] unfolding memcmp.simps(1) by auto
qed

lemma fu_format36_memcmp:
  assumes "length a = 16" and "length b = 16"
  shows "memcmp (fu_format36 h a) (fu_format36 h b) = memcmp a b"
proof -
  have dash: "memcmp (45 # xs) (45 # ys) = memcmp xs ys" for xs ys by simp
  have chars: "memcmp (fu_format36 h a) (fu_format36 h b) = memcmp
      [a ! 0, a ! 1, a ! 2, a ! 3, a ! 4, a ! 5, a ! 6, a ! 7,
       a ! 8, a ! 9, a ! 10, a ! 11, a ! 12, a ! 13, a ! 14, a ! 15]
      [b ! 0, b ! 1, b ! 2, b ! 3, b ! 4, b ! 5, b ! 6, b ! 7,
       b ! 8, b ! 9, b ! 10, b ! 11, b ! 12, b ! 13, b ! 14, b ! 15]"
    unfolding fu_format36_chars [OF assms(1)] fu_format36_chars [OF assms(2)]
      memcmp_hex_pair dash
    unfolding memcmp.simps(1) by (rule refl)
  show ?thesis
    unfolding chars by (rule arg_cong2 [OF list_16 [OF assms(1)] list_16 [OF assms(2)], symmetric])
qed

end
