(* ===== verification/Fu_Layout.thy ===== *)
theory Fu_Layout
  imports Fu_Clock Fu_Hex
begin

section \<open>Field layouts\<close>

text \<open>
  How each version places its fields in the 16 bytes (\<open>fu_set_ver_var\<close>, \<open>fu_lay_clockseq_node\<close>,
  \<open>fu_lay_v1\<close>, \<open>fu_lay_v6\<close>, \<open>fu_lay_v7\<close>) and how they are read back (\<open>fu_decode_time\<close>, and the
  bodies of \<open>getVersion\<close>, \<open>getVariant\<close> and \<open>getFields\<close>).  The lemmas give the number a laid-out UUID denotes, from
  which order and round trips follow.
\<close>

subsection \<open>Writing\<close>

definition fu_set_ver_var :: "byte list \<Rightarrow> byte \<Rightarrow> byte list" where
  "fu_set_ver_var b ver_hi =
     (let b = b[6 := (b ! 6 AND 0x0f) OR ver_hi] in b[8 := (b ! 8 AND 0x3f) OR 0x80])"

definition clockseq_of :: "byte \<Rightarrow> byte \<Rightarrow> int" where
  "clockseq_of hi lo = (push_bit 8 (uint hi) OR uint lo) AND 0x3fff"

definition set_multicast :: "byte list \<Rightarrow> byte list" where
  "set_multicast node = node[0 := node ! 0 OR 0x01]"

definition put_clockseq_node :: "byte list \<Rightarrow> int \<Rightarrow> byte list" where
  "put_clockseq_node node clockseq =
     [of_int ((drop_bit 8 clockseq AND 0x3f) OR 0x80), of_int (clockseq AND 0xff)] @ node"

text \<open>Bytes 8 to 15.  \<open>node = None\<close> is the C \<open>NULL\<close>, \<open>clockseq < 0\<close> asks for a random one; the
  three draws of the C code are kept apart.\<close>

definition fu_lay_clockseq_node :: "'w platform \<Rightarrow> byte list option \<Rightarrow> int \<Rightarrow> 'w st \<Rightarrow> byte list option \<times> 'w st" where
  "fu_lay_clockseq_node P node clockseq s =
     (if clockseq < 0 \<and> node = None then
        (case fu_rand_n P 8 s of
           (FAILURE, r, s) \<Rightarrow> (None, s)
         | (SUCCESS, r, s) \<Rightarrow>
             (Some (put_clockseq_node (set_multicast (take 6 r)) (clockseq_of (r ! 6) (r ! 7))), s))
      else
        (case (if clockseq < 0 then
                 (case fu_rand_n P 2 s of
                    (FAILURE, rc, s) \<Rightarrow> (None, s)
                  | (SUCCESS, rc, s) \<Rightarrow> (Some (clockseq_of (rc ! 0) (rc ! 1)), s))
               else (Some clockseq, s)) of
           (None, s) \<Rightarrow> (None, s)
         | (Some clockseq, s) \<Rightarrow>
             (case node of
                Some n \<Rightarrow> (Some (put_clockseq_node n clockseq), s)
              | None \<Rightarrow>
                  (case fu_rand_n P 6 s of
                     (FAILURE, rnode, s) \<Rightarrow> (None, s)
                   | (SUCCESS, rnode, s) \<Rightarrow> (Some (put_clockseq_node (set_multicast rnode) clockseq), s)))))"

definition v1_head :: "u64 \<Rightarrow> byte list" where
  "v1_head g =
     (let tl = ucast (g AND 0xffffffff) :: u32;
          tm = ucast (drop_bit 32 g AND 0xffff) :: u16;
          th = ucast (drop_bit 48 g AND 0x0fff) OR 0x1000 :: u16
      in [ucast (drop_bit 24 tl), ucast (drop_bit 16 tl), ucast (drop_bit 8 tl), ucast tl,
          ucast (drop_bit 8 tm), ucast tm,
          ucast (drop_bit 8 th), ucast th])"

definition fu_lay_v1 :: "'w platform \<Rightarrow> u64 \<Rightarrow> byte list option \<Rightarrow> int \<Rightarrow> 'w st \<Rightarrow> byte list option \<times> 'w st" where
  "fu_lay_v1 P g node clockseq s =
     (case fu_lay_clockseq_node P node clockseq s of
        (None, s) \<Rightarrow> (None, s)
      | (Some rest, s) \<Rightarrow> (Some (v1_head g @ rest), s))"

definition v6_head :: "u64 \<Rightarrow> byte list" where
  "v6_head g =
     (let t60 = g AND (push_bit 60 1 - 1)
      in [ucast (drop_bit 52 t60 AND 0xff), ucast (drop_bit 44 t60 AND 0xff),
          ucast (drop_bit 36 t60 AND 0xff), ucast (drop_bit 28 t60 AND 0xff),
          ucast (drop_bit 20 t60 AND 0xff), ucast (drop_bit 12 t60 AND 0xff),
          ucast (0x60 OR (drop_bit 8 t60 AND 0x0f)), ucast (t60 AND 0xff)])"

definition fu_lay_v6 :: "'w platform \<Rightarrow> u64 \<Rightarrow> byte list option \<Rightarrow> int \<Rightarrow> 'w st \<Rightarrow> byte list option \<times> 'w st" where
  "fu_lay_v6 P g node clockseq s =
     (case fu_lay_clockseq_node P node clockseq s of
        (None, s) \<Rightarrow> (None, s)
      | (Some rest, s) \<Rightarrow> (Some (v6_head g @ rest), s))"

definition fu_lay_v7 :: "u64 \<Rightarrow> u64 \<Rightarrow> u64 \<Rightarrow> byte list" where
  "fu_lay_v7 ms sub randb =
     [ucast (drop_bit 40 ms AND 0xff), ucast (drop_bit 32 ms AND 0xff), ucast (drop_bit 24 ms AND 0xff),
      ucast (drop_bit 16 ms AND 0xff), ucast (drop_bit 8 ms AND 0xff), ucast (ms AND 0xff),
      ucast (0x70 OR (drop_bit 8 sub AND 0x0f)),
      ucast (sub AND 0xff),
      ucast (0x80 OR (drop_bit 56 randb AND 0x3f)),
      ucast (drop_bit 48 randb AND 0xff), ucast (drop_bit 40 randb AND 0xff), ucast (drop_bit 32 randb AND 0xff),
      ucast (drop_bit 24 randb AND 0xff), ucast (drop_bit 16 randb AND 0xff), ucast (drop_bit 8 randb AND 0xff),
      ucast (randb AND 0xff)]"

subsection \<open>Reading\<close>

definition getVersion :: "byte list \<Rightarrow> int option" where
  "getVersion b =
     (let allz = list_all (\<lambda>x. x = 0) b; allf = list_all (\<lambda>x. x = 0xff) b
      in if allz \<or> allf then None
         else if b ! 8 AND 0xC0 \<noteq> 0x80 then None
         else Some (uint (drop_bit 4 (b ! 6) AND 0x0f)))"

definition getVariant :: "byte list \<Rightarrow> int" where
  "getVariant b =
     (let o8 = b ! 8
      in if o8 AND 0x80 = 0x00 then 0
         else if o8 AND 0xC0 = 0x80 then 2
         else if o8 AND 0xE0 = 0xC0 then 6
         else 7)"

text \<open>Seconds and microseconds, or \<open>None\<close> for a return value of 0.\<close>

definition fu_decode_time :: "byte list \<Rightarrow> (int \<times> u32) option" where
  "fu_decode_time b =
     (if b ! 8 AND 0xC0 \<noteq> 0x80 then None else
      let ver = drop_bit 4 (b ! 6) AND 0x0f
      in if ver = 1 \<or> ver = 2 \<or> ver = 6 then
           (let t60 =
              (if ver = 6 then
                 push_bit 52 (ucast (b ! 0)) OR push_bit 44 (ucast (b ! 1)) OR push_bit 36 (ucast (b ! 2)) OR
                 push_bit 28 (ucast (b ! 3)) OR push_bit 20 (ucast (b ! 4)) OR push_bit 12 (ucast (b ! 5)) OR
                 push_bit 8 (ucast (b ! 6 AND 0x0f)) OR ucast (b ! 7)
               else
                 (let th = push_bit 8 (ucast (b ! 6 AND 0x0f)) OR ucast (b ! 7);
                      tm = push_bit 8 (ucast (b ! 4)) OR ucast (b ! 5);
                      tl = (if ver = 2 then 0
                            else push_bit 24 (ucast (b ! 0)) OR push_bit 16 (ucast (b ! 1)) OR
                                 push_bit 8 (ucast (b ! 2)) OR ucast (b ! 3))
                  in push_bit 48 th OR push_bit 32 tm OR tl)) :: u64;
              s = uint (t60 div 10000000) - uint (FU_GREG_UNIX_EPOCH div 10000000);
              frac = t60 mod 10000000
            in Some (s, ucast (frac div 10)))
         else if ver = 7 then
           (let ms = push_bit 40 (ucast (b ! 0)) OR push_bit 32 (ucast (b ! 1)) OR push_bit 24 (ucast (b ! 2)) OR
                     push_bit 16 (ucast (b ! 3)) OR push_bit 8 (ucast (b ! 4)) OR ucast (b ! 5) :: u64
            in Some (uint (ms div 1000), ucast (ms mod 1000 * 1000)))
         else None)"

text \<open>The hex array of \<open>getFields\<close>, in insertion order.\<close>

definition getFields :: "fu_simd \<Rightarrow> byte list \<Rightarrow> (string \<times> byte list) list" where
  "getFields h b =
     (let hx = fu_hex32 h b
      in [(''time_low'', take 8 hx),
          (''time_mid'', take 4 (drop 8 hx)),
          (''time_hi_and_version'', take 4 (drop 12 hx)),
          (''clock_seq_hi_and_reserved'', take 2 (drop 16 hx)),
          (''clock_seq_low'', take 2 (drop 18 hx)),
          (''node'', take 12 (drop 20 hx))])"

subsection \<open>Bytes of a field\<close>

lemma ucast_and_ff [simp]: "(ucast ((w :: 'a::len word) AND 0xff) :: byte) = ucast w"
proof -
  have "(0xff :: 'a word) = mask 8" by (simp add: mask_eq_exp_minus_1)
  then have "w AND 0xff = take_bit 8 w" by (simp only: take_bit_eq_mask)
  then show ?thesis
    by (intro bit_word_eqI) (auto simp: bit_simps dest: bit_imp_le_length)
qed

lemma be_store_2: "be_store 2 w = [ucast (drop_bit 8 w), ucast w]"
  and be_store_4: "be_store 4 w = [ucast (drop_bit 24 w), ucast (drop_bit 16 w), ucast (drop_bit 8 w), ucast w]"
  and be_store_6: "be_store 6 w = [ucast (drop_bit 40 w), ucast (drop_bit 32 w), ucast (drop_bit 24 w),
    ucast (drop_bit 16 w), ucast (drop_bit 8 w), ucast w]"
  and be_store_7: "be_store 7 w = [ucast (drop_bit 48 w), ucast (drop_bit 40 w), ucast (drop_bit 32 w),
    ucast (drop_bit 24 w), ucast (drop_bit 16 w), ucast (drop_bit 8 w), ucast w]"
  by (simp_all add: be_store_Suc numeral_2_eq_2 numeral_eq_Suc)

text \<open>Masks and their numbers.\<close>

lemma and_mask_eq:
  "w AND 0x0f = take_bit 4 (w :: 'a::len word)" "w AND 0x3f = take_bit 6 w" "w AND 0xff = take_bit 8 w"
  "w AND 0x0fff = take_bit 12 w" "w AND 0xffff = take_bit 16 w" "w AND 0xffffffff = take_bit 32 w"
  by (simp_all add: take_bit_eq_mask mask_eq_exp_minus_1)

lemma unat_and_mask [fu_unat]:
  "unat (w AND 0x0f) = unat (w :: 'a::len word) mod 16" "unat (w AND 0x3f) = unat w mod 64"
  "unat (w AND 0xff) = unat w mod 256" "unat (w AND 0x0fff) = unat w mod 4096"
  "unat (w AND 0xffff) = unat w mod 65536" "unat (w AND 0xffffffff) = unat w mod 4294967296"
  unfolding and_mask_eq unsigned_take_bit_eq by (simp_all add: take_bit_eq_mod)

lemma nibble_or [fu_unat]:
  "unat (ucast (0x10 OR ((w :: u64) AND 0x0f)) :: byte) = 0x10 + unat w mod 16"
  "unat (ucast (0x60 OR (w AND 0x0f)) :: byte) = 0x60 + unat w mod 16"
  "unat (ucast (0x70 OR (w AND 0x0f)) :: byte) = 0x70 + unat w mod 16"
  "unat (ucast (0x80 OR (w AND 0x3f)) :: byte) = 0x80 + unat w mod 64"
proof -
  have "unat (push_bit 4 1 OR (w AND 0x0f)) = unat (1 :: u64) * 2 ^ 4 + unat (w AND 0x0f)"
    "unat (push_bit 4 6 OR (w AND 0x0f)) = unat (6 :: u64) * 2 ^ 4 + unat (w AND 0x0f)"
    "unat (push_bit 4 7 OR (w AND 0x0f)) = unat (7 :: u64) * 2 ^ 4 + unat (w AND 0x0f)"
    "unat (push_bit 6 2 OR (w AND 0x3f)) = unat (2 :: u64) * 2 ^ 6 + unat (w AND 0x3f)"
    by (rule unat_push_or; simp add: unat_and_mask; linarith?)+
  then show "unat (ucast (0x10 OR ((w :: u64) AND 0x0f)) :: byte) = 0x10 + unat w mod 16"
    "unat (ucast (0x60 OR (w AND 0x0f)) :: byte) = 0x60 + unat w mod 16"
    "unat (ucast (0x70 OR (w AND 0x0f)) :: byte) = 0x70 + unat w mod 16"
    "unat (ucast (0x80 OR (w AND 0x3f)) :: byte) = 0x80 + unat w mod 64"
    by (simp_all add: unat_ucast_byte unat_and_mask)
qed

lemma take_bit_small: "unat (w :: 'a::len word) < 2 ^ n \<Longrightarrow> take_bit n w = w"
  by (simp add: word_unat_eq_iff unsigned_take_bit_eq take_bit_nat_eq_self)

lemma v6_head_eq:
  assumes "g < 2 ^ 60"
  shows "v6_head g = be_store 6 (drop_bit 12 g) @ [ucast (0x60 OR (drop_bit 8 g AND 0x0f)), ucast g]"
proof -
  have "(push_bit 60 1 - 1 :: u64) = mask 60" by (simp add: mask_eq_exp_minus_1)
  then have "g AND (push_bit 60 1 - 1) = take_bit 60 g" by (simp only: take_bit_eq_mask)
  also have "\<dots> = g" using assms by (intro take_bit_small) (simp add: word_less_nat_alt)
  finally show ?thesis by (simp add: v6_head_def be_store_6 add.commute)
qed

lemma be_nat_v6_head:
  assumes "g < 2 ^ 60"
  shows "be_nat (v6_head g) = unat g div 4096 * 65536 + 6 * 4096 + unat g mod 4096"
proof -
  have "unat g < 2 ^ 60" using assms by (simp add: word_less_nat_alt)
  then have h: "unat g div 4096 < 256 ^ 6" by (simp add: less_mult_imp_div_less)
  have d: "unat g mod 4096 = unat g div 256 mod 16 * 256 + unat g mod 256"
    using mod_mult2_eq [of "unat g" 256 16] by simp
  show ?thesis
    unfolding v6_head_eq [OF assms] be_nat_append be_nat.simps nibble_or
    using h by (simp add: be_nat_be_store unat_drop_bit unat_ucast_byte d)
qed

text \<open>The version 6 layout is strictly monotone in the timestamp.\<close>

lemma be_nat_v6_less:
  assumes "g < g'" and "g' < 2 ^ 60"
  shows "be_nat (v6_head g) < be_nat (v6_head g')"
proof -
  have g: "g < 2 ^ 60" using assms by (rule order_less_trans)
  have "unat g < unat g'" using assms(1) by (simp add: word_less_nat_alt)
  then have "unat g div 4096 < unat g' div 4096 \<or>
      unat g div 4096 = unat g' div 4096 \<and> unat g mod 4096 < unat g' mod 4096"
    by (metis div_le_mono div_mult_mod_eq le_neq_implies_less less_imp_le_nat nat_add_left_cancel_less)
  moreover have "unat g mod 4096 < 4096" by simp
  ultimately show ?thesis
    unfolding be_nat_v6_head [OF g] be_nat_v6_head [OF assms(2)] by linarith
qed


subsection \<open>The version 1 layout\<close>

lemma v1_head_eq:
  "v1_head g = be_store 4 g @ be_store 2 (drop_bit 32 g) @
     [ucast (0x10 OR (drop_bit 56 g AND 0x0f)), ucast (drop_bit 48 g)]"
proof -
  let ?tl = "ucast (g AND 0xffffffff) :: u32" and ?tm = "ucast (drop_bit 32 g AND 0xffff) :: u16"
  let ?th = "ucast (drop_bit 48 g AND 0x0fff) OR 0x1000 :: u16"
  have "ucast (drop_bit 24 ?tl) = (ucast (drop_bit 24 g) :: byte)" "ucast (drop_bit 16 ?tl) = (ucast (drop_bit 16 g) :: byte)"
    "ucast (drop_bit 8 ?tl) = (ucast (drop_bit 8 g) :: byte)" "ucast ?tl = (ucast g :: byte)"
    "ucast (drop_bit 8 ?tm) = (ucast (drop_bit 40 g) :: byte)" "ucast ?tm = (ucast (drop_bit 32 g) :: byte)"
    unfolding and_mask_eq
    by (intro bit_word_eqI; auto simp: bit_simps dest: bit_imp_le_length)+
  moreover have "ucast (drop_bit 8 ?th) = (ucast (0x10 OR (drop_bit 56 g AND 0x0f)) :: byte) \<and>
    ucast ?th = (ucast (drop_bit 48 g) :: byte)"
  proof -
    let ?x = "ucast (drop_bit 48 g AND 0x0fff) :: u16"
    define y where "y = unat g div 2 ^ 48"
    have x: "unat ?x = y mod 4096"
      by (simp add: unsigned_ucast_eq unat_and_mask unat_drop_bit y_def take_bit_eq_mod)
    have "unat ?th = unat (push_bit 12 1 OR ?x)" by (simp add: or.commute)
    also have "\<dots> = unat (1 :: u16) * 2 ^ 12 + unat ?x"
      by (rule unat_push_or; simp add: x)
    finally have th: "unat ?th = 4096 + y mod 4096" by (simp add: x)
    have "4096 + y mod 4096 = y mod 256 + (16 + y div 256 mod 16) * 256"
      using mod_mult2_eq [of y 256 16] by simp
    then have "(4096 + y mod 4096) div 256 = 16 + y div 256 mod 16" "(4096 + y mod 4096) mod 256 = y mod 256"
      by (simp_all only: div_mult_self1 mod_mult_self1 zero_neq_numeral not_False_eq_True) simp_all
    moreover have "16 + y div 256 mod 16 < 256" using mod_less_divisor [of 16 "y div 256"] by linarith
    ultimately show ?thesis
      unfolding word_unat_eq_iff unat_ucast_byte [of "drop_bit 8 ?th"] unat_ucast_byte [of ?th] unat_drop_bit th nibble_or
      by (simp add: unat_ucast_byte unat_drop_bit y_def div_mult2_eq [symmetric])
  qed
  ultimately show ?thesis
    unfolding v1_head_def Let_def be_store_4 be_store_2 by simp
qed


lemma be_nat_v1_head:
  assumes "g < 2 ^ 60"
  shows "be_nat (take 4 (v1_head g)) = unat g mod 2 ^ 32"
    and "be_nat (take 2 (drop 4 (v1_head g))) = unat g div 2 ^ 32 mod 2 ^ 16"
    and "unat (v1_head g ! 6) = 16 + unat g div 2 ^ 56"
    and "unat (v1_head g ! 7) = unat g div 2 ^ 48 mod 256"
proof -
  have "unat g < 2 ^ 60" using assms by (simp add: word_less_nat_alt)
  then have "unat g div 2 ^ 56 mod 16 = unat g div 2 ^ 56" by (simp add: less_mult_imp_div_less)
  then show "unat (v1_head g ! 6) = 16 + unat g div 2 ^ 56"
    unfolding v1_head_eq by (simp add: nth_append nibble_or unat_drop_bit)
qed (simp_all add: v1_head_eq nth_append be_nat_be_store unat_drop_bit unat_ucast_byte)

subsection \<open>Reading the timestamp back\<close>

lemma or_bytes_short:
  "push_bit 8 (ucast (a :: byte)) OR ucast (b :: byte) = (of_nat (be_nat [a, b]) :: u64)"
  "push_bit 24 (ucast a) OR push_bit 16 (ucast b) OR push_bit 8 (ucast (c :: byte)) OR ucast (d :: byte)
     = (of_nat (be_nat [a, b, c, d]) :: u64)"
  "push_bit 40 (ucast a) OR push_bit 32 (ucast b) OR push_bit 24 (ucast c) OR push_bit 16 (ucast d) OR
   push_bit 8 (ucast (e :: byte)) OR ucast (f :: byte) = (of_nat (be_nat [a, b, c, d, e, f]) :: u64)"
  using or_bytes_be_nat [of 0 0 0 0 0 0 a b] or_bytes_be_nat [of 0 0 0 0 a b c d]
    or_bytes_be_nat [of 0 0 a b c d e f] by simp_all

text \<open>The 60-bit timestamp of versions 1, 2 and 6 and the 48-bit milliseconds of version 7 as numbers.\<close>

definition time60 :: "byte list \<Rightarrow> nat" where
  "time60 b =
     (if unat (b ! 6) div 16 = 6 then be_nat (take 6 b) * 4096 + unat (b ! 6) mod 16 * 256 + unat (b ! 7)
      else ((unat (b ! 6) mod 16 * 256 + unat (b ! 7)) * 65536 + be_nat (take 2 (drop 4 b))) * 4294967296 +
           (if unat (b ! 6) div 16 = 2 then 0 else be_nat (take 4 b)))"

lemma time60_word_v6:
  "unat (push_bit 52 (ucast (a :: byte)) OR push_bit 44 (ucast (b :: byte)) OR push_bit 36 (ucast (c :: byte)) OR
     push_bit 28 (ucast (d :: byte)) OR push_bit 20 (ucast (e :: byte)) OR push_bit 12 (ucast (f :: byte)) OR
     push_bit 8 (ucast ((x :: byte) AND 0x0f)) OR ucast (y :: byte) :: u64)
   = be_nat [a, b, c, d, e, f] * 4096 + unat x mod 16 * 256 + unat y"
proof -
  have e: "push_bit 52 (ucast a) OR push_bit 44 (ucast b) OR push_bit 36 (ucast c) OR
     push_bit 28 (ucast d) OR push_bit 20 (ucast e) OR push_bit 12 (ucast f) OR
     push_bit 8 (ucast (x AND 0x0f)) OR ucast y =
     push_bit 12 (of_nat (be_nat [a, b, c, d, e, f])) OR (of_nat (be_nat [x AND 0x0f, y]) :: u64)"
    unfolding or_bytes_short [symmetric] by (simp add: push_bit_or or.assoc)
  have lo: "be_nat [x AND 0x0f, y] = unat x mod 16 * 256 + unat y" by (simp add: unat_and_mask)
  have l: "unat x mod 16 * 256 + unat y < 4096"
    using unat_byte_less [of y] mod_less_divisor [of 16 "unat x"] by linarith
  have h: "be_nat [a, b, c, d, e, f] < 2 ^ 48" using be_nat_less [of "[a, b, c, d, e, f]"] by simp
  have "unat (of_nat (be_nat [a, b, c, d, e, f]) :: u64) = be_nat [a, b, c, d, e, f]"
    "unat (of_nat (be_nat [x AND 0x0f, y]) :: u64) = be_nat [x AND 0x0f, y]"
    using h l by (intro of_nat_inverse [OF refl], simp only: lo, simp)+
  then show ?thesis
    unfolding e using h l by (subst unat_push_or) (simp_all only: lo, simp_all)
qed


lemma time60_word_v1:
  "unat (push_bit 48 (push_bit 8 (ucast ((x :: byte) AND 0x0f)) OR ucast (y :: byte)) OR
     push_bit 32 (push_bit 8 (ucast (e :: byte)) OR ucast (f :: byte)) OR
     (if z then 0 else push_bit 24 (ucast (a :: byte)) OR push_bit 16 (ucast (b :: byte)) OR
        push_bit 8 (ucast (c :: byte)) OR ucast (d :: byte)) :: u64)
   = ((unat x mod 16 * 256 + unat y) * 65536 + be_nat [e, f]) * 4294967296 + (if z then 0 else be_nat [a, b, c, d])"
proof -
  define tl where "tl = (if z then 0 else be_nat [a, b, c, d])"
  define tm where "tm = be_nat [e, f]"
  define th where "th = be_nat [x AND 0x0f, y]"
  have tl: "tl < 2 ^ 32" using be_nat_less [of "[a, b, c, d]"] by (simp add: tl_def del: be_nat.simps)
  have tm: "tm < 2 ^ 16" using be_nat_less [of "[e, f]"] by (simp add: tm_def del: be_nat.simps)
  have thx: "th = unat x mod 16 * 256 + unat y" by (simp add: th_def unat_and_mask)
  have th: "th < 4096"
    using unat_byte_less [of y] mod_less_divisor [of 16 "unat x"] unfolding thx by linarith
  have u: "unat (of_nat th :: u64) = th" "unat (of_nat tm :: u64) = tm" "unat (of_nat tl :: u64) = tl"
    using th tm tl by (intro of_nat_inverse [OF refl], simp)+
  have w: "(if z then 0 else push_bit 24 (ucast a) OR push_bit 16 (ucast b) OR push_bit 8 (ucast c) OR ucast d)
      = (of_nat tl :: u64)"
    unfolding tl_def by (cases z) (simp, simp only: if_False or_bytes_short(2))
  have hi: "unat (push_bit 16 (of_nat th) OR of_nat tm :: u64) = th * 2 ^ 16 + tm"
    using th tm u by (subst unat_push_or) simp_all
  have "push_bit 48 (of_nat th) OR push_bit 32 (of_nat tm) OR (of_nat tl :: u64)
      = push_bit 32 (push_bit 16 (of_nat th) OR of_nat tm) OR of_nat tl"
    by (simp add: push_bit_or or.assoc)
  also have "unat \<dots> = (th * 2 ^ 16 + tm) * 2 ^ 32 + tl"
    using th tm tl u hi by (subst unat_push_or) simp_all
  finally show ?thesis
    unfolding w unfolding or_bytes_short(1) th_def [symmetric] tm_def [symmetric] tl_def [symmetric]
    by (simp add: thx)
qed

lemma all_bytes:
  assumes "\<forall>n \<in> set [0..<256]. Q (of_nat n :: byte)"
  shows "Q x"
proof -
  have "Q (of_nat (unat x))" using assms by (metis atLeastLessThan_iff le0 set_upt unat_byte_less)
  then show ?thesis by simp
qed

lemma rfc_variant_iff: "(x :: byte) AND 0xC0 = 0x80 \<longleftrightarrow> unat x div 64 = 2"
  by (rule all_bytes [where Q = "\<lambda>x. x AND 0xC0 = 0x80 \<longleftrightarrow> unat x div 64 = 2"]) code_simp

lemma variant_bits:
  "(x :: byte) AND 0x80 = 0 \<longleftrightarrow> unat x < 128" "x AND 0xE0 = 0xC0 \<longleftrightarrow> unat x div 32 = 6"
proof -
  show "x AND 0x80 = 0 \<longleftrightarrow> unat x < 128"
    by (rule all_bytes [where Q = "\<lambda>x. x AND 0x80 = 0 \<longleftrightarrow> unat x < 128"]) code_simp
  show "x AND 0xE0 = 0xC0 \<longleftrightarrow> unat x div 32 = 6"
    by (rule all_bytes [where Q = "\<lambda>x. x AND 0xE0 = 0xC0 \<longleftrightarrow> unat x div 32 = 6"]) code_simp
qed

lemma version_nibble: "unat (drop_bit 4 (x :: byte) AND 0x0f) = unat x div 16"
  by (simp add: unat_and_mask unat_drop_bit)

lemma version_nibble_iff:
  "drop_bit 4 (x :: byte) AND 0x0f = 1 \<longleftrightarrow> unat x div 16 = 1" "drop_bit 4 x AND 0x0f = 2 \<longleftrightarrow> unat x div 16 = 2"
  "drop_bit 4 x AND 0x0f = 6 \<longleftrightarrow> unat x div 16 = 6" "drop_bit 4 x AND 0x0f = 7 \<longleftrightarrow> unat x div 16 = 7"
  unfolding word_unat_eq_iff version_nibble by simp_all


lemma time60_less: "length b = 16 \<Longrightarrow> time60 b < 2 ^ 60"
proof -
  assume len: "length b = 16"
  have "be_nat (take 6 b) < 256 ^ 6" "be_nat (take 4 b) < 256 ^ 4" "be_nat (take 2 (drop 4 b)) < 256 ^ 2"
    using be_nat_less [of "take 6 b"] be_nat_less [of "take 4 b"] be_nat_less [of "take 2 (drop 4 b)"] len
    by simp_all
  moreover have "unat (b ! 6) mod 16 < 16" by simp
  moreover note unat_byte_less [of "b ! 7"]
  ultimately show ?thesis unfolding time60_def by (simp, intro conjI impI; linarith)
qed

lemma take_6_2: "length b = 16 \<Longrightarrow> take 6 b = [b ! 0, b ! 1, b ! 2, b ! 3, b ! 4, b ! 5]"
  "length b = 16 \<Longrightarrow> take 4 b = [b ! 0, b ! 1, b ! 2, b ! 3]"
  "length b = 16 \<Longrightarrow> take 2 (drop 4 b) = [b ! 4, b ! 5]"
  by (rule nth_equalityI; auto simp: less_Suc_eq numeral_eq_Suc)+

text \<open>The decoder in numbers; no step of it wraps.\<close>

lemma fu_decode_time_eq:
  assumes len: "length b = 16"
  shows "fu_decode_time b =
    (if unat (b ! 8) div 64 \<noteq> 2 then None
     else if unat (b ! 6) div 16 \<in> {1, 2, 6} then
       Some (int (time60 b div 10000000) - 12219292800, of_nat (time60 b mod 10000000 div 10))
     else if unat (b ! 6) div 16 = 7 then
       Some (int (be_nat (take 6 b) div 1000), of_nat (be_nat (take 6 b) mod 1000 * 1000))
     else None)"
proof -
  let ?v = "unat (b ! 6) div 16"
  note v6 = time60_word_v6 [of "b ! 0" "b ! 1" "b ! 2" "b ! 3" "b ! 4" "b ! 5" "b ! 6" "b ! 7", folded take_6_2 [OF len]]
  note v1 = time60_word_v1 [of "b ! 6" "b ! 7" "b ! 4" "b ! 5" "?v = 2" "b ! 0" "b ! 1" "b ! 2" "b ! 3", folded take_6_2 [OF len]]
  have epoch: "uint (FU_GREG_UNIX_EPOCH div 10000000) = 12219292800"
    by (simp add: FU_GREG_UNIX_EPOCH_def uint_div)
  have q: "Some (uint (t div 10000000) - uint (FU_GREG_UNIX_EPOCH div 10000000), ucast (t mod 10000000 div 10) :: u32)
     = Some (int (n div 10000000) - 12219292800, of_nat (n mod 10000000 div 10))" if "unat t = n" for t :: u64 and n
    unfolding epoch by (simp add: that [symmetric] uint_nat unat_div unat_mod word_unat_eq_iff unsigned_ucast_eq take_bit_eq_mod unat_of_nat)
  define m where "m = be_nat (take 6 b)"
  have m: "m < 2 ^ 48" using be_nat_less [of "take 6 b"] len by (simp add: m_def)
  have um: "unat (of_nat m :: u64) = m" using m by (intro of_nat_inverse [OF refl]) simp
  have "m mod 1000 < 1000" by simp
  then have "m mod 1000 * 1000 < 1000000" by linarith
  then have "unat (of_nat m mod 1000 * 1000 :: u64) = m mod 1000 * 1000"
    by (simp add: unat_word_ariths unat_mod um)
  then have q7: "Some (uint (of_nat m div 1000 :: u64), ucast (of_nat m mod 1000 * 1000 :: u64) :: u32)
      = Some (int (m div 1000), of_nat (m mod 1000 * 1000))"
    using m by (simp add: uint_nat unat_div um word_unat_eq_iff unsigned_ucast_eq take_bit_eq_mod unat_of_nat del: of_nat_mult)
  have "fu_decode_time b =
    (if \<not> unat (b ! 8) div 64 = 2 then None
     else if ?v = 1 \<or> ?v = 2 \<or> ?v = 6 then
       Some (int (time60 b div 10000000) - 12219292800, of_nat (time60 b mod 10000000 div 10))
     else if ?v = 7 then Some (int (m div 1000), of_nat (m mod 1000 * 1000))
     else None)"
    unfolding fu_decode_time_def Let_def version_nibble_iff rfc_variant_iff or_bytes_short(3) take_6_2(1) [OF len, symmetric]
      m_def [symmetric] q7
  proof (intro if_cong refl q)
    show "unat (if ?v = 6 then
          push_bit 52 (ucast (b ! 0)) OR push_bit 44 (ucast (b ! 1)) OR push_bit 36 (ucast (b ! 2)) OR
          push_bit 28 (ucast (b ! 3)) OR push_bit 20 (ucast (b ! 4)) OR push_bit 12 (ucast (b ! 5)) OR
          push_bit 8 (ucast (b ! 6 AND 0x0f)) OR ucast (b ! 7)
        else push_bit 48 (push_bit 8 (ucast (b ! 6 AND 0x0f)) OR ucast (b ! 7)) OR
          push_bit 32 (push_bit 8 (ucast (b ! 4)) OR ucast (b ! 5)) OR
          (if ?v = 2 then 0 else push_bit 24 (ucast (b ! 0)) OR push_bit 16 (ucast (b ! 1)) OR
             push_bit 8 (ucast (b ! 2)) OR ucast (b ! 3)) :: u64) = time60 b"
    proof (cases "?v = 6")
      case True
      show ?thesis unfolding time60_def if_P [OF True] by (rule v6)
    next
      case False
      show ?thesis unfolding time60_def if_not_P [OF False] by (rule v1)
    qed
  qed
  then show ?thesis by (simp add: m_def)
qed

text \<open>The reference: the Unix second and the microsecond a UUID carries.\<close>

definition uuid_time :: "byte list \<Rightarrow> (int \<times> int) option" where
  "uuid_time b =
     (if unat (b ! 8) div 64 \<noteq> 2 then None
      else if unat (b ! 6) div 16 \<in> {1, 2, 6} then
        Some (int (time60 b div 10000000) - 12219292800, int (time60 b mod 10000000 div 10))
      else if unat (b ! 6) div 16 = 7 then
        Some (int (be_nat (take 6 b) div 1000), int (be_nat (take 6 b) mod 1000 * 1000))
      else None)"

lemma uint_of_nat_micros: "n < 1000000 \<Longrightarrow> uint (of_nat n :: u32) = int n"
  by (simp add: uint_nat unat_of_nat)

lemma fu_decode_time_uuid_time:
  assumes "length b = 16"
  shows "map_option (map_prod id uint) (fu_decode_time b) = uuid_time b"
proof -
  have "time60 b mod 10000000 div 10 < 1000000" by (simp add: less_mult_imp_div_less)
  moreover have "be_nat (take 6 b) mod 1000 < 1000" by simp
  then have "be_nat (take 6 b) mod 1000 * 1000 < 1000000" by linarith
  ultimately show ?thesis
    unfolding fu_decode_time_eq [OF assms] uuid_time_def
    by (simp only: if_distrib [of "map_option (map_prod id uint)"] option.map map_prod_simp id_apply uint_of_nat_micros)
qed


subsection \<open>Bytes 8 to 15\<close>

lemma of_int_byte: "unat (of_int i :: byte) = nat (i mod 256)"
  by (simp add: unat_eq_nat_uint uint_word_of_int)

lemma clockseq_of_range: "0 \<le> clockseq_of hi lo" "clockseq_of hi lo < 16384"
proof -
  have "clockseq_of hi lo = take_bit 14 (push_bit 8 (uint hi) OR uint lo)"
    by (simp add: clockseq_of_def take_bit_eq_mask mask_eq_exp_minus_1)
  then show "0 \<le> clockseq_of hi lo" "clockseq_of hi lo < 16384"
    using take_bit_int_less_exp [of 14 "push_bit 8 (uint hi) OR uint lo"] by simp_all
qed

text \<open>The clock sequence fields: variant bits over the high six bits, then the low eight.\<close>

lemma clockseq_bytes:
  "unat (of_int ((drop_bit 8 cs AND 0x3f) OR 0x80) :: byte) = 128 + nat (cs div 256 mod 64)"
  "unat (of_int (cs AND 0xff) :: byte) = nat (cs mod 256)"
proof -
  have m: "x AND 0x3f = x mod 64" "x AND 0xff = x mod 256" for x :: int
    using take_bit_eq_mask [of 6 x] take_bit_eq_mask [of 8 x]
    by (simp_all add: mask_eq_exp_minus_1 take_bit_eq_mod)
  let ?x = "cs div 256 mod 64"
  have x: "0 \<le> ?x" "?x < 64" by simp_all
  have "?x OR 0x80 = ?x + 128"
  proof -
    have "take_bit 6 (cs div 256) AND push_bit 7 1 = 0"
      by (intro bit_eqI) (simp only: bit_and_iff bit_take_bit_iff bit_push_bit_iff_int bit_0_eq, auto)
    then have "?x AND 128 = 0" by (simp add: take_bit_eq_mod)
    then show ?thesis using disjunctive_add_eq_or [of ?x 128] by simp
  qed
  then show "unat (of_int ((drop_bit 8 cs AND 0x3f) OR 0x80) :: byte) = 128 + nat (cs div 256 mod 64)"
    using x unfolding of_int_byte m by (simp add: drop_bit_eq_div nat_add_distrib)
  show "unat (of_int (cs AND 0xff) :: byte) = nat (cs mod 256)"
    unfolding of_int_byte m by simp
qed

lemma length_put_clockseq_node [simp, fu_len]: "length (put_clockseq_node n cs) = 2 + length n"
  by (simp add: put_clockseq_node_def)

lemma length_set_multicast [simp, fu_len]: "length (set_multicast n) = length n"
  by (simp add: set_multicast_def)

text \<open>What the caller supplied is kept; what was left open is random, with the multicast bit set in
  a random node.\<close>

lemma fu_lay_clockseq_node_cases:
  assumes "fu_inv s" and "\<And>n. node = Some n \<Longrightarrow> length n = 6" and "clockseq < 16384"
  obtains (ok) n cs s' where "fu_lay_clockseq_node P node clockseq s = (Some (put_clockseq_node n cs), s')"
      "length n = 6" "0 \<le> cs" "cs < 16384" "0 \<le> clockseq \<longrightarrow> cs = clockseq"
      "case node of Some n' \<Rightarrow> n = n' | None \<Rightarrow> bit (n ! 0) 0"
      "fu_inv s'" "gen_marks s' = gen_marks s" "EG_exception s' = EG_exception s"
    | (fail) s' where "fu_lay_clockseq_node P node clockseq s = (None, s')" "clockseq < 0 \<or> node = None"
      "fu_inv s'" "gen_marks s' = gen_marks s" "EG_exception s' \<noteq> None"
proof (cases node)
  case (Some n)
  have n: "length n = 6" using assms(2) Some by simp
  show ?thesis
  proof (cases "clockseq < 0")
    case False
    with Some n show ?thesis
      using assms by (intro ok [of n clockseq s]) (simp_all add: fu_lay_clockseq_node_def)
  next
    case True
    show ?thesis
    proof (rule fu_rand_n_cases [OF assms(1), of P 2])
      fix rc s' assume "fu_rand_n P 2 s = (SUCCESS, rc, s')" "fu_inv s'" "gen_marks s' = gen_marks s"
        "EG_exception s' = EG_exception s"
      with True Some n show ?thesis
        by (intro ok [of n "clockseq_of (rc ! 0) (rc ! 1)" s'])
           (simp_all add: fu_lay_clockseq_node_def clockseq_of_range)
    qed (use True Some in \<open>auto intro!: fail simp: fu_lay_clockseq_node_def\<close>)
  qed
next
  case None
  have mc: "bit (set_multicast r ! 0) 0" if "0 < length r" for r
    using that by (simp add: set_multicast_def bit_simps)
  show ?thesis
  proof (cases "clockseq < 0")
    case True
    show ?thesis
    proof (rule fu_rand_n_cases [OF assms(1), of P 8])
      fix r s' assume r: "fu_rand_n P 8 s = (SUCCESS, r, s')" "length r = 8" "fu_inv s'" "gen_marks s' = gen_marks s"
        "EG_exception s' = EG_exception s"
      with True None show ?thesis
        by (intro ok [of "set_multicast (take 6 r)" "clockseq_of (r ! 6) (r ! 7)" s'])
           (simp_all add: fu_lay_clockseq_node_def clockseq_of_range mc)
    qed (use True None in \<open>auto intro!: fail simp: fu_lay_clockseq_node_def\<close>)
  next
    case False
    show ?thesis
    proof (rule fu_rand_n_cases [OF assms(1), of P 6])
      fix r s' assume r: "fu_rand_n P 6 s = (SUCCESS, r, s')" "length r = 6" "fu_inv s'" "gen_marks s' = gen_marks s"
        "EG_exception s' = EG_exception s"
      with False None show ?thesis
        using assms(3)
        by (intro ok [of "set_multicast r" clockseq s']) (simp_all add: fu_lay_clockseq_node_def mc)
    qed (use False None in \<open>auto intro!: fail simp: fu_lay_clockseq_node_def\<close>)
  qed
qed


lemma variant_put_clockseq_node:
  "unat (put_clockseq_node n cs ! 0) div 64 = 2"
proof -
  have "nat (cs div 256 mod 64) < 64" by simp
  then have "(128 + nat (cs div 256 mod 64)) div 64 = 2" by (intro div_nat_eqI) simp_all
  then show ?thesis unfolding put_clockseq_node_def by (simp add: clockseq_bytes)
qed

subsection \<open>Round trips of the timestamp\<close>

lemma length_v1_head [simp, fu_len]: "length (v1_head g) = 8"
  by (simp add: v1_head_eq)

lemma length_v6_head [simp, fu_len]: "length (v6_head g) = 8"
  by (simp add: v6_head_def Let_def)

lemma digits_28:
  "(x div 2 ^ 56 * 256 + x div 2 ^ 48 mod 256) * 65536 + x div 2 ^ 32 mod 2 ^ 16 = x div 2 ^ 32" for x :: nat
proof -
  have "x div 2 ^ 56 * 256 + x div 2 ^ 48 mod 256 = x div 2 ^ 48"
    using div_mult_mod_eq [of "x div 2 ^ 48" 256] by (simp add: div_mult2_eq [symmetric])
  moreover have "x div 2 ^ 48 * 65536 + x div 2 ^ 32 mod 2 ^ 16 = x div 2 ^ 32"
    using div_mult_mod_eq [of "x div 2 ^ 32" 65536] by (simp add: div_mult2_eq [symmetric])
  ultimately show ?thesis by simp
qed

lemma digits_60:
  "((x div 2 ^ 56 * 256 + x div 2 ^ 48 mod 256) * 65536 + x div 2 ^ 32 mod 2 ^ 16) * 4294967296 + x mod 2 ^ 32 = (x :: nat)"
  unfolding digits_28 using div_mult_mod_eq [of x "2 ^ 32"] by simp

lemma nth_head: "i < length xs \<Longrightarrow> (xs @ ys) ! i = xs ! i"
  by (simp add: nth_append)

lemma version_v1_head:
  assumes "g < 2 ^ 60"
  shows "unat (v1_head g ! 6) div 16 = 1" "unat (v1_head g ! 6) mod 16 = unat g div 2 ^ 56"
proof -
  have "unat g < 2 ^ 60" using assms by (simp add: word_less_nat_alt)
  then have "unat g div 2 ^ 56 < 16" by (simp add: less_mult_imp_div_less)
  then show "unat (v1_head g ! 6) div 16 = 1" "unat (v1_head g ! 6) mod 16 = unat g div 2 ^ 56"
    unfolding be_nat_v1_head(3) [OF assms] by (simp_all add: div_nat_eqI)
qed

lemma time60_v1:
  assumes "g < 2 ^ 60"
  shows "time60 (v1_head g @ rest) = unat g"
  using digits_60 [of "unat g"] version_v1_head [OF assms] be_nat_v1_head [OF assms]
  by (simp add: time60_def nth_head)

lemma version_v6_head:
  assumes "g < 2 ^ 60"
  shows "unat (v6_head g ! 6) div 16 = 6" "unat (v6_head g ! 6) mod 16 = unat g div 256 mod 16"
    "unat (v6_head g ! 7) = unat g mod 256" "be_nat (take 6 (v6_head g)) = unat g div 4096"
proof -
  have b: "unat (v6_head g ! 6) = 0x60 + unat g div 256 mod 16"
    unfolding v6_head_eq [OF assms] by (simp add: nth_append nibble_or unat_drop_bit)
  have "(96 + y mod 16) mod 16 = y mod 16" "(96 + y mod 16) div 16 = 6" for y :: nat
    using mod_mult_self3 [of 6 16 "y mod 16"] div_mult_self3 [of 16 6 "y mod 16"] by simp_all
  then show "unat (v6_head g ! 6) div 16 = 6" "unat (v6_head g ! 6) mod 16 = unat g div 256 mod 16"
    unfolding b by simp_all
  have "unat g < 2 ^ 60" using assms by (simp add: word_less_nat_alt)
  then show "unat (v6_head g ! 7) = unat g mod 256" "be_nat (take 6 (v6_head g)) = unat g div 4096"
    unfolding v6_head_eq [OF assms]
    by (simp_all add: nth_append unat_ucast_byte be_nat_be_store unat_drop_bit less_mult_imp_div_less)
qed

lemma time60_v6:
  assumes "g < 2 ^ 60"
  shows "time60 (v6_head g @ rest) = unat g"
proof -
  have "unat g mod 4096 = unat g div 256 mod 16 * 256 + unat g mod 256"
    using mod_mult2_eq [of "unat g" 256 16] by simp
  then show ?thesis
    using div_mult_mod_eq [of "unat g" 4096] version_v6_head [OF assms]
    by (simp add: time60_def nth_head)
qed

lemma decode_time_heads:
  assumes "g < 2 ^ 60" and "length node = 6"
  shows "fu_decode_time (v1_head g @ put_clockseq_node node cs) =
      Some (int (unat g div 10000000) - 12219292800, of_nat (unat g mod 10000000 div 10)) \<and>
    fu_decode_time (v6_head g @ put_clockseq_node node cs) =
      fu_decode_time (v1_head g @ put_clockseq_node node cs)"
proof -
  have v: "unat ((h @ put_clockseq_node node cs) ! 8) div 64 = 2" if "length h = 8" for h
    using variant_put_clockseq_node [of node cs] that by (simp add: nth_append)
  have len: "length (v1_head g @ put_clockseq_node node cs) = 16" "length (v6_head g @ put_clockseq_node node cs) = 16"
    using assms(2) by simp_all
  show ?thesis
    unfolding fu_decode_time_eq [OF len(1)] fu_decode_time_eq [OF len(2)]
    using v [of "v1_head g"] v [of "v6_head g"] version_v1_head(1) [OF assms(1)] version_v6_head(1) [OF assms(1)]
    by (simp add: time60_v1 [OF assms(1)] time60_v6 [OF assms(1)] nth_head)
qed

text \<open>C23: a Gregorian timestamp of 60 bits written by the version 1 or the version 6 layout, with any
  clock sequence and node, is read back exactly: the Unix second (before 1970 it is negative) and
  the microsecond of the 100 ns count; the two layouts decode alike.\<close>

theorem fu_decode_time_roundtrip:
  assumes "g < 2 ^ 60" and "length node = 6"
  shows "fu_decode_time (v1_head g @ put_clockseq_node node cs) =
      Some (int (unat g div 10000000) - 12219292800, of_nat (unat g mod 10000000 div 10)) \<and>
    fu_decode_time (v6_head g @ put_clockseq_node node cs) =
      fu_decode_time (v1_head g @ put_clockseq_node node cs)"
  by (rule decode_time_heads [OF assms])

theorem fu_decode_time_roundtrip_witness:
  "fu_decode_time (v6_head FU_GREG_UNIX_EPOCH @ put_clockseq_node [1, 0, 0, 0, 0, 0] 5) = Some (0, 0)"
proof -
  have "FU_GREG_UNIX_EPOCH < 2 ^ 60" by (simp add: FU_GREG_UNIX_EPOCH_def)
  from fu_decode_time_roundtrip [OF this, of "[1, 0, 0, 0, 0, 0]" 5] show ?thesis
    by (simp add: FU_GREG_UNIX_EPOCH_def)
qed


subsection \<open>The version 7 layout\<close>

lemma fu_lay_v7_eq:
  "fu_lay_v7 ms sub randb =
     be_store 6 ms @ [ucast (0x70 OR (drop_bit 8 sub AND 0x0f)), ucast sub,
       ucast (0x80 OR (drop_bit 56 randb AND 0x3f))] @ be_store 7 randb"
  by (simp add: fu_lay_v7_def be_store_6 be_store_7)

lemma length_fu_lay_v7 [simp, fu_len]: "length (fu_lay_v7 ms sub randb) = 16"
  by (simp add: fu_lay_v7_def)

text \<open>The number a version 7 UUID denotes: milliseconds, version, sub-millisecond fraction, variant,
  counter.\<close>

lemma be_nat_fu_lay_v7:
  assumes "ms < 2 ^ 48" and "sub < 2 ^ 12" and "randb < 2 ^ 62"
  shows "be_nat (fu_lay_v7 ms sub randb) =
    unat ms * 2 ^ 80 + 7 * 2 ^ 76 + unat sub * 2 ^ 64 + 2 * 2 ^ 62 + unat randb"
proof -
  have "unat ms < 2 ^ 48" "unat sub < 2 ^ 12" "unat randb < 2 ^ 62"
    using assms by (simp_all add: word_less_nat_alt)
  then have b: "unat ms mod 256 ^ 6 = unat ms" "unat sub div 256 mod 16 = unat sub div 256"
    "unat randb div 2 ^ 56 mod 64 = unat randb div 2 ^ 56"
    by (simp_all add: less_mult_imp_div_less)
  have "(unat sub div 256 * 256 + unat sub mod 256) * 2 ^ 64 = unat sub * 2 ^ 64"
    by (simp only: div_mult_mod_eq)
  then have d: "unat sub div 256 * (256 * 2 ^ 64) + unat sub mod 256 * 2 ^ 64 = unat sub * 2 ^ 64"
    by (simp only: distrib_right mult.assoc)
  have d': "unat randb div 2 ^ 56 * 2 ^ 56 + unat randb mod 2 ^ 56 = unat randb"
    by (rule div_mult_mod_eq)
  have e: "be_nat (be_store 6 ms) = unat ms" "be_nat (be_store 7 randb) = unat randb mod 2 ^ 56"
    using b(1) by (simp_all add: be_nat_be_store)
  have n: "unat (ucast (0x70 OR (drop_bit 8 sub AND 0x0f)) :: byte) = 0x70 + unat sub div 256"
    "unat (ucast (0x80 OR (drop_bit 56 randb AND 0x3f)) :: byte) = 0x80 + unat randb div 2 ^ 56"
    "unat (ucast sub :: byte) = unat sub mod 256"
    unfolding nibble_or unat_drop_bit using b by (simp_all add: unat_ucast_byte)
  show ?thesis
    unfolding fu_lay_v7_eq be_nat_append e be_nat.simps n
    using d d' by simp
qed

text \<open>Positions of the version 7 sequence: the 60-bit time key and the 62-bit counter.\<close>

definition v7_bytes :: "u64 \<Rightarrow> u64 \<Rightarrow> byte list" where
  "v7_bytes key randb = fu_lay_v7 (drop_bit 12 key) (key AND 0xfff) randb"

lemma be_nat_v7_bytes:
  assumes "key < 2 ^ 60" and "randb < 2 ^ 62"
  shows "be_nat (v7_bytes key randb) =
    unat key div 4096 * 2 ^ 80 + 7 * 2 ^ 76 + unat key mod 4096 * 2 ^ 64 + 2 * 2 ^ 62 + unat randb"
proof -
  have k: "unat key < 2 ^ 60" using assms(1) by (simp add: word_less_nat_alt)
  have m: "unat (key AND 0xfff) = unat key mod 4096" by (simp add: unat_and_mask(4) [simplified])
  have "drop_bit 12 key < 2 ^ 48" using k by (simp add: word_less_nat_alt unat_drop_bit less_mult_imp_div_less)
  moreover have "key AND 0xfff < 2 ^ 12" by (simp add: word_less_nat_alt m)
  ultimately show ?thesis
    unfolding v7_bytes_def using assms(2) by (simp add: be_nat_fu_lay_v7 m unat_drop_bit)
qed

text \<open>The layout is strictly monotone in the position, compared lexicographically.\<close>

lemma digits_4096_less:
  "a div 4096 * 65536 + 28672 + a mod 4096 < b div 4096 * 65536 + 28672 + b mod 4096 \<longleftrightarrow> a < (b :: nat)"
proof -
  have "a mod 4096 < 65536" "b mod 4096 < 65536"
    by (rule order_less_trans [of _ 4096]; simp)+
  then show ?thesis
    using digit_split_less_iff [of "a mod 4096" 65536 "b mod 4096" "a div 4096" "b div 4096"]
      nat_less_div_mod [of a b 4096] by simp
qed

lemma v7_bytes_less_iff:
  assumes "k < 2 ^ 60" "r < 2 ^ 62" "k' < 2 ^ 60" "r' < 2 ^ 62"
  shows "be_nat (v7_bytes k r) < be_nat (v7_bytes k' r') \<longleftrightarrow> k < k' \<or> k = k' \<and> r < r'"
proof -
  let ?A = "\<lambda>a. a div 4096 * 65536 + 28672 + a mod 4096"
  have r: "2 ^ 63 + unat r < 2 ^ 64" "2 ^ 63 + unat r' < 2 ^ 64" using assms by (simp_all add: word_less_nat_alt)
  have e: "be_nat (v7_bytes k r) = ?A (unat k) * 2 ^ 64 + (2 ^ 63 + unat r)"
    "be_nat (v7_bytes k' r') = ?A (unat k') * 2 ^ 64 + (2 ^ 63 + unat r')"
    using be_nat_v7_bytes [OF assms(1,2)] be_nat_v7_bytes [OF assms(3,4)] by simp_all
  have "?A a = ?A b \<longleftrightarrow> a = b" for a b :: nat
    using digits_4096_less [of a b] digits_4096_less [of b a] by (metis nat_neq_iff)
  then show ?thesis
    unfolding e digit_split_less_iff [OF r] digits_4096_less word_less_nat_alt word_unat_eq_iff by simp
qed

lemma v7_bytes_fields:
  assumes "ms < 2 ^ 48"
  shows "be_nat (take 6 (fu_lay_v7 ms sub randb)) = unat ms"
    and "unat (fu_lay_v7 ms sub randb ! 6) div 16 = 7"
    and "unat (fu_lay_v7 ms sub randb ! 8) div 64 = 2"
proof -
  have "unat ms < 2 ^ 48" using assms by (simp add: word_less_nat_alt)
  then show "be_nat (take 6 (fu_lay_v7 ms sub randb)) = unat ms"
    unfolding fu_lay_v7_eq by (simp add: be_nat_be_store)
  have n: "(112 + y mod 16) div 16 = 7" "(128 + y mod 64) div 64 = 2" for y :: nat
    using div_mult_self3 [of 16 7 "y mod 16"] div_mult_self3 [of 64 2 "y mod 64"] by simp_all
  show "unat (fu_lay_v7 ms sub randb ! 6) div 16 = 7" "unat (fu_lay_v7 ms sub randb ! 8) div 64 = 2"
    using n [of "unat (drop_bit 8 sub)"] n [of "unat (drop_bit 56 randb)"]
      nibble_or(3) [of "drop_bit 8 sub"] nibble_or(4) [of "drop_bit 56 randb"]
    by (simp_all add: fu_lay_v7_eq nth_append)
qed

lemma decode_time_v7:
  assumes "ms < 2 ^ 48"
  shows "fu_decode_time (fu_lay_v7 ms sub randb) = Some (int (unat ms div 1000), of_nat (unat ms mod 1000 * 1000))"
  using v7_bytes_fields [OF assms, of sub randb]
  by (simp add: fu_decode_time_eq)

text \<open>C24: the millisecond timestamp of a version 7 UUID is read back exactly, whatever the
  sub-millisecond fraction and the counter.\<close>

theorem fu_decode_time_v7:
  assumes "ms < 2 ^ 48"
  shows "fu_decode_time (fu_lay_v7 ms sub randb) = Some (int (unat ms div 1000), of_nat (unat ms mod 1000 * 1000))"
  by (rule decode_time_v7 [OF assms])

theorem fu_decode_time_v7_witness:
  "fu_decode_time (fu_lay_v7 1700000000123 4095 7) = Some (1700000000, 123000)"
  using fu_decode_time_v7 [of 1700000000123 4095 7] by simp

subsection \<open>Version and variant\<close>

lemma getVariant_ranges:
  "getVariant b = (if unat (b ! 8) < 128 then 0 else if unat (b ! 8) < 192 then 2
                   else if unat (b ! 8) < 224 then 6 else 7)"
proof -
  let ?u = "unat (b ! 8)"
  have "?u div 64 = 2 \<longleftrightarrow> 128 \<le> ?u \<and> ?u < 192" "?u div 32 = 6 \<longleftrightarrow> 192 \<le> ?u \<and> ?u < 224"
    by linarith+
  then show ?thesis by (simp add: getVariant_def Let_def variant_bits rfc_variant_iff)
qed

lemma getVariant_rfc: "getVariant b = 2 \<longleftrightarrow> unat (b ! 8) div 64 = 2"
  unfolding getVariant_ranges by auto

lemma getVersion_eq:
  assumes "length b = 16"
  shows "getVersion b = (if getVariant b = 2 then Some (int (unat (b ! 6) div 16)) else None)"
proof -
  have "b ! 8 = 0" if "list_all (\<lambda>x. x = 0) b" using that assms by (simp add: list_all_length)
  moreover have "b ! 8 = 0xff" if "list_all (\<lambda>x. x = 0xff) b" using that assms by (simp add: list_all_length)
  ultimately have "getVersion b = (if unat (b ! 8) div 64 = 2 then Some (uint (drop_bit 4 (b ! 6) AND 0x0f)) else None)"
    by (auto simp: getVersion_def Let_def rfc_variant_iff)
  also have "uint (drop_bit 4 (b ! 6) AND 0x0f) = int (unat (b ! 6) div 16)"
    by (simp only: uint_nat version_nibble)
  finally show ?thesis by (simp add: getVariant_rfc)
qed

text \<open>What every generator of version \<open>v\<close> promises of its result.\<close>

definition rfc_uuid :: "nat \<Rightarrow> byte list \<Rightarrow> bool" where
  "rfc_uuid v b \<longleftrightarrow> length b = 16 \<and> getVariant b = 2 \<and> getVersion b = Some (int v)"

lemma rfc_uuid_iff: "rfc_uuid v b \<longleftrightarrow> length b = 16 \<and> unat (b ! 8) div 64 = 2 \<and> unat (b ! 6) div 16 = v"
  by (auto simp: rfc_uuid_def getVariant_rfc getVersion_eq)

lemma rfc_uuid_length: "rfc_uuid v b \<Longrightarrow> length b = 16"
  by (simp add: rfc_uuid_def)

text \<open>\<open>getVersion\<close> is the version nibble of every UUID of the RFC variant and null otherwise; the
  tests for the nil and the max UUID single out two values that do not have that variant.
  \<open>getVariant\<close> classifies byte 8 by its top bits.\<close>

theorem getVersion_getVariant:
  assumes "length b = 16"
  shows "getVersion b = (if getVariant b = 2 then Some (int (unat (b ! 6) div 16)) else None) \<and>
    getVariant b = (if unat (b ! 8) < 128 then 0 else if unat (b ! 8) < 192 then 2
                    else if unat (b ! 8) < 224 then 6 else 7)"
  using getVersion_eq [OF assms] getVariant_ranges [of b] by (rule conjI)

theorem getVersion_getVariant_witness:
  "getVersion (fu_lay_v7 5 6 7) = Some 7 \<and> getVersion (replicate 16 0) = None"
  using getVersion_getVariant [of "fu_lay_v7 5 6 7"] getVersion_getVariant [of "replicate 16 0"]
  by (simp add: fu_lay_v7_def)

lemma set_ver_var_nibbles:
  assumes "length b = 16" and "unat ver = 16 * v" and "v < 16"
  shows "unat (fu_set_ver_var b ver ! 6) div 16 = v" "unat (fu_set_ver_var b ver ! 6) mod 16 = unat (b ! 6) mod 16"
    "unat (fu_set_ver_var b ver ! 8) div 64 = 2" "unat (fu_set_ver_var b ver ! 8) mod 64 = unat (b ! 8) mod 64"
    "length (fu_set_ver_var b ver) = 16" "i \<noteq> 6 \<Longrightarrow> i \<noteq> 8 \<Longrightarrow> fu_set_ver_var b ver ! i = b ! i"
proof -
  have ver: "ver = push_bit 4 (of_nat v)"
    using arg_cong [OF assms(2), of "of_nat :: nat \<Rightarrow> byte"] by (simp add: push_bit_eq_mult mult.commute)
  have u: "unat (of_nat v :: byte) = v" using assms(3) by (intro of_nat_inverse [OF refl]) simp
  have m: "unat (b ! 6) mod 16 < 16" "unat (b ! 8) mod 64 < 64" by simp_all
  have "unat (push_bit 4 (of_nat v) OR (b ! 6 AND 0x0f)) = v * 2 ^ 4 + unat (b ! 6) mod 16"
    using assms(3) m by (subst unat_push_or) (simp_all add: unat_and_mask u)
  then have 6: "unat (fu_set_ver_var b ver ! 6) = v * 16 + unat (b ! 6) mod 16"
    using assms(1) by (simp add: fu_set_ver_var_def Let_def ver or.commute)
  have "unat (push_bit 6 2 OR (b ! 8 AND 0x3f)) = unat (2 :: byte) * 2 ^ 6 + unat (b ! 8) mod 64"
    using m by (subst unat_push_or) (simp_all add: unat_and_mask)
  then have 8: "unat (fu_set_ver_var b ver ! 8) = 128 + unat (b ! 8) mod 64"
    using assms(1) by (simp add: fu_set_ver_var_def Let_def or.commute)
  show "unat (fu_set_ver_var b ver ! 6) div 16 = v" "unat (fu_set_ver_var b ver ! 6) mod 16 = unat (b ! 6) mod 16"
    unfolding 6 by simp_all
  show "unat (fu_set_ver_var b ver ! 8) div 64 = 2" "unat (fu_set_ver_var b ver ! 8) mod 64 = unat (b ! 8) mod 64"
    unfolding 8 using div_mult_self3 [of 64 2 "unat (b ! 8) mod 64"] mod_mult_self3 [of 2 64 "unat (b ! 8) mod 64"]
    by simp_all
qed (use assms(1) in \<open>simp_all add: fu_set_ver_var_def Let_def\<close>)

end
