(* ===== verification/Fu_V7.thy ===== *)
theory Fu_V7
  imports Fu_Layout
begin

section \<open>Version 7\<close>

text \<open>
  The monotonic version 7 generator: \<open>fu_v7_increment\<close>, \<open>fu_v7_start\<close>, \<open>fu_gen_v7\<close>, the batch
  \<open>fu_gen_v7_batch_n\<close> and the non-monotonic \<open>fu_gen_v7_at\<close>.  A function that updates \<open>*key\<close> and
  \<open>*randb\<close> returns them, or \<open>None\<close> on failure, when both are left as they were.
\<close>

definition FU_RANDB_MASK :: u64 where
  "FU_RANDB_MASK = push_bit 62 1 - 1"

definition fu_v7_increment :: "'w platform \<Rightarrow> u64 \<Rightarrow> u64 \<Rightarrow> 'w st \<Rightarrow> (u64 \<times> u64) option \<times> 'w st" where
  "fu_v7_increment P key randb s =
     (case fu_rand_n P 3 s of
        (FAILURE, r, s) \<Rightarrow> (None, s)
      | (SUCCESS, r, s) \<Rightarrow>
          (let step = (push_bit 16 (ucast (r ! 0)) OR push_bit 8 (ucast (r ! 1)) OR ucast (r ! 2)) + 1;
               next = randb + step
           in if FU_RANDB_MASK < next then
                (if key = push_bit 60 1 - 1 then
                   (None, zend_throw UnsupportedOperationException ''UUIDv7 monotonic timestamp exhausted'' s)
                 else (Some (key + 1, next AND FU_RANDB_MASK), s))
              else (Some (key, next), s)))"

definition fu_v7_start :: "'w platform \<Rightarrow> u64 \<Rightarrow> 'w st \<Rightarrow> (u64 \<times> u64) option \<times> 'w st" where
  "fu_v7_start P key s =
     (if \<not> v7_initialized s \<or> v7_key s < key then
        (case fu_rand_u64 P s of
           (None, s) \<Rightarrow> (None, s)
         | (Some randb, s) \<Rightarrow> (Some (key, randb AND FU_RANDB_MASK), s))
      else fu_v7_increment P (v7_key s) (v7_randb s) s)"

text \<open>The 60-bit time key of a clock reading.\<close>

definition v7_key_of :: "u64 \<Rightarrow> u64" where
  "v7_key_of ns =
     (let ms = ns div 1000000; sub = (ns mod 1000000 * 4096) div 1000000
      in push_bit 12 ms OR sub)"

definition set_v7 :: "u64 \<Rightarrow> u64 \<Rightarrow> 'w st \<Rightarrow> 'w st" where
  "set_v7 key randb s = s\<lparr>v7_key := key, v7_randb := randb, v7_initialized := True\<rparr>"

definition fu_gen_v7 :: "'w platform \<Rightarrow> 'w st \<Rightarrow> byte list option \<times> 'w st" where
  "fu_gen_v7 P s =
     (case fu_unix_nanos P s of
        (None, s) \<Rightarrow> (None, s)
      | (Some ns, s) \<Rightarrow>
          (case fu_v7_start P (v7_key_of ns) s of
             (None, s) \<Rightarrow> (None, s)
           | (Some (key, randb), s) \<Rightarrow>
               (Some (fu_lay_v7 (drop_bit 12 key) (key AND 0xfff) randb), set_v7 key randb s)))"

definition fu_gen_v7_at :: "'w platform \<Rightarrow> u64 \<Rightarrow> u64 \<Rightarrow> 'w st \<Rightarrow> byte list option \<times> 'w st" where
  "fu_gen_v7_at P ms sub s =
     (case fu_rand_u64 P s of
        (None, s) \<Rightarrow> (None, s)
      | (Some randb, s) \<Rightarrow> (Some (fu_lay_v7 ms sub (randb AND FU_RANDB_MASK)), s))"

text \<open>\<open>fu_uuid_zstr\<close>: the 16 bytes or their 36-character form; \<open>h\<close> is the hex routine built in.\<close>

definition fu_uuid_zstr :: "fu_simd \<Rightarrow> byte list \<Rightarrow> bool \<Rightarrow> byte list" where
  "fu_uuid_zstr h b as_bytes = (if as_bytes then b else fu_format36 h b)"

text \<open>The fill loop of the batch from index \<open>i\<close>: the result code, the elements appended, and the final
  \<open>key\<close> and \<open>randb\<close>.\<close>

function v7_batch_loop :: "'w platform \<Rightarrow> (byte list \<Rightarrow> byte list) \<Rightarrow> nat \<Rightarrow> nat \<Rightarrow> u64 \<Rightarrow> u64 \<Rightarrow> 'w st \<Rightarrow>
    zend_result \<times> byte list list \<times> u64 \<times> u64 \<times> 'w st" where
  "v7_batch_loop P zstr n i key randb s =
     (if i < n then
        (case (if 0 < i then fu_v7_increment P key randb s else (Some (key, randb), s)) of
           (None, s) \<Rightarrow> (FAILURE, [], key, randb, s)
         | (Some (key, randb), s) \<Rightarrow>
             (case v7_batch_loop P zstr n (i + 1) key randb s of
                (rc, arr, res) \<Rightarrow>
                  (rc, zstr (fu_lay_v7 (drop_bit 12 key) (key AND 0xfff) randb) # arr, res)))
      else (SUCCESS, [], key, randb, s))"
  by pat_completeness auto
termination
  by (relation "measure (\<lambda>(P, zstr, n, i, key, randb, s). n - i)") auto

declare v7_batch_loop.simps [simp del]

definition fu_gen_v7_batch_n :: "'w platform \<Rightarrow> fu_simd \<Rightarrow> nat \<Rightarrow> bool \<Rightarrow> 'w st \<Rightarrow>
    zend_result \<times> byte list list \<times> 'w st" where
  "fu_gen_v7_batch_n P h n as_bytes s =
     (case fu_unix_nanos P s of
        (None, s) \<Rightarrow> (FAILURE, [], s)
      | (Some ns, s) \<Rightarrow>
          (case fu_v7_start P (v7_key_of ns) s of
             (None, s) \<Rightarrow> (FAILURE, [], s)
           | (Some (key, randb), s) \<Rightarrow>
               (case v7_batch_loop P (\<lambda>b. fu_uuid_zstr h b as_bytes) n 0 key randb s of
                  (rc, arr, key, randb, s) \<Rightarrow> (rc, arr, set_v7 key randb s))))"

subsection \<open>Positions\<close>

text \<open>A position of the version 7 sequence, ordered by time key, then by counter.\<close>

datatype v7_pos = V7_pos (pos_key: u64) (pos_randb: u64)

instantiation v7_pos :: linorder
begin

definition less_eq_v7_pos :: "v7_pos \<Rightarrow> v7_pos \<Rightarrow> bool" where
  "less_eq_v7_pos p q \<longleftrightarrow> pos_key p < pos_key q \<or> pos_key p = pos_key q \<and> pos_randb p \<le> pos_randb q"

definition less_v7_pos :: "v7_pos \<Rightarrow> v7_pos \<Rightarrow> bool" where
  "less_v7_pos p q \<longleftrightarrow> pos_key p < pos_key q \<or> pos_key p = pos_key q \<and> pos_randb p < pos_randb q"

instance
  by standard (auto simp: less_eq_v7_pos_def less_v7_pos_def intro: v7_pos.expand)

end

definition pos_ok :: "v7_pos \<Rightarrow> bool" where
  "pos_ok p \<longleftrightarrow> pos_key p < 2 ^ 60 \<and> pos_randb p < 2 ^ 62"

definition pos_bytes :: "v7_pos \<Rightarrow> byte list" where
  "pos_bytes p = v7_bytes (pos_key p) (pos_randb p)"

definition v7_mark :: "'w st \<Rightarrow> v7_pos option" where
  "v7_mark s = (if v7_initialized s then Some (V7_pos (v7_key s) (v7_randb s)) else None)"

lemma pos_bytes_less_iff: "pos_ok p \<Longrightarrow> pos_ok q \<Longrightarrow> be_nat (pos_bytes p) < be_nat (pos_bytes q) \<longleftrightarrow> p < q"
  by (simp add: pos_ok_def pos_bytes_def v7_bytes_less_iff less_v7_pos_def)

lemma length_pos_bytes [simp, fu_len]: "length (pos_bytes p) = 16"
  by (simp add: pos_bytes_def v7_bytes_def)

lemma pos_bytes_inject: "pos_ok p \<Longrightarrow> pos_ok q \<Longrightarrow> pos_bytes p = pos_bytes q \<longleftrightarrow> p = q"
  using pos_bytes_less_iff [of p q] pos_bytes_less_iff [of q p] by (metis nat_neq_iff neq_iff)

lemma FU_RANDB_MASK_eq: "FU_RANDB_MASK = mask 62"
  by (simp add: FU_RANDB_MASK_def mask_eq_exp_minus_1)

lemma unat_and_RANDB_MASK: "unat (w AND FU_RANDB_MASK) = unat w mod 2 ^ 62"
proof -
  have "w AND FU_RANDB_MASK = take_bit 62 w" by (simp only: FU_RANDB_MASK_eq take_bit_eq_mask)
  then show ?thesis by (simp only: unsigned_take_bit_eq take_bit_eq_mod [of 62 "unat w"])
qed

lemma and_RANDB_MASK_less: "w AND FU_RANDB_MASK < 2 ^ 62"
proof -
  have "unat w mod 2 ^ 62 < 2 ^ 62" by simp
  then show ?thesis by (simp add: word_less_nat_alt unat_and_RANDB_MASK)
qed

text \<open>The random step is between 1 and \<open>2 ^ 24\<close>.\<close>

lemma step_range:
  "push_bit 16 (ucast (a :: byte)) OR push_bit 8 (ucast (b :: byte)) OR ucast (c :: byte) = (of_nat (be_nat [a, b, c]) :: u64)"
  "be_nat [a, b, c] < 2 ^ 24"
  using or_bytes_be_nat [of 0 0 0 0 0 a b c] be_nat_less [of "[a, b, c]"] by simp_all

lemma fu_v7_increment_cases:
  assumes "fu_inv s" and key: "key < 2 ^ 60" and randb: "randb < 2 ^ 62"
  obtains (ok) k r s' where "fu_v7_increment P key randb s = (Some (k, r), s')"
      "V7_pos key randb < V7_pos k r" "pos_ok (V7_pos k r)"
      "fu_inv s'" "gen_marks s' = gen_marks s" "EG_exception s' = EG_exception s"
    | (fail) s' where "fu_v7_increment P key randb s = (None, s')" "fu_inv s'" "gen_marks s' = gen_marks s"
      "EG_exception s' \<noteq> None"
proof (rule fu_rand_n_cases [OF assms(1), of P 3])
  fix bs s' assume r: "fu_rand_n P 3 s = (SUCCESS, bs, s')" "fu_inv s'" "gen_marks s' = gen_marks s"
    "EG_exception s' = EG_exception s"
  define n where "n = be_nat [bs ! 0, bs ! 1, bs ! 2]"
  define next' where "next' = randb + (of_nat n + 1)"
  have n: "n < 2 ^ 24" unfolding n_def by (rule step_range)
  have ur: "unat randb < 2 ^ 62" using randb by (simp add: word_less_nat_alt)
  define d :: u64 where "d = of_nat (n + 1)"
  have d: "unat d = n + 1" unfolding d_def using n by (intro of_nat_inverse [OF refl]) simp
  have nd: "next' = randb + d" by (simp add: next'_def d_def add.commute)
  have "unat randb + unat d < 2 ^ 64" using ur n unfolding d by simp
  then have un: "unat next' = unat randb + n + 1"
    unfolding nd using unat_add_lem [of randb d] d by simp
  have inc: "fu_v7_increment P key randb s =
      (if FU_RANDB_MASK < next' then
         (if key = push_bit 60 1 - 1 then
            (None, zend_throw UnsupportedOperationException ''UUIDv7 monotonic timestamp exhausted'' s')
          else (Some (key + 1, next' AND FU_RANDB_MASK), s'))
       else (Some (key, next'), s'))"
    unfolding fu_v7_increment_def r Let_def prod.case zend_result.case step_range(1) n_def [symmetric] next'_def ..
  have m: "FU_RANDB_MASK < next' \<longleftrightarrow> 2 ^ 62 \<le> unat next'"
    by (simp add: word_less_nat_alt FU_RANDB_MASK_def) linarith
  show ?thesis
  proof (cases "FU_RANDB_MASK < next'")
    case False
    then have "\<not> 2 ^ 62 \<le> unat next'" unfolding m .
    then have "next' < 2 ^ 62" by (simp add: word_less_nat_alt)
    moreover have "randb < next'" by (simp add: word_less_nat_alt un)
    ultimately show ?thesis
      using False r inc key by (intro ok [of key next' s']) (simp_all add: less_v7_pos_def pos_ok_def)
  next
    case wrap: True
    show ?thesis
    proof (cases "key = push_bit 60 1 - 1")
      case True
      with wrap r inc show ?thesis
        by (intro fail [of "zend_throw UnsupportedOperationException ''UUIDv7 monotonic timestamp exhausted'' s'"])
           simp_all
    next
      case False
      note b = bump_mark [OF key False, simplified]
      with False wrap r inc and_RANDB_MASK_less [of next'] show ?thesis
        by (intro ok [of "key + 1" "next' AND FU_RANDB_MASK" s']) (simp_all add: less_v7_pos_def pos_ok_def)
    qed
  qed
qed (auto intro!: fail simp: fu_v7_increment_def)

text \<open>The time key is the reading in units of 1/4096 ms: 60 bits, monotone, never wrapping.\<close>

lemma unat_v7_key_of: "unat (v7_key_of ns) = unat ns * 4096 div 1000000"
proof -
  define a b where "a = unat ns div 1000000" and "b = unat ns mod 1000000"
  have "unat ns < 2 ^ 64" using unsigned_less [of ns] by simp
  then have a: "a < 18446744073710" unfolding a_def by (simp add: less_mult_imp_div_less)
  have b: "b < 1000000" unfolding b_def by simp
  then have sub: "b * 4096 div 1000000 < 4096" by (simp add: less_mult_imp_div_less)
  have "b * 4096 < 4096000000" using b by linarith
  then have us: "unat (ns mod 1000000 * 4096) = b * 4096"
    by (simp add: unat_word_ariths unat_mod b_def)
  then have "unat ((ns mod 1000000 * 4096) div 1000000) = b * 4096 div 1000000"
    by (simp add: unat_div)
  then have "unat (v7_key_of ns) = a * 2 ^ 12 + b * 4096 div 1000000"
    unfolding v7_key_of_def Let_def using sub a
    by (subst unat_push_or) (simp_all add: unat_div a_def)
  also have "\<dots> = (a * 1000000 + b) * 4096 div 1000000"
    using div_mult_self3 [of 1000000 "a * 4096" "b * 4096"] by (simp add: algebra_simps)
  also have "a * 1000000 + b = unat ns" unfolding a_def b_def by (rule div_mult_mod_eq)
  finally show ?thesis .
qed

lemma v7_key_of_less: "v7_key_of ns < 2 ^ 60"
proof -
  have "unat ns < 2 ^ 64" using unsigned_less [of ns] by simp
  then have "unat ns * 4096 div 1000000 < 2 ^ 60" by (simp add: less_mult_imp_div_less)
  then show ?thesis by (simp add: word_less_nat_alt unat_v7_key_of)
qed


lemma fu_v7_start_cases:
  assumes inv: "fu_inv s" and key: "key < 2 ^ 60"
  obtains (ok) k r s' where "fu_v7_start P key s = (Some (k, r), s')"
      "v7_mark s < Some (V7_pos k r)" "pos_ok (V7_pos k r)" "key \<le> k"
      "fu_inv s'" "gen_marks s' = gen_marks s" "EG_exception s' = EG_exception s"
    | (fail) s' where "fu_v7_start P key s = (None, s')" "fu_inv s'" "gen_marks s' = gen_marks s"
      "EG_exception s' \<noteq> None"
proof (cases "\<not> v7_initialized s \<or> v7_key s < key")
  case True
  show ?thesis
  proof (rule fu_rand_u64_cases [OF inv, of P])
    fix r s' assume "fu_rand_u64 P s = (Some (of_nat (be_nat r)), s')" "fu_inv s'" "gen_marks s' = gen_marks s"
      "EG_exception s' = EG_exception s"
    with True key and_RANDB_MASK_less [of "of_nat (be_nat r)"] show ?thesis
      by (intro ok [of key "of_nat (be_nat r) AND FU_RANDB_MASK" s'])
         (auto simp: fu_v7_start_def v7_mark_def less_v7_pos_def pos_ok_def)
  qed (use True in \<open>auto intro!: fail simp: fu_v7_start_def\<close>)
next
  case False
  have b: "v7_key s < 2 ^ 60" "v7_randb s < 2 ^ 62" using inv by (simp_all add: fu_inv_def)
  show ?thesis
  proof (rule fu_v7_increment_cases [OF inv b, of P])
    fix k r s' assume "fu_v7_increment P (v7_key s) (v7_randb s) s = (Some (k, r), s')"
      "V7_pos (v7_key s) (v7_randb s) < V7_pos k r" "pos_ok (V7_pos k r)" "fu_inv s'"
      "gen_marks s' = gen_marks s" "EG_exception s' = EG_exception s"
    with False show ?thesis
      by (intro ok [of k r s']) (auto simp: fu_v7_start_def v7_mark_def less_v7_pos_def)
  qed (use False in \<open>auto intro!: fail simp: fu_v7_start_def\<close>)
qed

subsection \<open>The generator as a monotonic source\<close>

text \<open>\<open>fu_gen_v7\<close> up to the layout: the position it takes.\<close>

definition v7_next :: "'w platform \<Rightarrow> 'w st \<Rightarrow> v7_pos option \<times> 'w st" where
  "v7_next P s =
     (case fu_unix_nanos P s of
        (None, s) \<Rightarrow> (None, s)
      | (Some ns, s) \<Rightarrow>
          (case fu_v7_start P (v7_key_of ns) s of
             (None, s) \<Rightarrow> (None, s)
           | (Some (key, randb), s) \<Rightarrow> (Some (V7_pos key randb), set_v7 key randb s)))"

lemma fu_gen_v7_eq: "fu_gen_v7 P s = map_prod (map_option pos_bytes) id (v7_next P s)"
  by (simp add: fu_gen_v7_def v7_next_def pos_bytes_def v7_bytes_def split: prod.split option.split)

lemma set_v7_simps [simp]:
  "v7_mark (set_v7 k r s) = Some (V7_pos k r)" "EG_exception (set_v7 k r s) = EG_exception s"
  "greg_last (set_v7 k r s) = greg_last s" "v2_last (set_v7 k r s) = v2_last s"
  by (simp_all add: set_v7_def v7_mark_def)

lemma fu_inv_set_v7: "fu_inv s \<Longrightarrow> pos_ok (V7_pos k r) \<Longrightarrow> fu_inv (set_v7 k r s)"
  by (simp add: fu_inv_def set_v7_def pos_ok_def)

lemma v7_mark_cong: "gen_marks s = gen_marks s' \<Longrightarrow> v7_mark s = v7_mark s'"
  by (simp add: gen_marks_iff v7_mark_def)

lemma v7_next_cases:
  assumes "fu_inv s"
  obtains (ok) p s' where "v7_next P s = (Some p, s')" "v7_mark s < Some p" "v7_mark s' = Some p" "pos_ok p"
      "fu_inv s'" "gen_marks s' = gen_marks (set_v7 (pos_key p) (pos_randb p) s)" "EG_exception s' = EG_exception s"
    | (fail) s' where "v7_next P s = (None, s')" "fu_inv s'" "gen_marks s' = gen_marks s" "EG_exception s' \<noteq> None"
proof (rule fu_unix_nanos_cases [OF assms, of P])
  fix ns s1 assume n: "fu_unix_nanos P s = (Some ns, s1)" "fu_inv s1" "gen_marks s1 = gen_marks s"
    "EG_exception s1 = EG_exception s"
  show ?thesis
  proof (rule fu_v7_start_cases [OF n(2) v7_key_of_less, of P ns])
    fix k r s' assume r: "fu_v7_start P (v7_key_of ns) s1 = (Some (k, r), s')" "v7_mark s1 < Some (V7_pos k r)"
      "pos_ok (V7_pos k r)" "fu_inv s'" "gen_marks s' = gen_marks s1" "EG_exception s' = EG_exception s1"
    have "gen_marks (set_v7 k r s') = gen_marks (set_v7 k r s)"
      using r(5) n(3) by (simp add: gen_marks_iff set_v7_def)
    with n r v7_mark_cong [OF n(3)] show ?thesis
      by (intro ok [of "V7_pos k r" "set_v7 k r s'"]) (simp_all add: v7_next_def fu_inv_set_v7)
  qed (use n in \<open>auto intro!: fail simp: v7_next_def\<close>)
qed (auto intro!: fail simp: v7_next_def)

interpretation v7: monotonic_clock v7_next "\<lambda>_. True" "\<lambda>p. p" v7_mark
proof unfold_locales
  fix s s' :: "'a st" and P and p assume inv: "fu_inv s"
  show "fu_inv (snd (v7_next P s))"
    by (rule v7_next_cases [OF inv, of P]) simp_all
  show "v7_next P s = (Some p, s') \<Longrightarrow> v7_mark s < Some p \<and> v7_mark s' = Some p"
    by (rule v7_next_cases [OF inv, of P]) simp_all
  show "v7_next P s = (None, s') \<Longrightarrow> v7_mark s \<le> v7_mark s' \<and> EG_exception s' \<noteq> None"
    by (rule v7_next_cases [OF inv, of P]) (auto dest: v7_mark_cong)
qed


lemma run_gen_v7: "fst (run_calls fu_gen_v7 Ps s) = map pos_bytes (fst (run_calls v7_next Ps s))"
proof -
  have e: "fu_gen_v7 = (\<lambda>P s. map_prod (map_option pos_bytes) id (v7_next P s))"
    by (simp add: fun_eq_iff fu_gen_v7_eq)
  show ?thesis unfolding e run_calls_map by simp
qed

lemma v7_mark_ok: "fu_inv s \<Longrightarrow> v7_mark s = Some p \<Longrightarrow> pos_ok p"
  by (auto simp: v7_mark_def fu_inv_def pos_ok_def split: if_splits)

text \<open>C3: version 7 UUIDs are strictly increasing, as 16 bytes and as text, over any sequence of
  calls, whatever the clock does between them (it may stall or be set back), whatever the random
  steps are and whichever calls fail on the way.\<close>

theorem fu_gen_v7_increasing:
  assumes "fu_inv s"
  shows "sorted_wrt (\<lambda>x y. memcmp x y < 0) (fst (run_calls fu_gen_v7 Ps s)) \<and>
    sorted_wrt (\<lambda>x y. memcmp x y < 0) (map (fu_format36 h) (fst (run_calls fu_gen_v7 Ps s)))"
proof -
  let ?ps = "fst (run_calls v7_next Ps s)"
  have ok: "pos_ok p" if "p \<in> set ?ps" for p
    using v7.run_issued [OF assms _ that] v7_mark_ok by blast
  have sorted: "sorted_wrt (<) ?ps" by (rule v7.run_strictly_increasing [OF assms]) simp
  have less: "memcmp (pos_bytes p) (pos_bytes q) < 0" if "p \<in> set ?ps" "q \<in> set ?ps" "p < q" for p q
    using that ok by (simp add: memcmp_less_iff pos_bytes_less_iff)
  then have "memcmp (fu_format36 h (pos_bytes p)) (fu_format36 h (pos_bytes q)) < 0"
    if "p \<in> set ?ps" "q \<in> set ?ps" "p < q" for p q
    using that by (simp add: fu_format36_memcmp)
  with sorted less show ?thesis
    by (simp only: run_gen_v7 map_map o_def) (intro conjI sorted_wrt_map_mono)
qed

theorem fu_gen_v7_increasing_witness:
  "sorted_wrt (\<lambda>x y. memcmp x y < 0) (fst (run_calls fu_gen_v7 (replicate 5 sample_platform) (fu_boot 0)))"
  using fu_gen_v7_increasing [OF fu_inv_boot [of 0], of "replicate 5 sample_platform" "FU_NO_SIMD"] by simp

subsection \<open>A batch and single calls\<close>

text \<open>The randomness never looks at the version 7 globals, so moving the mark earlier or later changes nothing else.\<close>

lemma set_v7_frame [simp]:
  "world (set_v7 k r s) = world s" "drbg_key (set_v7 k r s) = drbg_key s" "drbg_ctr (set_v7 k r s) = drbg_ctr s"
  "drbg_seeded (set_v7 k r s) = drbg_seeded s" "drbg_since_seed (set_v7 k r s) = drbg_since_seed s"
  "rbuf (set_v7 k r s) = rbuf s" "rpos (set_v7 k r s) = rpos s"
  "set_v7 k r (set_v7 k' r' s) = set_v7 k r s" "v7_initialized (set_v7 k r s)"
  "v7_key (set_v7 k r s) = k" "v7_randb (set_v7 k r s) = r"
  by (simp_all add: set_v7_def)

lemma set_v7_commute:
  "(set_v7 k r s)\<lparr>world := w\<rparr> = set_v7 k r (s\<lparr>world := w\<rparr>)"
  "(set_v7 k r s)\<lparr>EG_exception := e\<rparr> = set_v7 k r (s\<lparr>EG_exception := e\<rparr>)"
  "(set_v7 k r s)\<lparr>drbg_key := a\<rparr> = set_v7 k r (s\<lparr>drbg_key := a\<rparr>)"
  "(set_v7 k r s)\<lparr>drbg_ctr := a\<rparr> = set_v7 k r (s\<lparr>drbg_ctr := a\<rparr>)"
  "(set_v7 k r s)\<lparr>drbg_seeded := b\<rparr> = set_v7 k r (s\<lparr>drbg_seeded := b\<rparr>)"
  "(set_v7 k r s)\<lparr>drbg_since_seed := n\<rparr> = set_v7 k r (s\<lparr>drbg_since_seed := n\<rparr>)"
  "(set_v7 k r s)\<lparr>rbuf := a\<rparr> = set_v7 k r (s\<lparr>rbuf := a\<rparr>)"
  "(set_v7 k r s)\<lparr>rpos := n\<rparr> = set_v7 k r (s\<lparr>rpos := n\<rparr>)"
  by (simp_all add: set_v7_def)

abbreviation lift_v7 :: "u64 \<Rightarrow> u64 \<Rightarrow> 'a \<times> 'b \<times> 'w st \<Rightarrow> 'a \<times> 'b \<times> 'w st" where
  "lift_v7 k r \<equiv> map_prod id (map_prod id (set_v7 k r))"

lemma os_random_frame: "os_random P dst (set_v7 k r s) = lift_v7 k r (os_random P dst s)"
  by (simp add: os_random_def Let_def set_v7_commute split: option.split)

lemma fu_drbg_reseed_frame: "fu_drbg_reseed P (set_v7 k r s) = map_prod id (set_v7 k r) (fu_drbg_reseed P s)"
  by (simp add: fu_drbg_reseed_def os_random_frame set_v7_commute split: prod.split zend_result.split)

lemma fu_drbg_chunk_frame: "fu_drbg_chunk B n (set_v7 k r s) = map_prod id (set_v7 k r) (fu_drbg_chunk B n s)"
  by (simp add: fu_drbg_chunk_def Let_def set_v7_commute)

lemma fu_drbg_fill_frame: "fu_drbg_fill P B dst (set_v7 k r s) = lift_v7 k r (fu_drbg_fill P B dst s)"
proof (induction P B dst s rule: fu_drbg_fill.induct)
  case (1 P B dst s)
  obtain rc s0 where r0: "fu_drbg_reseed P s = (rc, s0)" by fastforce
  show ?case
  proof (cases "dst = [] \<or> rc = FAILURE")
    case True
    then show ?thesis
      by (auto simp: fu_drbg_fill.simps [of P B dst] fu_drbg_reseed_frame r0)
  next
    case False
    then have ne: "dst \<noteq> []" and rc: "rc = SUCCESS" by (cases rc; simp)+
    define tk where "tk = (if length dst < FU_RBUF then length dst else FU_RBUF)"
    obtain c s1 where r1: "fu_drbg_chunk B tk s0 = (c, s1)" by fastforce
    have IH: "fu_drbg_fill P B (drop tk dst) (set_v7 k r s1) = lift_v7 k r (fu_drbg_fill P B (drop tk dst) s1)"
      using 1 [OF ne r0 [symmetric] rc refl tk_def r1 [symmetric]] by (simp add: id_def)
    show ?thesis
      using ne by (simp add: fu_drbg_fill.simps [of P B dst] fu_drbg_reseed_frame r0 rc Let_def
          tk_def [symmetric] fu_drbg_chunk_frame r1 IH)
  qed
qed

lemma fu_rand_fill_frame: "fu_rand_fill P dst (set_v7 k r s) = lift_v7 k r (fu_rand_fill P dst s)"
  by (simp add: fu_rand_fill_def os_random_frame fu_drbg_fill_frame split: option.split)

lemma fu_rand_n_frame: "fu_rand_n P n (set_v7 k r s) = lift_v7 k r (fu_rand_n P n s)"
  by (simp add: fu_rand_n_def fu_rand_def fu_rand_fill_frame fu_rand_serve_def Let_def set_v7_commute
      split: prod.split zend_result.split)

lemma fu_v7_increment_frame:
  "fu_v7_increment P key randb (set_v7 k r s) = map_prod id (set_v7 k r) (fu_v7_increment P key randb s)"
  by (simp add: fu_v7_increment_def fu_rand_n_frame Let_def zend_throw_def set_v7_commute
      split: prod.split zend_result.split)


text \<open>A clock that stands still: every reading is the same and taking one changes nothing.\<close>

definition clock_stalled :: "'w platform \<Rightarrow> bool" where
  "clock_stalled P \<longleftrightarrow> (\<exists>c. \<forall>w. clock P w = (c, w))"

lemma stalled_nanos:
  assumes "clock_stalled P" and "fu_unix_nanos P s = (Some ns, s1)"
  shows "s1 = s" and "fu_unix_nanos P s' = (Some ns, s')"
  using assms by (auto simp: clock_stalled_def fu_unix_nanos_def Let_def split: sum.splits)

text \<open>One more single call, once the mark has caught up with the clock.\<close>

lemma gen_v7_after:
  assumes nanos: "fu_unix_nanos P (set_v7 k r s) = (Some ns, set_v7 k r s)" and "v7_key_of ns \<le> k"
  shows "fu_gen_v7 P (set_v7 k r s) =
    (case fu_v7_increment P k r s of
       (None, s') \<Rightarrow> (None, set_v7 k r s')
     | (Some (k', r'), s') \<Rightarrow> (Some (fu_lay_v7 (drop_bit 12 k') (k' AND 0xfff) r'), set_v7 k' r' s'))"
proof -
  have "fu_v7_start P (v7_key_of ns) (set_v7 k r s) = map_prod id (set_v7 k r) (fu_v7_increment P k r s)"
    using leD [OF assms(2)] by (simp add: fu_v7_start_def fu_v7_increment_frame)
  then show ?thesis
    by (simp add: fu_gen_v7_def nanos split: prod.split option.split)
qed

lemma batch_loop_singles:
  assumes stalled: "clock_stalled P" and nanos: "fu_unix_nanos P s = (Some ns, s)"
    and "fu_inv s" "key < 2 ^ 60" "randb < 2 ^ 62" "v7_key_of ns \<le> key"
    and "v7_batch_loop P (\<lambda>b. b) n i key randb s = (SUCCESS, arr, key', randb', s')" and "0 < i"
  shows "run_calls (\<lambda>_. fu_gen_v7 P) [i..<n] (set_v7 key randb s) = (arr, set_v7 key' randb' s')"
  using assms(3-8) nanos
proof (induction "n - i" arbitrary: i key randb s arr)
  case 0
  then show ?case by (simp add: v7_batch_loop.simps [of P _ n i])
next
  case (Suc m)
  then have i: "i < n" and up: "[i..<n] = i # [i + 1..<n]" by (simp_all add: upt_rec [of i n])
  show ?case
  proof (rule fu_v7_increment_cases [OF Suc.prems(1-3), of P])
    fix k r s1 assume inc: "fu_v7_increment P key randb s = (Some (k, r), s1)" and gt: "V7_pos key randb < V7_pos k r"
      and ok: "pos_ok (V7_pos k r)" "fu_inv s1"
    have le: "v7_key_of ns \<le> k" using gt Suc.prems(4) by (auto simp: less_v7_pos_def)
    note n1 = stalled_nanos(2) [OF stalled Suc.prems(7)]
    obtain arr' where arr: "v7_batch_loop P (\<lambda>b. b) n (i + 1) k r s1 = (SUCCESS, arr', key', randb', s')"
      and e: "arr = fu_lay_v7 (drop_bit 12 k) (k AND 0xfff) r # arr'"
      using Suc.prems(5,6) i inc by (subst (asm) v7_batch_loop.simps) (auto split: prod.splits)
    have "run_calls (\<lambda>_. fu_gen_v7 P) [i + 1..<n] (set_v7 k r s1) = (arr', set_v7 key' randb' s')"
      using Suc.hyps(2) ok le arr n1 by (intro Suc.hyps(1)) (auto simp: pos_ok_def)
    then show ?thesis
      unfolding up by (simp add: Let_def gen_v7_after [OF n1 Suc.prems(4)] inc e)
  next
    fix s1 assume "fu_v7_increment P key randb s = (None, s1)"
    with Suc.prems(5,6) i show ?thesis by (subst (asm) v7_batch_loop.simps) auto
  qed
qed


lemma batch_zstr:
  "v7_batch_loop P zstr n i key randb s = map_prod id (map_prod (map zstr) id) (v7_batch_loop P (\<lambda>b. b) n i key randb s)"
proof (induction "n - i" arbitrary: i key randb s)
  case 0
  then show ?case by (simp add: v7_batch_loop.simps [of P _ n i])
next
  case (Suc m)
  then have i: "i < n" and m: "m = n - (i + 1)" by simp_all
  show ?case
    unfolding v7_batch_loop.simps [of P _ n i] Suc.hyps(1) [OF m] using i
    by (simp split: prod.split option.split)
qed

lemma batch_length:
  "v7_batch_loop P zstr n i key randb s = (SUCCESS, arr, res) \<Longrightarrow> length arr = n - i"
proof (induction "n - i" arbitrary: i key randb s arr)
  case 0
  then show ?case by (simp add: v7_batch_loop.simps [of P _ n i])
next
  case (Suc m)
  then have i: "i < n" and m: "m = n - (i + 1)" by simp_all
  show ?case
    using Suc.prems i Suc.hyps(1) [OF m]
    by (subst (asm) v7_batch_loop.simps) (auto split: prod.splits option.splits if_splits)
qed

text \<open>C13: on a clock that stands still a batch of \<open>n\<close> returns exactly what \<open>n\<close> single calls would have
  returned, and leaves the same state: the same version 7 mark, the same random bytes consumed.\<close>

theorem fu_gen_v7_batch_singles:
  assumes "fu_inv s" and "clock_stalled P" and "0 < n"
    and "fu_gen_v7_batch_n P h n as_bytes s = (SUCCESS, arr, s')"
  shows "\<exists>bs. run_calls (\<lambda>_. fu_gen_v7 P) [0..<n] s = (bs, s') \<and> length bs = n \<and>
    arr = map (\<lambda>b. fu_uuid_zstr h b as_bytes) bs"
proof (rule fu_unix_nanos_cases [OF assms(1), of P])
  fix ns s1 assume "fu_unix_nanos P s = (Some ns, s1)"
  then have nanos: "fu_unix_nanos P s = (Some ns, s)" using stalled_nanos(1) [OF assms(2)] by blast
  note nanos' = stalled_nanos(2) [OF assms(2) nanos]
  show ?thesis
  proof (rule fu_v7_start_cases [OF assms(1) v7_key_of_less, of P ns])
    fix k r s2 assume start: "fu_v7_start P (v7_key_of ns) s = (Some (k, r), s2)" and ok: "pos_ok (V7_pos k r)"
      and le: "v7_key_of ns \<le> k" and inv: "fu_inv s2"
    obtain n' where n: "n = Suc n'" using assms(3) by (cases n) auto
    have up: "[0..<n] = 0 # [1..<n]" using assms(3) by (simp add: upt_rec [of 0 n])
    obtain rc bs k' r' s3 where loop: "v7_batch_loop P (\<lambda>b. b) n 1 k r s2 = (rc, bs, k', r', s3)"
      by (cases "v7_batch_loop P (\<lambda>b. b) n 1 k r s2")
    let ?b = "fu_lay_v7 (drop_bit 12 k) (k AND 0xfff) r"
    have l0: "v7_batch_loop P (\<lambda>b. b) n 0 k r s2 = (rc, ?b # bs, k', r', s3)"
      using assms(3) loop by (subst v7_batch_loop.simps) simp
    have e: "rc = SUCCESS" "arr = map (\<lambda>b. fu_uuid_zstr h b as_bytes) (?b # bs)" "s' = set_v7 k' r' s3"
      using assms(4) by (simp_all add: fu_gen_v7_batch_n_def nanos start batch_zstr [of P "\<lambda>b. fu_uuid_zstr h b as_bytes" n 0] l0)
    have rest: "run_calls (\<lambda>_. fu_gen_v7 P) [1..<n] (set_v7 k r s2) = (bs, s')"
      using batch_loop_singles [OF assms(2) nanos' inv _ _ le loop [unfolded e(1)]] ok e(3)
      by (simp add: pos_ok_def)
    have "fu_gen_v7 P s = (Some ?b, set_v7 k r s2)" by (simp add: fu_gen_v7_def nanos start)
    then have "run_calls (\<lambda>_. fu_gen_v7 P) [0..<n] s = (?b # bs, s')"
      unfolding up using rest by (simp add: Let_def)
    moreover have "length (?b # bs) = n" using batch_length [OF l0 [unfolded e(1)]] by simp
    ultimately show ?thesis using e(2) by blast
  next
    fix s2 assume "fu_v7_start P (v7_key_of ns) s = (None, s2)"
    with assms(4) nanos show ?thesis by (simp add: fu_gen_v7_batch_n_def)
  qed
next
  fix s1 assume "fu_unix_nanos P s = (None, s1)"
  with assms(4) show ?thesis by (simp add: fu_gen_v7_batch_n_def)
qed

theorem fu_gen_v7_batch_singles_witness:
  "\<exists>bs s'. run_calls (\<lambda>_. fu_gen_v7 sample_platform) [0..<2] ((fu_boot 7)\<lparr>rpos := 0\<rparr>) = (bs, s') \<and> length bs = 2"
proof -
  let ?s = "(fu_boot (7 :: nat))\<lparr>rpos := 0\<rparr>"
  have inv: "fu_inv ?s" by (rule fu_inv_rand_updates) (simp_all add: fu_inv_boot)
  have st: "clock_stalled sample_platform" by (simp add: clock_stalled_def sample_platform_def)
  obtain arr s' where "fu_gen_v7_batch_n sample_platform FU_NO_SIMD 2 True ?s = (SUCCESS, arr, s')"
    by (simp add: fu_gen_v7_batch_n_def fu_unix_nanos_def sample_platform_def UINT64_MAX_def fu_v7_start_def
        fu_rand_u64_def fu_rand_n_def fu_rand_def fu_rand_serve_def fu_boot_def fu_ginit_def FU_RBUF_def
        globals.extend_def v7_batch_loop.simps fu_v7_increment_def FU_RANDB_MASK_def)
  from fu_gen_v7_batch_singles [OF inv st _ this] show ?thesis by auto
qed

subsection \<open>The batch keeps the order\<close>

lemma batch_positions:
  assumes "fu_inv s" and "pos_ok (V7_pos key randb)"
    and "v7_batch_loop P (\<lambda>b. b) n i key randb s = (rc, arr, key', randb', s')"
  shows "\<exists>ps. arr = map pos_bytes ps \<and> sorted_wrt (<) ps \<and>
    (\<forall>p \<in> set ps. pos_ok p \<and> V7_pos key randb \<le> p \<and> (0 < i \<longrightarrow> V7_pos key randb < p)) \<and>
    pos_ok (V7_pos key' randb') \<and> last (V7_pos key randb # ps) = V7_pos key' randb' \<and>
    fu_inv s' \<and> gen_marks s' = gen_marks s \<and> (if rc = SUCCESS then EG_exception s' = EG_exception s else EG_exception s' \<noteq> None)"
  using assms
proof (induction "n - i" arbitrary: i key randb s arr)
  case 0
  then show ?case by (auto simp: v7_batch_loop.simps [of P _ n i])
next
  case (Suc m)
  then have i: "i < n" and m: "m = n - (i + 1)" by simp_all
  have b: "key < 2 ^ 60" "randb < 2 ^ 62" using Suc.prems(2) by (simp_all add: pos_ok_def)
  let ?inc = "if 0 < i then fu_v7_increment P key randb s else (Some (key, randb), s)"
  have "(\<exists>k r s1. ?inc = (Some (k, r), s1) \<and> V7_pos key randb \<le> V7_pos k r \<and> (0 < i \<longrightarrow> V7_pos key randb < V7_pos k r) \<and>
          pos_ok (V7_pos k r) \<and> fu_inv s1 \<and> gen_marks s1 = gen_marks s \<and> EG_exception s1 = EG_exception s) \<or>
      (\<exists>s1. ?inc = (None, s1) \<and> fu_inv s1 \<and> gen_marks s1 = gen_marks s \<and> EG_exception s1 \<noteq> None)"
  proof (cases "0 < i")
    case True
    show ?thesis
      by (rule fu_v7_increment_cases [OF Suc.prems(1) b, of P]) (use True in \<open>simp_all add: less_imp_le\<close>)
  next
    case False
    with Suc.prems show ?thesis by simp
  qed
  then show ?case
  proof (elim disjE exE conjE)
    fix s1 assume "?inc = (None, s1)" "fu_inv s1" "gen_marks s1 = gen_marks s" "EG_exception s1 \<noteq> None"
    with Suc.prems(2,3) i show ?thesis
      by (subst (asm) v7_batch_loop.simps) (auto split: if_splits)
  next
    fix k r s1 assume inc: "?inc = (Some (k, r), s1)" and le: "V7_pos key randb \<le> V7_pos k r"
      and less: "0 < i \<longrightarrow> V7_pos key randb < V7_pos k r" and s1: "pos_ok (V7_pos k r)" "fu_inv s1"
      "gen_marks s1 = gen_marks s" "EG_exception s1 = EG_exception s"
    obtain arr' where arr': "v7_batch_loop P (\<lambda>b. b) n (i + 1) k r s1 = (rc, arr', key', randb', s')"
      and arr: "arr = pos_bytes (V7_pos k r) # arr'"
      using Suc.prems(3) i inc
      by (subst (asm) v7_batch_loop.simps) (auto simp: pos_bytes_def v7_bytes_def split: prod.splits)
    from Suc.hyps(1) [OF m s1(2,1) arr'] obtain ps where ps: "arr' = map pos_bytes ps" "sorted_wrt (<) ps"
      "\<forall>p \<in> set ps. pos_ok p \<and> V7_pos k r < p" "pos_ok (V7_pos key' randb')"
      "last (V7_pos k r # ps) = V7_pos key' randb'" "fu_inv s'" "gen_marks s' = gen_marks s1"
      "if rc = SUCCESS then EG_exception s' = EG_exception s1 else EG_exception s' \<noteq> None"
      by auto
    then show ?thesis
      using arr le less s1 by (intro exI [of _ "V7_pos k r # ps"]) (auto intro: order_le_less_trans order_less_trans less_imp_le)
  qed
qed


lemma v7_batch_facts:
  assumes "fu_inv s" and "0 < n" and "fu_gen_v7_batch_n P h n as_bytes s = (rc, arr, s')"
  shows "fu_inv s' \<and> sorted_wrt (\<lambda>x y. memcmp x y < 0) arr \<and>
    (\<exists>ps. arr = map (\<lambda>p. fu_uuid_zstr h (pos_bytes p) as_bytes) ps \<and> (\<forall>p \<in> set ps. pos_ok p \<and> v7_mark s < Some p) \<and>
       v7_mark s' = (if ps = [] then v7_mark s else Some (last ps))) \<and>
    (if rc = SUCCESS then length arr = n \<and> EG_exception s' = EG_exception s else EG_exception s' \<noteq> None)"
proof (rule fu_unix_nanos_cases [OF assms(1), of P])
  fix ns s1 assume nanos: "fu_unix_nanos P s = (Some ns, s1)" "fu_inv s1" "gen_marks s1 = gen_marks s"
    "EG_exception s1 = EG_exception s"
  show ?thesis
  proof (rule fu_v7_start_cases [OF nanos(2) v7_key_of_less, of P ns])
    fix k r s2 assume start: "fu_v7_start P (v7_key_of ns) s1 = (Some (k, r), s2)" "v7_mark s1 < Some (V7_pos k r)"
      and s2: "pos_ok (V7_pos k r)" "fu_inv s2" "gen_marks s2 = gen_marks s1" "EG_exception s2 = EG_exception s1"
    let ?zstr = "\<lambda>b. fu_uuid_zstr h b as_bytes"
    obtain rc' bs k' r' s3 where loop: "v7_batch_loop P (\<lambda>b. b) n 0 k r s2 = (rc', bs, k', r', s3)"
      by (cases "v7_batch_loop P (\<lambda>b. b) n 0 k r s2")
    have e: "rc' = rc" "arr = map ?zstr bs" "s' = set_v7 k' r' s3"
      using assms(3) by (simp_all add: fu_gen_v7_batch_n_def nanos start batch_zstr [of P ?zstr n 0] loop)
    from batch_positions [OF s2(2,1) loop] obtain ps where ps: "bs = map pos_bytes ps" "sorted_wrt (<) ps"
      "\<forall>p \<in> set ps. pos_ok p \<and> V7_pos k r \<le> p" "pos_ok (V7_pos k' r')" "last (V7_pos k r # ps) = V7_pos k' r'"
      "fu_inv s3" "if rc' = SUCCESS then EG_exception s3 = EG_exception s2 else EG_exception s3 \<noteq> None"
      by blast
    have ne: "ps \<noteq> []"
      using loop assms(2) ps(1) by (subst (asm) v7_batch_loop.simps) (auto split: prod.splits)
    have len: "rc' = SUCCESS \<Longrightarrow> length arr = n" using batch_length [of P _ n 0] loop e(2) by fastforce
    have above: "v7_mark s < Some p" if "p \<in> set ps" for p
    proof -
      have "v7_mark s < Some (V7_pos k r)" using start(2) v7_mark_cong [OF nanos(3)] by simp
      also have "Some (V7_pos k r) \<le> Some p" using ps(3) that by simp
      finally show ?thesis .
    qed
    have order: "memcmp (?zstr (pos_bytes p)) (?zstr (pos_bytes q)) < 0"
      if "p \<in> set ps" "q \<in> set ps" "p < q" for p q
      using that ps(3) by (simp add: fu_uuid_zstr_def fu_format36_memcmp memcmp_less_iff pos_bytes_less_iff)
    have "sorted_wrt (\<lambda>x y. memcmp x y < 0) arr"
      unfolding e(2) ps(1) map_map o_def using ps(2) order by (rule sorted_wrt_map_mono)
    moreover have "fu_inv s'" unfolding e(3) by (rule fu_inv_set_v7 [OF ps(6,4)])
    moreover have "v7_mark s' = (if ps = [] then v7_mark s else Some (last ps))"
      using ne ps(5) unfolding e(3) by simp
    moreover have "if rc = SUCCESS then length arr = n \<and> EG_exception s' = EG_exception s else EG_exception s' \<noteq> None"
      using ps(7) len e(1) s2(4) nanos(4) unfolding e(3) by (simp split: if_splits)
    ultimately show ?thesis using above e(2) ps(1,3) by (auto intro!: exI [of _ ps])
  next
    fix s2 assume "fu_v7_start P (v7_key_of ns) s1 = (None, s2)" "fu_inv s2" "gen_marks s2 = gen_marks s1"
      "EG_exception s2 \<noteq> None"
    with assms(3) nanos v7_mark_cong [of s2 s1] v7_mark_cong [of s1 s] show ?thesis
      by (auto simp: fu_gen_v7_batch_n_def)
  qed
next
  fix s1 assume "fu_unix_nanos P s = (None, s1)" "fu_inv s1" "gen_marks s1 = gen_marks s" "EG_exception s1 \<noteq> None"
  with assms(3) v7_mark_cong [of s1 s] show ?thesis by (auto simp: fu_gen_v7_batch_n_def)
qed

text \<open>C4: a batch of version 7 UUIDs, complete or cut short by a failure, keeps the order: its elements
  are strictly increasing and, as bytes, above the mark, which is the last and so the greatest version 7 UUID
  the process issued before; the mark is left on the last element issued, so the next call continues above it.
  Every position is in range, so different positions are different UUIDs.  A complete batch has
  exactly \<open>n\<close> elements and throws nothing; a short one has thrown.\<close>

theorem fu_gen_v7_batch_increasing:
  assumes "fu_inv s" and "0 < n" and "fu_gen_v7_batch_n P h n as_bytes s = (rc, arr, s')"
  shows "fu_inv s' \<and> sorted_wrt (\<lambda>x y. memcmp x y < 0) arr \<and>
    (\<exists>ps. arr = map (\<lambda>p. fu_uuid_zstr h (pos_bytes p) as_bytes) ps \<and>
       (\<forall>p \<in> set ps. pos_ok p \<and> v7_mark s < Some p \<and>
          (\<forall>q. v7_mark s = Some q \<longrightarrow> memcmp (pos_bytes q) (pos_bytes p) < 0)) \<and>
       v7_mark s' = (if ps = [] then v7_mark s else Some (last ps))) \<and>
    (\<forall>q. v7_mark s = Some q \<longrightarrow> pos_ok q) \<and>
    (if rc = SUCCESS then length arr = n \<and> EG_exception s' = EG_exception s else EG_exception s' \<noteq> None)"
proof -
  note facts = v7_batch_facts [OF assms]
  have above: "memcmp (pos_bytes q) (pos_bytes p) < 0" if "pos_ok p" "v7_mark s < Some p" "v7_mark s = Some q" for p q
    using that v7_mark_ok [OF assms(1) that(3)] by (simp add: memcmp_less_iff pos_bytes_less_iff)
  have "\<forall>q. v7_mark s = Some q \<longrightarrow> pos_ok q" using v7_mark_ok [OF assms(1)] by blast
  with facts above show ?thesis by blast
qed

theorem fu_gen_v7_batch_increasing_witness:
  "\<exists>rc arr s'. fu_gen_v7_batch_n sample_platform (FU_X86 True) 3 False (fu_boot 7) = (rc, arr, s') \<and>
     sorted_wrt (\<lambda>x y. memcmp x y < 0) arr"
proof -
  obtain rc arr s' where "fu_gen_v7_batch_n sample_platform (FU_X86 True) 3 False (fu_boot 7) = (rc, arr, s')"
    by (cases "fu_gen_v7_batch_n sample_platform (FU_X86 True) 3 False (fu_boot 7)")
  with fu_gen_v7_batch_increasing [OF fu_inv_boot _ this] show ?thesis by auto
qed

lemma gen_v7_total:
  assumes "fu_inv s" and "entropy_ok P" and "clock_nanos (fst (clock P (world s))) = Inr ns"
    and "v7_key s < 2 ^ 60 - 1"
  shows "\<exists>b s'. fu_gen_v7 P s = (Some b, s') \<and> EG_exception s' = EG_exception s \<and>
    (v7_key s' = v7_key_of ns \<or> v7_key s' = v7_key s \<or> v7_key s' = v7_key s + 1)"
proof -
  define s1 where "s1 = s\<lparr>world := snd (clock P (world s))\<rparr>"
  have nanos: "fu_unix_nanos P s = (Some ns, s1)"
    using assms(3) by (simp add: fu_unix_nanos_def Let_def s1_def)
  have s1: "fu_inv s1" "v7_key s1 = v7_key s" "EG_exception s1 = EG_exception s"
    using assms(1) by (simp_all add: s1_def fu_inv_world)
  have ok: "fst (fu_rand_n P n s1) = SUCCESS" for n using fu_rand_total [OF assms(2)] by (simp add: fu_rand_n_def)
  have key: "v7_key s \<noteq> push_bit 60 1 - 1" using assms(4) by auto
  have draw: "\<exists>r s'. fu_rand_n P n s1 = (SUCCESS, r, s') \<and> EG_exception s' = EG_exception s1" for n
    by (rule fu_rand_n_cases [OF s1(1), of P n]) (use ok [of n] in auto)
  obtain r3 s3 where r3: "fu_rand_n P 3 s1 = (SUCCESS, r3, s3)" "EG_exception s3 = EG_exception s1"
      "v7_key s3 = v7_key s1"
    by (rule fu_rand_n_cases [OF s1(1), of P 3]) (use ok [of 3] in \<open>auto simp: gen_marks_iff\<close>)
  obtain r8 s8 where r8: "fu_rand_n P 8 s1 = (SUCCESS, r8, s8)" "EG_exception s8 = EG_exception s1"
    using draw [of 8] by blast
  show ?thesis
  proof (cases "\<not> v7_initialized s1 \<or> v7_key s1 < v7_key_of ns")
    case True
    then show ?thesis
      using r8 s1 by (simp add: fu_gen_v7_def nanos fu_v7_start_def fu_rand_u64_eq)
  next
    case False
    then have "\<exists>k r. fu_v7_start P (v7_key_of ns) s1 = (Some (k, r), s3) \<and> (k = v7_key s \<or> k = v7_key s + 1)"
      using r3 key s1(2) by (simp add: fu_v7_start_def fu_v7_increment_def Let_def)
    then show ?thesis using r3(2) s1(3) by (auto simp: fu_gen_v7_def nanos)
  qed
qed

text \<open>C14: the generator gives up only for a reason: with a usable clock reading, an OS source that does
  not fail and a mark below the last 60-bit key, a call returns a UUID, throws nothing and moves the
  time key to the reading or by at most one.\<close>

theorem fu_gen_v7_total:
  assumes "fu_inv s" and "entropy_ok P" and "clock_nanos (fst (clock P (world s))) = Inr ns"
    and "v7_key s < 2 ^ 60 - 1"
  shows "\<exists>b s'. fu_gen_v7 P s = (Some b, s') \<and> EG_exception s' = EG_exception s \<and>
    (v7_key s' = v7_key_of ns \<or> v7_key s' = v7_key s \<or> v7_key s' = v7_key s + 1)"
  using assms by (rule gen_v7_total)

theorem fu_gen_v7_total_witness:
  "\<exists>b s'. fu_gen_v7 sample_platform (fu_boot 7) = (Some b, s')"
proof -
  have "clock_nanos (fst (clock sample_platform (world (fu_boot 7)))) = Inr 1700000000123456789"
    by (simp add: sample_platform_def UINT64_MAX_def)
  moreover have "entropy_ok sample_platform" by (simp add: entropy_ok_def sample_platform_def)
  moreover have "v7_key (fu_boot (7 :: nat)) < 2 ^ 60 - 1"
    by (simp add: fu_boot_def globals.extend_def fu_ginit_def)
  ultimately show ?thesis using fu_gen_v7_total [OF fu_inv_boot [of 7]] by blast
qed

end
