(* ===== verification/Fu_Gen.thy ===== *)
theory Fu_Gen
  imports Fu_V7
begin

section \<open>The other generators\<close>

text \<open>
  Versions 1, 2, 3, 4, 5, 6 and 8: \<open>fu_gen_v1_ex\<close>, \<open>fu_gen_v2\<close>, \<open>fu_gen_v3\<close>, \<open>fu_gen_v4\<close>,
  \<open>fu_gen_v4_fast\<close>, \<open>fu_gen_v5\<close>, \<open>fu_gen_v6_ex\<close>, \<open>fu_gen_v8\<close> and the version 4 batch.  A generator
  returns the 16 bytes, or \<open>None\<close> for \<open>FAILURE\<close> (an exception is then pending).
\<close>

subsection \<open>Version 4\<close>

definition fu_gen_v4 :: "'w platform \<Rightarrow> 'w st \<Rightarrow> byte list option \<times> 'w st" where
  "fu_gen_v4 P s =
     (case fu_rand_n P 16 s of
        (FAILURE, b, s) \<Rightarrow> (None, s)
      | (SUCCESS, b, s) \<Rightarrow> (Some (fu_set_ver_var b 0x40), s))"

definition fu_gen_v4_fast :: "'w platform \<Rightarrow> 'w st \<Rightarrow> byte list option \<times> 'w st" where
  "fu_gen_v4_fast P s =
     (case fu_xs_next P s of
        (a, s) \<Rightarrow>
          if EG_exception s \<noteq> None then (None, s)
          else (case fu_xs_next P s of
                  (c, s) \<Rightarrow> (Some (fu_set_ver_var (le_store 8 a @ le_store 8 c) 0x40), s)))"

subsection \<open>Versions 1, 6 and 2\<close>

definition fu_gen_v1_ex :: "'w platform \<Rightarrow> byte list option \<Rightarrow> int \<Rightarrow> 'w st \<Rightarrow> byte list option \<times> 'w st" where
  "fu_gen_v1_ex P node clockseq s =
     (case fu_greg_monotonic P s of
        (None, s) \<Rightarrow> (None, s)
      | (Some g, s) \<Rightarrow> fu_lay_v1 P g node clockseq s)"

definition fu_gen_v1 :: "'w platform \<Rightarrow> 'w st \<Rightarrow> byte list option \<times> 'w st" where
  "fu_gen_v1 P = fu_gen_v1_ex P None (- 1)"

definition fu_gen_v6_ex :: "'w platform \<Rightarrow> byte list option \<Rightarrow> int \<Rightarrow> 'w st \<Rightarrow> byte list option \<times> 'w st" where
  "fu_gen_v6_ex P node clockseq s =
     (case fu_greg_monotonic P s of
        (None, s) \<Rightarrow> (None, s)
      | (Some g, s) \<Rightarrow> fu_lay_v6 P g node clockseq s)"

definition fu_gen_v6 :: "'w platform \<Rightarrow> 'w st \<Rightarrow> byte list option \<times> 'w st" where
  "fu_gen_v6 P = fu_gen_v6_ex P None (- 1)"

text \<open>What version 2 overwrites in a version 1 layout.\<close>

definition v2_stamp :: "u32 \<Rightarrow> byte \<Rightarrow> byte list \<Rightarrow> byte list" where
  "v2_stamp local_id local_domain b =
     (let b = b[0 := ucast (drop_bit 24 local_id AND 0xff), 1 := ucast (drop_bit 16 local_id AND 0xff),
                2 := ucast (drop_bit 8 local_id AND 0xff), 3 := ucast (local_id AND 0xff)];
          b = b[6 := (b ! 6 AND 0x0f) OR 0x20]
      in b[9 := local_domain])"

definition fu_gen_v2 :: "'w platform \<Rightarrow> u32 \<Rightarrow> byte \<Rightarrow> byte list option \<Rightarrow> int \<Rightarrow> bool \<Rightarrow> 'w st \<Rightarrow>
    byte list option \<times> 'w st" where
  "fu_gen_v2 P local_id local_domain node clockseq monotonic s =
     (case (if monotonic then fu_v2_monotonic P s else fu_greg_now P s) of
        (None, s) \<Rightarrow> (None, s)
      | (Some g, s) \<Rightarrow>
          (case fu_lay_v1 P g node clockseq s of
             (None, s) \<Rightarrow> (None, s)
           | (Some b, s) \<Rightarrow> (Some (v2_stamp local_id local_domain b), s)))"

subsection \<open>Versions 3, 5 and 8\<close>

text \<open>The engine's streaming digests (\<open>PHP_MD5*\<close>, \<open>PHP_SHA1*\<close>) are parameters; the law states that
  the result depends only on the bytes fed in.\<close>

record 'c digest =
  Init :: 'c
  Update :: "'c \<Rightarrow> byte list \<Rightarrow> 'c"
  Final :: "'c \<Rightarrow> byte list"

definition digest_law :: "'c digest \<Rightarrow> nat \<Rightarrow> (byte list \<Rightarrow> byte list) \<Rightarrow> bool" where
  "digest_law D n hash \<longleftrightarrow>
     (\<forall>chunks. Final D (foldl (Update D) (Init D) chunks) = hash (concat chunks)) \<and>
     (\<forall>x. length (hash x) = n)"

definition FU_MAX_NAME_BYTES :: nat where
  "FU_MAX_NAME_BYTES = 16 * 1024 * 1024"

definition fu_name_len_ok :: "nat \<Rightarrow> 'w st \<Rightarrow> bool \<times> 'w st" where
  "fu_name_len_ok nl s =
     (if FU_MAX_NAME_BYTES < nl
      then (False, zend_throw InvalidArgumentException ''name is too large (max 16777216 bytes)'' s)
      else (True, s))"

text \<open>\<open>None\<close>: the function returned with \<open>b\<close> unwritten.\<close>

definition fu_gen_v3 :: "'c digest \<Rightarrow> byte list \<Rightarrow> byte list \<Rightarrow> 'w st \<Rightarrow> byte list option \<times> 'w st" where
  "fu_gen_v3 MD5 ns name s =
     (case fu_name_len_ok (length name) s of
        (False, s) \<Rightarrow> (None, s)
      | (True, s) \<Rightarrow>
          (let c = Init MD5;
               c = Update MD5 c ns;
               c = Update MD5 c name;
               d = Final MD5 c
           in (Some (fu_set_ver_var (take 16 d) 0x30), s)))"

definition fu_gen_v5 :: "'c digest \<Rightarrow> byte list \<Rightarrow> byte list \<Rightarrow> 'w st \<Rightarrow> byte list option \<times> 'w st" where
  "fu_gen_v5 SHA1 ns name s =
     (case fu_name_len_ok (length name) s of
        (False, s) \<Rightarrow> (None, s)
      | (True, s) \<Rightarrow>
          (let c = Init SHA1;
               c = Update SHA1 c ns;
               c = Update SHA1 c name;
               d = Final SHA1 c
           in (Some (fu_set_ver_var (take 16 d) 0x50), s)))"

definition fu_gen_v8 :: "byte list \<Rightarrow> byte list" where
  "fu_gen_v8 data = fu_set_ver_var (take 16 data) 0x80"

subsection \<open>The version 4 batch\<close>

definition FU_V4_CHUNK :: nat where
  "FU_V4_CHUNK = 64"

text \<open>The inner loop: element \<open>i\<close> is the \<open>i\<close>-th 16 bytes of the chunk, stamped.\<close>

definition v4_chunk_elems :: "(byte list \<Rightarrow> byte list) \<Rightarrow> nat \<Rightarrow> byte list \<Rightarrow> byte list list" where
  "v4_chunk_elems zstr tk chunk = map (\<lambda>i. zstr (fu_set_ver_var (take 16 (drop (i * 16) chunk)) 0x40)) [0..<tk]"

function v4_batch_loop :: "'w platform \<Rightarrow> (byte list \<Rightarrow> byte list) \<Rightarrow> nat \<Rightarrow> nat \<Rightarrow> 'w st \<Rightarrow>
    zend_result \<times> byte list list \<times> 'w st" where
  "v4_batch_loop P zstr n k s =
     (if k < n then
        (let tk = (if FU_V4_CHUNK < n - k then FU_V4_CHUNK else n - k)
         in case fu_rand_n P (tk * 16) s of
              (FAILURE, chunk, s) \<Rightarrow> (FAILURE, [], s)
            | (SUCCESS, chunk, s) \<Rightarrow>
                (case v4_batch_loop P zstr n (k + tk) s of
                   (rc, arr, s) \<Rightarrow> (rc, v4_chunk_elems zstr tk chunk @ arr, s)))
      else (SUCCESS, [], s))"
  by pat_completeness auto
termination
  by (relation "measure (\<lambda>(P, zstr, n, k, s). n - k)") (auto simp: FU_V4_CHUNK_def)

declare v4_batch_loop.simps [simp del]

definition fu_gen_v4_batch_n :: "'w platform \<Rightarrow> fu_simd \<Rightarrow> nat \<Rightarrow> bool \<Rightarrow> 'w st \<Rightarrow>
    zend_result \<times> byte list list \<times> 'w st" where
  "fu_gen_v4_batch_n P h n as_bytes s = v4_batch_loop P (\<lambda>b. fu_uuid_zstr h b as_bytes) n 0 s"

subsection \<open>Timestamps of versions 1 and 6\<close>

text \<open>What the argument parsers guarantee of a node and a clock sequence.\<close>

definition args_ok :: "byte list option \<Rightarrow> int \<Rightarrow> bool" where
  "args_ok node clockseq \<longleftrightarrow> (\<forall>n. node = Some n \<longrightarrow> length n = 6) \<and> clockseq < 16384"

text \<open>Both generators are a Gregorian tick, a head that holds the timestamp, and the common tail.\<close>

definition greg_gen :: "(u64 \<Rightarrow> byte list) \<Rightarrow> 'w platform \<Rightarrow> byte list option \<Rightarrow> int \<Rightarrow> 'w st \<Rightarrow> byte list option \<times> 'w st" where
  "greg_gen head P node clockseq s =
     (case fu_greg_monotonic P s of
        (None, s) \<Rightarrow> (None, s)
      | (Some g, s) \<Rightarrow> map_prod (map_option ((@) (head g))) id (fu_lay_clockseq_node P node clockseq s))"

lemma fu_lay_v1_eq: "fu_lay_v1 P g node cs s = map_prod (map_option ((@) (v1_head g))) id (fu_lay_clockseq_node P node cs s)"
  and fu_lay_v6_eq: "fu_lay_v6 P g node cs s = map_prod (map_option ((@) (v6_head g))) id (fu_lay_clockseq_node P node cs s)"
  by (simp_all add: fu_lay_v1_def fu_lay_v6_def split: prod.split option.split)

lemma fu_gen_v1_ex_eq: "fu_gen_v1_ex = greg_gen v1_head"
  and fu_gen_v6_ex_eq: "fu_gen_v6_ex = greg_gen v6_head"
  by (auto simp: fun_eq_iff fu_gen_v1_ex_def fu_gen_v6_ex_def greg_gen_def fu_lay_v1_eq fu_lay_v6_eq
      split: prod.split option.split)

lemma greg_gen_cases:
  assumes "fu_inv s" and "args_ok node clockseq"
  obtains (ok) g n cs s' where "greg_gen head P node clockseq s = (Some (head g @ put_clockseq_node n cs), s')"
      "greg_last s < g" "greg_last s' = g" "g < 2 ^ 60" "gen_marks s' = gen_marks (s\<lparr>greg_last := g\<rparr>)"
      "length n = 6" "0 \<le> cs" "cs < 16384" "0 \<le> clockseq \<longrightarrow> cs = clockseq"
      "case node of Some n' \<Rightarrow> n = n' | None \<Rightarrow> bit (n ! 0) 0"
      "fu_inv s'" "EG_exception s' = EG_exception s"
    | (fail) s' where "greg_gen head P node clockseq s = (None, s')" "fu_inv s'" "EG_exception s' \<noteq> None"
      "greg_last s \<le> greg_last s'" "gen_marks s' = gen_marks (s\<lparr>greg_last := greg_last s'\<rparr>)"
proof (rule fu_greg_monotonic_cases [OF assms(1), of P])
  fix g s1 assume g: "fu_greg_monotonic P s = (Some g, s1)" "greg_last s < g" "greg_last s1 = g" "g < 2 ^ 60"
    "fu_inv s1" "gen_marks s1 = gen_marks (s\<lparr>greg_last := g\<rparr>)" "EG_exception s1 = EG_exception s"
  show ?thesis
  proof (rule fu_lay_clockseq_node_cases [OF g(5), of node clockseq P])
    show "\<And>n. node = Some n \<Longrightarrow> length n = 6" "clockseq < 16384" using assms(2) by (simp_all add: args_ok_def)
  next
    fix n cs s' assume l: "fu_lay_clockseq_node P node clockseq s1 = (Some (put_clockseq_node n cs), s')"
      "length n = 6" "0 \<le> cs" "cs < 16384" "0 \<le> clockseq \<longrightarrow> cs = clockseq"
      "case node of Some n' \<Rightarrow> n = n' | None \<Rightarrow> bit (n ! 0) 0"
      "fu_inv s'" "gen_marks s' = gen_marks s1" "EG_exception s' = EG_exception s1"
    have "greg_last s' = g" using l(8) g(3) by (simp add: gen_marks_iff)
    with g l show ?thesis by (intro ok [of g n cs s']) (simp_all add: greg_gen_def)
  next
    fix s' assume l: "fu_lay_clockseq_node P node clockseq s1 = (None, s')" "fu_inv s'"
      "gen_marks s' = gen_marks s1" "EG_exception s' \<noteq> None"
    have "greg_last s' = g" using l(3) g(3) by (simp add: gen_marks_iff)
    with g l show ?thesis by (intro fail [of s']) (simp_all add: greg_gen_def)
  qed
next
  fix s' assume g: "fu_greg_monotonic P s = (None, s')" "fu_inv s'" "gen_marks s' = gen_marks s"
    "EG_exception s' \<noteq> None"
  then have "greg_last s' = greg_last s" by (simp add: gen_marks_iff)
  with g show ?thesis by (intro fail [of s']) (simp_all add: greg_gen_def gen_marks_iff)
qed

text \<open>One call of either generator; the platform (and with it the clock) may differ from call to call.\<close>

datatype greg_call = Call_v1 "byte list option" int | Call_v6 "byte list option" int

fun greg_tick :: "'w platform \<times> greg_call \<Rightarrow> 'w st \<Rightarrow> byte list option \<times> 'w st" where
  "greg_tick (P, Call_v1 node cs) = fu_gen_v1_ex P node cs"
| "greg_tick (P, Call_v6 node cs) = fu_gen_v6_ex P node cs"

fun greg_valid :: "'w platform \<times> greg_call \<Rightarrow> bool" where
  "greg_valid (P, Call_v1 node cs) = args_ok node cs"
| "greg_valid (P, Call_v6 node cs) = args_ok node cs"

lemma greg_tick_cases:
  assumes "fu_inv s" and "greg_valid i"
  obtains (ok) b s' where "greg_tick i s = (Some b, s')" "length b = 16" "unat (greg_last s) < time60 b"
      "unat (greg_last s') = time60 b" "fu_inv s'" "EG_exception s' = EG_exception s"
      "gen_marks s' = gen_marks (s\<lparr>greg_last := greg_last s'\<rparr>)"
    | (fail) s' where "greg_tick i s = (None, s')" "fu_inv s'" "EG_exception s' \<noteq> None"
      "greg_last s \<le> greg_last s'" "gen_marks s' = gen_marks (s\<lparr>greg_last := greg_last s'\<rparr>)"
proof -
  obtain P node cs where i: "i = (P, Call_v1 node cs) \<or> i = (P, Call_v6 node cs)"
    by (cases i; metis greg_call.exhaust)
  then have args: "args_ok node cs" using assms(2) by auto
  have v1: "thesis" if "i = (P, Call_v1 node cs)"
    by (rule greg_gen_cases [OF assms(1) args, of v1_head P])
       (use that ok fail in \<open>auto simp: fu_gen_v1_ex_eq time60_v1 word_less_nat_alt\<close>)
  have v6: "thesis" if "i = (P, Call_v6 node cs)"
    by (rule greg_gen_cases [OF assms(1) args, of v6_head P])
       (use that ok fail in \<open>auto simp: fu_gen_v6_ex_eq time60_v6 word_less_nat_alt\<close>)
  from i v1 v6 show thesis by blast
qed

interpretation gregorian: monotonic_clock greg_tick greg_valid time60 "\<lambda>s. Some (unat (greg_last s))"
proof unfold_locales
  fix s s' :: "'b st" and i :: "'b platform \<times> greg_call" and b assume inv: "fu_inv s" and v: "greg_valid i"
  show "fu_inv (snd (greg_tick i s))"
    by (rule greg_tick_cases [OF inv v]) simp_all
  show "greg_tick i s = (Some b, s') \<Longrightarrow>
      Some (unat (greg_last s)) < Some (time60 b) \<and> Some (unat (greg_last s')) = Some (time60 b)"
    by (rule greg_tick_cases [OF inv v]) simp_all
  show "greg_tick i s = (None, s') \<Longrightarrow>
      Some (unat (greg_last s)) \<le> Some (unat (greg_last s')) \<and> EG_exception s' \<noteq> None"
    by (rule greg_tick_cases [OF inv v]) (simp_all add: word_le_nat_alt)
qed

text \<open>Versions 1 and 6 share one clock: over any interleaving of calls, with any nodes and clock
  sequences, even the same ones each time, and any clock behaviour, the timestamps inside the UUIDs
  returned are strictly increasing, so no two of them are equal.\<close>

theorem fu_gen_v1_v6_distinct:
  assumes "fu_inv s" and "\<forall>i \<in> set is. greg_valid i"
  shows "sorted_wrt (\<lambda>x y. time60 x < time60 y) (fst (run_calls greg_tick is s)) \<and>
    distinct (fst (run_calls greg_tick is s))"
  using gregorian.run_strictly_increasing [OF assms] gregorian.run_distinct [OF assms] by blast

theorem fu_gen_v1_v6_distinct_witness:
  "distinct (fst (run_calls greg_tick [(sample_platform, Call_v1 (Some [1, 2, 3, 4, 5, 6]) 7),
     (sample_platform, Call_v6 (Some [1, 2, 3, 4, 5, 6]) 7)] (fu_boot 0)))"
  using fu_gen_v1_v6_distinct [OF fu_inv_boot [of 0],
      of "[(sample_platform, Call_v1 (Some [1, 2, 3, 4, 5, 6]) 7), (sample_platform, Call_v6 (Some [1, 2, 3, 4, 5, 6]) 7)]"]
  by (simp add: args_ok_def)

lemma be_nat_head_less:
  assumes "be_nat a < be_nat b" and "length a = length b" and "length x = length y"
  shows "be_nat (a @ x) < be_nat (b @ y)"
  using digit_split_less [OF assms(1) be_nat_less [of x], of "be_nat y"] assms(3)
  by (simp add: be_nat_append)

subsection \<open>Version 6 sorts by time\<close>

definition v6_tick :: "'w platform \<times> byte list option \<times> int \<Rightarrow> 'w st \<Rightarrow> byte list option \<times> 'w st" where
  "v6_tick i = (case i of (P, node, cs) \<Rightarrow> fu_gen_v6_ex P node cs)"

definition v6_valid :: "'w platform \<times> byte list option \<times> int \<Rightarrow> bool" where
  "v6_valid i = (case i of (P, node, cs) \<Rightarrow> args_ok node cs)"

lemma v6_tick_cases:
  assumes "fu_inv s" and "v6_valid i"
  obtains (ok) b s' where "v6_tick i s = (Some b, s')" "length b = 16" "be_nat (v6_head (greg_last s)) < be_nat (take 8 b)"
      "be_nat (v6_head (greg_last s')) = be_nat (take 8 b)" "fu_inv s'"
    | (fail) s' where "v6_tick i s = (None, s')" "fu_inv s'" "EG_exception s' \<noteq> None"
      "be_nat (v6_head (greg_last s)) \<le> be_nat (v6_head (greg_last s'))"
proof -
  obtain P node cs where i: "i = (P, node, cs)" by (cases i)
  then have args: "args_ok node cs" using assms(2) by (simp add: v6_valid_def)
  show thesis
  proof (rule greg_gen_cases [OF assms(1) args, of v6_head P])
    fix g n c s' assume r: "greg_gen v6_head P node cs s = (Some (v6_head g @ put_clockseq_node n c), s')"
      "greg_last s < g" "greg_last s' = g" "g < 2 ^ 60" "length n = 6" "fu_inv s'"
    then show thesis
      using be_nat_v6_less [of "greg_last s" g] i
      by (intro ok [of "v6_head g @ put_clockseq_node n c" s']) (simp_all add: v6_tick_def fu_gen_v6_ex_eq)
  next
    fix s' assume r: "greg_gen v6_head P node cs s = (None, s')" "fu_inv s'" "EG_exception s' \<noteq> None"
      "greg_last s \<le> greg_last s'"
    have "greg_last s' < 2 ^ 60" using r(2) by (simp add: fu_inv_def)
    then have "be_nat (v6_head (greg_last s)) \<le> be_nat (v6_head (greg_last s'))"
      using be_nat_v6_less [of "greg_last s" "greg_last s'"] r(4) by (cases "greg_last s = greg_last s'") (auto simp: less_le)
    with r i show thesis by (intro fail [of s']) (simp_all add: v6_tick_def fu_gen_v6_ex_eq)
  qed
qed

interpretation v6: monotonic_clock v6_tick v6_valid "\<lambda>b. be_nat (take 8 b)" "\<lambda>s. Some (be_nat (v6_head (greg_last s)))"
proof unfold_locales
  fix s s' :: "'b st" and i :: "'b platform \<times> byte list option \<times> int" and b
  assume inv: "fu_inv s" and v: "v6_valid i"
  show "fu_inv (snd (v6_tick i s))"
    by (rule v6_tick_cases [OF inv v]) simp_all
  show "v6_tick i s = (Some b, s') \<Longrightarrow> Some (be_nat (v6_head (greg_last s))) < Some (be_nat (take 8 b)) \<and>
      Some (be_nat (v6_head (greg_last s'))) = Some (be_nat (take 8 b))"
    by (rule v6_tick_cases [OF inv v]) simp_all
  show "v6_tick i s = (None, s') \<Longrightarrow> Some (be_nat (v6_head (greg_last s))) \<le> Some (be_nat (v6_head (greg_last s'))) \<and>
      EG_exception s' \<noteq> None"
    by (rule v6_tick_cases [OF inv v]) simp_all
qed

lemma memcmp_take_less:
  assumes "be_nat (take k x) < be_nat (take k y)" and "length x = length y"
  shows "memcmp x y < 0"
proof -
  have "be_nat (take k x @ drop k x) < be_nat (take k y @ drop k y)"
    by (rule be_nat_head_less) (use assms in simp_all)
  then show ?thesis using assms(2) by (simp add: memcmp_less_iff)
qed

text \<open>Version 6 UUIDs are strictly increasing, as 16 bytes and as text, over any sequence of calls
  with any nodes and clock sequences and any clock behaviour.\<close>

theorem fu_gen_v6_increasing:
  assumes "fu_inv s" and "\<forall>i \<in> set is. v6_valid i"
  shows "sorted_wrt (\<lambda>x y. memcmp x y < 0) (fst (run_calls v6_tick is s)) \<and>
    sorted_wrt (\<lambda>x y. memcmp x y < 0) (map (fu_format36 h) (fst (run_calls v6_tick is s)))"
proof -
  let ?bs = "fst (run_calls v6_tick is s)"
  have len: "length b = 16" if "b \<in> set ?bs" for b
  proof (rule v6.run_all [OF _ assms that])
    fix i s x and s' :: "'a st" assume a: "fu_inv s" "v6_valid i" "v6_tick i s = (Some x, s')"
    show "length x = 16" by (rule v6_tick_cases [OF a(1,2)]) (use a(3) in auto)
  qed
  have sorted: "sorted_wrt (\<lambda>x y. be_nat (take 8 x) < be_nat (take 8 y)) ?bs"
    by (rule v6.run_strictly_increasing [OF assms])
  have less: "memcmp x y < 0" if "x \<in> set ?bs" "y \<in> set ?bs" "be_nat (take 8 x) < be_nat (take 8 y)" for x y
    using memcmp_take_less [of 8 x y] that len by simp
  have "sorted_wrt (\<lambda>x y. memcmp x y < 0) ?bs"
    by (rule sorted_wrt_mono_rel [OF less sorted])
  moreover have "sorted_wrt (\<lambda>x y. memcmp (fu_format36 h x) (fu_format36 h y) < 0) ?bs"
    by (rule sorted_wrt_mono_rel [OF _ sorted]) (simp add: len less fu_format36_memcmp)
  ultimately show ?thesis by (simp add: sorted_wrt_map)
qed

theorem fu_gen_v6_increasing_witness:
  "sorted_wrt (\<lambda>x y. memcmp x y < 0) (fst (run_calls v6_tick (replicate 3 (sample_platform, None, -1)) (fu_boot 0)))"
  using fu_gen_v6_increasing [OF fu_inv_boot [of 0], of "replicate 3 (sample_platform, None, -1)" FU_NO_SIMD]
  by (simp add: v6_valid_def args_ok_def)

subsection \<open>Version 2\<close>

lemma nibble_or_byte:
  assumes "k < 16"
  shows "unat ((x AND 0x0f) OR push_bit 4 (of_nat k) :: byte) = 16 * k + unat x mod 16"
proof -
  have u: "unat (of_nat k :: byte) = k" using assms by (intro of_nat_inverse [OF refl]) simp
  have m: "unat (x AND 0x0f) = unat x mod 16" by (rule unat_and_mask)
  have "unat x mod 16 < 16" by simp
  then have "unat (push_bit 4 (of_nat k) OR (x AND 0x0f) :: byte) = k * 2 ^ 4 + unat x mod 16"
    using assms by (subst unat_push_or) (simp_all only: u m, simp_all)
  then show ?thesis by (simp add: or.commute mult.commute)
qed

lemma v2_stamp_fields:
  assumes "length b = 16"
  shows "length (v2_stamp lid ld b) = 16" "be_nat (take 4 (v2_stamp lid ld b)) = unat lid"
    "unat (v2_stamp lid ld b ! 6) div 16 = 2" "unat (v2_stamp lid ld b ! 6) mod 16 = unat (b ! 6) mod 16"
    "v2_stamp lid ld b ! 9 = ld"
    "i \<in> {4, 5, 7, 8} \<Longrightarrow> v2_stamp lid ld b ! i = b ! i"
    "drop 10 (v2_stamp lid ld b) = drop 10 b"
proof -
  show len: "length (v2_stamp lid ld b) = 16" using assms by (simp add: v2_stamp_def Let_def)
  have "take 4 (v2_stamp lid ld b) = be_store 4 lid"
    unfolding take_6_2(2) [OF len] be_store_4 using assms by (simp add: v2_stamp_def Let_def)
  moreover have lid: "unat lid < 2 ^ 32" using unsigned_less [of lid] by simp
  ultimately show "be_nat (take 4 (v2_stamp lid ld b)) = unat lid"
    using lid by (simp add: be_nat_be_store)
  have "v2_stamp lid ld b ! 6 = (b ! 6 AND 0x0f) OR push_bit 4 (of_nat 2)"
    using assms by (simp add: v2_stamp_def Let_def)
  then have "unat (v2_stamp lid ld b ! 6) = 32 + unat (b ! 6) mod 16"
    using nibble_or_byte [of 2 "b ! 6"] by simp
  moreover have "(32 + y mod 16) div 16 = 2" "(32 + y mod 16) mod 16 = y mod 16" for y :: nat
    using mod_mult_self3 [of 2 16 "y mod 16"] div_mult_self3 [of 16 2 "y mod 16"] by simp_all
  ultimately show "unat (v2_stamp lid ld b ! 6) div 16 = 2"
    "unat (v2_stamp lid ld b ! 6) mod 16 = unat (b ! 6) mod 16" by simp_all
  show "v2_stamp lid ld b ! 9 = ld" "i \<in> {4, 5, 7, 8} \<Longrightarrow> v2_stamp lid ld b ! i = b ! i"
    using assms by (auto simp: v2_stamp_def Let_def)
  show "drop 10 (v2_stamp lid ld b) = drop 10 b"
    by (simp add: v2_stamp_def Let_def)
qed


lemma v2_time:
  assumes "g < 2 ^ 60" and "length rest = 8"
  shows "time60 (v2_stamp lid ld (v1_head g @ rest)) = unat g div 2 ^ 32 * 2 ^ 32"
proof -
  let ?b = "v1_head g @ rest"
  have len: "length ?b = 16" using assms(2) by simp
  note f = v2_stamp_fields [OF len, where lid = lid and ld = ld]
  note h = be_nat_v1_head [OF assms(1)]
  have t: "take 2 (drop 4 (v2_stamp lid ld ?b)) = take 2 (drop 4 ?b)"
    unfolding take_6_2(3) [OF len] take_6_2(3) [OF f(1)] by (simp add: f(6))
  have n6: "unat (v2_stamp lid ld ?b ! 6) mod 16 = unat g div 2 ^ 56"
    using f(4) version_v1_head(2) [OF assms(1)] by (simp add: nth_head)
  have n7: "unat (v2_stamp lid ld ?b ! 7) = unat g div 2 ^ 48 mod 256"
    using f(6) [of 7] h(4) by (simp add: nth_head)
  have n45: "be_nat (take 2 (drop 4 (v2_stamp lid ld ?b))) = unat g div 2 ^ 32 mod 2 ^ 16"
    unfolding t using h(2) by simp
  have "(unat g div 2 ^ 56 * 256 + unat g div 2 ^ 48 mod 256) * 65536 + unat g div 2 ^ 32 mod 2 ^ 16 = unat g div 2 ^ 32"
    by (rule digits_28)
  then show ?thesis
    unfolding time60_def n6 n7 n45 f(3) by simp
qed

text \<open>A version 2 call on the monotonic path: node and clock sequence both supplied.\<close>

definition v2_tick :: "'w platform \<times> u32 \<times> byte \<times> byte list \<times> int \<Rightarrow> 'w st \<Rightarrow> byte list option \<times> 'w st" where
  "v2_tick i = (case i of (P, lid, ld, node, cs) \<Rightarrow> fu_gen_v2 P lid ld (Some node) cs True)"

definition v2_valid :: "'w platform \<times> u32 \<times> byte \<times> byte list \<times> int \<Rightarrow> bool" where
  "v2_valid i = (case i of (P, lid, ld, node, cs) \<Rightarrow> length node = 6 \<and> 0 \<le> cs \<and> cs < 16384)"

lemma v2_tick_cases:
  assumes "fu_inv s" and "v2_valid i"
  obtains (ok) b s' where "v2_tick i s = (Some b, s')" "length b = 16" "unat (v2_last s) < time60 b div 2 ^ 32"
      "unat (v2_last s') = time60 b div 2 ^ 32" "fu_inv s'" "EG_exception s' = EG_exception s"
    | (fail) s' where "v2_tick i s = (None, s')" "fu_inv s'" "EG_exception s' \<noteq> None" "v2_last s' = v2_last s"
proof -
  obtain P lid ld node cs where i: "i = (P, lid, ld, node, cs)" by (cases i)
  then have v: "length node = 6" "0 \<le> cs" "cs < 16384" using assms(2) by (simp_all add: v2_valid_def)
  show thesis
  proof (rule fu_v2_monotonic_cases [OF assms(1), of P])
    fix g s1 assume g: "fu_v2_monotonic P s = (Some g, s1)" "v2_last s < drop_bit 32 g" "v2_last s1 = drop_bit 32 g"
      "g < 2 ^ 60" "fu_inv s1" "EG_exception s1 = EG_exception s"
    have lay: "fu_lay_v1 P g (Some node) cs s1 = (Some (v1_head g @ put_clockseq_node node cs), s1)"
      using v by (simp add: fu_lay_v1_def fu_lay_clockseq_node_def)
    have t: "time60 (v2_stamp lid ld (v1_head g @ put_clockseq_node node cs)) div 2 ^ 32 = unat g div 2 ^ 32"
      using v2_time [OF g(4), of "put_clockseq_node node cs"] v by simp
    show thesis
      using g lay v t v2_stamp_fields(1) [of "v1_head g @ put_clockseq_node node cs"]
      by (intro ok [of "v2_stamp lid ld (v1_head g @ put_clockseq_node node cs)" s1])
         (simp_all add: v2_tick_def i fu_gen_v2_def word_less_nat_alt unat_drop_bit)
  next
    fix s' assume "fu_v2_monotonic P s = (None, s')" "fu_inv s'" "gen_marks s' = gen_marks s" "EG_exception s' \<noteq> None"
    then show thesis
      by (intro fail [of s']) (simp_all add: v2_tick_def i fu_gen_v2_def gen_marks_iff)
  qed
qed

interpretation v2: monotonic_clock v2_tick v2_valid "\<lambda>b. time60 b div 2 ^ 32" "\<lambda>s. Some (unat (v2_last s))"
proof unfold_locales
  fix s s' :: "'b st" and i :: "'b platform \<times> u32 \<times> byte \<times> byte list \<times> int" and b
  assume inv: "fu_inv s" and v: "v2_valid i"
  show "fu_inv (snd (v2_tick i s))"
    by (rule v2_tick_cases [OF inv v]) simp_all
  show "v2_tick i s = (Some b, s') \<Longrightarrow> Some (unat (v2_last s)) < Some (time60 b div 2 ^ 32) \<and>
      Some (unat (v2_last s')) = Some (time60 b div 2 ^ 32)"
    by (rule v2_tick_cases [OF inv v]) simp_all
  show "v2_tick i s = (None, s') \<Longrightarrow> Some (unat (v2_last s)) \<le> Some (unat (v2_last s')) \<and> EG_exception s' \<noteq> None"
    by (rule v2_tick_cases [OF inv v]) simp_all
qed

text \<open>C27: version 2 keeps only 28 timestamp bits; with node and clock sequence both supplied, those
  bits are strictly increasing from call to call, so the UUIDs are distinct even for the same local
  identifier on a clock that stands still or is set back.\<close>

theorem fu_gen_v2_distinct:
  assumes "fu_inv s" and "\<forall>i \<in> set is. v2_valid i"
  shows "sorted_wrt (\<lambda>x y. time60 x div 2 ^ 32 < time60 y div 2 ^ 32) (fst (run_calls v2_tick is s)) \<and>
    distinct (fst (run_calls v2_tick is s))"
  using v2.run_strictly_increasing [OF assms] v2.run_distinct [OF assms] by blast

theorem fu_gen_v2_distinct_witness:
  "distinct (fst (run_calls v2_tick (replicate 4 (sample_platform, 1000, 0, [1, 2, 3, 4, 5, 6], 7)) (fu_boot 0)))"
  using fu_gen_v2_distinct [OF fu_inv_boot [of 0], of "replicate 4 (sample_platform, 1000, 0, [1, 2, 3, 4, 5, 6], 7)"]
  by (simp add: v2_valid_def)

subsection \<open>Version 4 batches\<close>

lemma unserved_rpos:
  assumes "fu_inv s" and "k \<le> length (unserved s)"
  shows "unserved (s\<lparr>rpos := rpos s + k\<rparr>) = drop k (unserved s)" "fu_inv (s\<lparr>rpos := rpos s + k\<rparr>)"
    "length (unserved (s\<lparr>rpos := rpos s + k\<rparr>)) = length (unserved s) - k"
  using assms fu_inv_rbuf [OF assms(1)]
  by (auto simp: unserved_def add.commute [of "rpos s"] intro!: fu_inv_rand_updates)

lemma fu_rand_n_buffer:
  assumes "fu_inv s" and "k \<le> length (unserved s)"
  shows "fu_rand_n P k s = (SUCCESS, take k (unserved s), s\<lparr>rpos := rpos s + k\<rparr>)"
  using fu_rand_from_buffer [OF assms(1), of "replicate k 0" P] assms(2) by (simp add: fu_rand_n_def)

abbreviation v4_at :: "byte list \<Rightarrow> nat \<Rightarrow> byte list" where
  "v4_at bs i \<equiv> fu_set_ver_var (take 16 (drop (i * 16) bs)) 0x40"

lemma map_v4_at_split:
  "map (v4_at bs) [0..<a + n] = map (v4_at (take (a * 16) bs)) [0..<a] @ map (v4_at (drop (a * 16) bs)) [0..<n]"
proof (rule nth_equalityI)
  fix i assume i: "i < length (map (v4_at bs) [0..<a + n])"
  show "map (v4_at bs) [0..<a + n] ! i =
      (map (v4_at (take (a * 16) bs)) [0..<a] @ map (v4_at (drop (a * 16) bs)) [0..<n]) ! i"
  proof (cases "i < a")
    case True
    then have "16 \<le> a * 16 - i * 16" by simp
    then show ?thesis using True by (simp add: nth_append drop_take min_absorb1)
  next
    case False
    then have "i * 16 = (i - a) * 16 + a * 16" by (simp add: algebra_simps)
    then show ?thesis using False i by (simp add: nth_append)
  qed
qed simp

lemma v4_singles:
  assumes "fu_inv s" and "length is * 16 \<le> length (unserved s)"
  shows "run_calls (\<lambda>_. fu_gen_v4 P) is s =
    (map (v4_at (unserved s)) [0..<length is], s\<lparr>rpos := rpos s + length is * 16\<rparr>)"
  using assms
proof (induction "is" arbitrary: s)
  case (Cons i "is")
  have b: "16 \<le> length (unserved s)" using Cons.prems(2) by simp
  note u = unserved_rpos [OF Cons.prems(1) b]
  have g: "fu_gen_v4 P s = (Some (v4_at (unserved s) 0), s\<lparr>rpos := rpos s + 16\<rparr>)"
    using fu_rand_n_buffer [OF Cons.prems(1) b] by (simp add: fu_gen_v4_def)
  have IH: "run_calls (\<lambda>_. fu_gen_v4 P) is (s\<lparr>rpos := rpos s + 16\<rparr>) =
    (map (v4_at (drop 16 (unserved s))) [0..<length is], s\<lparr>rpos := rpos s + 16 + length is * 16\<rparr>)"
    using Cons.IH [OF u(2)] Cons.prems(2) u(1,3) by simp
  show ?case
    using map_v4_at_split [of "unserved s" 1 "length is"] by (simp add: Let_def g IH)
qed simp

lemma v4_batch_buffer:
  assumes "fu_inv s" and "(n - k) * 16 \<le> length (unserved s)"
  shows "v4_batch_loop P zstr n k s =
    (SUCCESS, map zstr (map (v4_at (unserved s)) [0..<n - k]), s\<lparr>rpos := rpos s + (n - k) * 16\<rparr>)"
  using assms
proof (induction "n - k" arbitrary: k s rule: less_induct)
  case less
  show ?case
  proof (cases "k < n")
    case True
    define tk where "tk = (if FU_V4_CHUNK < n - k then FU_V4_CHUNK else n - k)"
    have tk: "0 < tk" "tk \<le> n - k" using True by (auto simp: tk_def FU_V4_CHUNK_def)
    then have b: "tk * 16 \<le> length (unserved s)" using less.prems(2) by linarith
    note u = unserved_rpos [OF less.prems(1) b]
    define m where "m = n - (k + tk)"
    have m: "m < n - k" "m * 16 \<le> length (unserved s) - tk * 16" "n - k = tk + m"
      using tk less.prems(2) by (auto simp: m_def)
    have IH: "v4_batch_loop P zstr n (k + tk) (s\<lparr>rpos := rpos s + tk * 16\<rparr>) =
      (SUCCESS, map zstr (map (v4_at (drop (tk * 16) (unserved s))) [0..<m]),
       s\<lparr>rpos := rpos s + tk * 16 + m * 16\<rparr>)"
      using less.hyps [OF m(1) [unfolded m_def] u(2)] m(2) u(1,3) by (simp flip: m_def)
    have arr: "v4_chunk_elems zstr tk (take (tk * 16) (unserved s)) @ map zstr (map (v4_at (drop (tk * 16) (unserved s))) [0..<m])
        = map zstr (map (v4_at (unserved s)) [0..<n - k])"
      unfolding m(3) map_v4_at_split by (simp add: v4_chunk_elems_def)
    have pos: "rpos s + tk * 16 + m * 16 = rpos s + (n - k) * 16" unfolding m(3) by simp
    show ?thesis
      unfolding v4_batch_loop.simps [of P zstr n k] Let_def tk_def [symmetric] fu_rand_n_buffer [OF less.prems(1) b]
      using True by (simp only: if_True prod.case zend_result.case IH arr pos)
  qed (use less.prems in \<open>simp add: v4_batch_loop.simps\<close>)
qed

lemma map_v4_at_take: "map (v4_at (take (n * 16) bs)) [0..<n] = map (v4_at bs) [0..<n]"
  using map_v4_at_split [of bs n 0] by simp

lemma v4_singles_refill:
  assumes "fu_inv s" and "unserved s = []" and "length is * 16 \<le> FU_RBUF" and "is \<noteq> []"
    and "fu_rand_n P (length is * 16) s = (SUCCESS, chunk, s')"
  shows "run_calls (\<lambda>_. fu_gen_v4 P) is s = (map (v4_at chunk) [0..<length is], s')"
proof -
  obtain i js where is_def: "is = i # js" using assms(4) by (cases "is") auto
  obtain rc buf s1 where f: "fu_rand_fill P (rbuf s) s = (rc, buf, s1)" by (cases "fu_rand_fill P (rbuf s) s")
  have refill: "fu_rand_n P n s = (case rc of FAILURE \<Rightarrow> fu_rand_n P n s | SUCCESS \<Rightarrow> (SUCCESS, take n buf, s1\<lparr>rbuf := buf, rpos := n\<rparr>))"
    if "0 < n" "n \<le> FU_RBUF" for n
    using fu_rand_refill [OF assms(1), of "replicate n 0" P] assms(2) that by (cases rc) (simp_all add: fu_rand_n_def f)
  have "rc = SUCCESS"
    using fu_rand_refill [OF assms(1), of "replicate (length is * 16) 0" P] assms(2-5)
    by (cases rc) (simp_all add: fu_rand_n_def f)
  with refill have r: "fu_rand_n P n s = (SUCCESS, take n buf, s1\<lparr>rbuf := buf, rpos := n\<rparr>)" if "0 < n" "n \<le> FU_RBUF" for n
    using that by simp
  let ?t = "s1\<lparr>rbuf := buf, rpos := 16\<rparr>"
  have c: "chunk = take (length is * 16) buf" "s' = s1\<lparr>rbuf := buf, rpos := length is * 16\<rparr>"
    using r [of "length is * 16"] assms(3-5) by simp_all
  have g: "fu_rand_n P 16 s = (SUCCESS, take 16 buf, ?t)" by (rule r) (simp_all add: FU_RBUF_def)
  have inv: "fu_inv ?t" by (rule fu_rand_n_cases [OF assms(1), of P 16]) (simp_all add: g)
  have u: "unserved ?t = drop 16 buf" "length buf = FU_RBUF"
    using fu_inv_rbuf [OF inv] by (simp_all add: unserved_def)
  have "run_calls (\<lambda>_. fu_gen_v4 P) js ?t = (map (v4_at (drop 16 buf)) [0..<length js], ?t\<lparr>rpos := 16 + length js * 16\<rparr>)"
    using v4_singles [OF inv, of js P] assms(3) u by (simp add: is_def)
  moreover have "fu_gen_v4 P s = (Some (v4_at buf 0), ?t)" using g by (simp add: fu_gen_v4_def)
  ultimately show ?thesis
    using map_v4_at_split [of buf 1 "length js"] unfolding c map_v4_at_take by (simp add: is_def Let_def)
qed

lemma run_calls_append:
  "run_calls f (is @ js) s =
    (case run_calls f is s of (bs, s) \<Rightarrow> case run_calls f js s of (cs, s) \<Rightarrow> (bs @ cs, s))"
  by (induction "is" arbitrary: s) (auto simp: Let_def split: prod.splits option.splits)


lemma v4_chunk_singles:
  assumes "fu_inv s" and "1024 dvd length (unserved s)" and "is \<noteq> []" and "length is \<le> FU_V4_CHUNK"
    and "fu_rand_n P (length is * 16) s = (SUCCESS, chunk, s')"
  shows "run_calls (\<lambda>_. fu_gen_v4 P) is s = (map (v4_at chunk) [0..<length is], s')"
    and "length is = FU_V4_CHUNK \<Longrightarrow> 1024 dvd length (unserved s')" and "fu_inv s'"
proof -
  have small: "length is * 16 \<le> 1024" using assms(4) by (simp add: FU_V4_CHUNK_def)
  have r: "run_calls (\<lambda>_. fu_gen_v4 P) is s = (map (v4_at chunk) [0..<length is], s') \<and>
    (length is = FU_V4_CHUNK \<longrightarrow> 1024 dvd length (unserved s'))"
  proof (cases "unserved s = []")
    case True
    have "length (unserved s') = FU_RBUF - length is * 16"
      using fu_rand_refill [OF assms(1), of "replicate (length is * 16) 0" P] assms(3,5) True small
        fill.fill_length [OF assms(1), of P "rbuf s"] fu_inv_rbuf [OF assms(1)]
      by (auto simp: fu_rand_n_def unserved_def FU_RBUF_def split: prod.splits zend_result.splits)
    then show ?thesis
      using v4_singles_refill [OF assms(1) True _ assms(3,5)] small by (auto simp: FU_RBUF_def FU_V4_CHUNK_def)
  next
    case False
    then have b: "length is * 16 \<le> length (unserved s)" using assms(2) small by (auto dest!: dvd_imp_le)
    have c: "chunk = take (length is * 16) (unserved s)" "s' = s\<lparr>rpos := rpos s + length is * 16\<rparr>"
      using fu_rand_n_buffer [OF assms(1) b, of P] assms(5) by simp_all
    have "length (unserved s') = length (unserved s) - length is * 16"
      unfolding c by (rule unserved_rpos(3) [OF assms(1) b])
    then show ?thesis
      using v4_singles [OF assms(1) b, of P] assms(2) unfolding c map_v4_at_take by (auto simp: FU_V4_CHUNK_def dvd_diff_nat)
  qed
  then show "run_calls (\<lambda>_. fu_gen_v4 P) is s = (map (v4_at chunk) [0..<length is], s')"
    "length is = FU_V4_CHUNK \<Longrightarrow> 1024 dvd length (unserved s')" by blast+
  show "fu_inv s'" by (rule fu_rand_n_cases [OF assms(1), of P "length is * 16"]) (use assms(5) in simp_all)
qed

lemma v4_batch_chunks:
  assumes "fu_inv s" and "1024 dvd length (unserved s)" and "v4_batch_loop P zstr n k s = (SUCCESS, arr, s')"
  shows "\<exists>bs. run_calls (\<lambda>_. fu_gen_v4 P) [k..<n] s = (bs, s') \<and> length bs = n - k \<and> arr = map zstr bs"
  using assms
proof (induction "n - k" arbitrary: k s arr rule: less_induct)
  case less
  show ?case
  proof (cases "k < n")
    case True
    define tk where "tk = (if FU_V4_CHUNK < n - k then FU_V4_CHUNK else n - k)"
    have tk: "0 < tk" "tk \<le> n - k" "tk \<le> FU_V4_CHUNK" "tk = FU_V4_CHUNK \<or> k + tk = n"
      using True by (auto simp: tk_def FU_V4_CHUNK_def)
    note loop = less.prems(3) [unfolded v4_batch_loop.simps [of P zstr n k] Let_def tk_def [symmetric] if_P [OF True]]
    obtain chunk s1 arr1 where r: "fu_rand_n P (tk * 16) s = (SUCCESS, chunk, s1)"
      "v4_batch_loop P zstr n (k + tk) s1 = (SUCCESS, arr1, s')" "arr = v4_chunk_elems zstr tk chunk @ arr1"
      using loop by (auto split: prod.splits zend_result.splits)
    have len: "length [k..<k + tk] = tk" "[k..<k + tk] \<noteq> []" using tk(1) by simp_all
    note c = v4_chunk_singles [OF less.prems(1,2) len(2), unfolded len(1), OF tk(3) r(1)]
    have "\<exists>bs. run_calls (\<lambda>_. fu_gen_v4 P) [k + tk..<n] s1 = (bs, s') \<and> length bs = n - (k + tk) \<and> arr1 = map zstr bs"
    proof (cases "k + tk = n")
      case True
      then show ?thesis using r(2) by (simp add: v4_batch_loop.simps)
    next
      case False
      then have "1024 dvd length (unserved s1)" using c(2) tk(4) by blast
      moreover have "n - (k + tk) < n - k" using tk(1,2) by linarith
      ultimately show ?thesis using less.hyps c(3) r(2) by blast
    qed
    then obtain bs where bs: "run_calls (\<lambda>_. fu_gen_v4 P) [k + tk..<n] s1 = (bs, s')" "length bs = n - (k + tk)" "arr1 = map zstr bs"
      by blast
    have "[k..<n] = [k..<k + tk] @ [k + tk..<n]"
      using upt_add_eq_append [of k "k + tk" "n - (k + tk)"] tk(2) True by simp
    then show ?thesis
      using c(1) bs tk(2) r(3) by (simp add: run_calls_append v4_chunk_elems_def)
  qed (use less.prems in \<open>simp add: v4_batch_loop.simps\<close>)
qed

lemma v4_batch_total: "fu_inv s \<Longrightarrow> entropy_ok P \<Longrightarrow> v4_batch_loop P zstr n k s = (rc, arr, s') \<Longrightarrow> rc = SUCCESS"
proof (induction "n - k" arbitrary: k s arr rule: less_induct)
  case less
  show ?case
  proof (cases "k < n")
    case True
    define tk where "tk = (if FU_V4_CHUNK < n - k then FU_V4_CHUNK else n - k)"
    have "0 < tk" using True by (simp add: tk_def FU_V4_CHUNK_def)
    with True have m: "n - (k + tk) < n - k" by linarith
    obtain chunk s1 where r: "fu_rand_n P (tk * 16) s = (SUCCESS, chunk, s1)"
      using fu_rand_total [OF less.prems(2), of "replicate (tk * 16) 0" s] by (metis fu_rand_n_def prod.collapse)
    have "fu_inv s1" by (rule fu_rand_n_cases [OF less.prems(1), of P "tk * 16"]) (use r in simp_all)
    then have "fst (v4_batch_loop P zstr n (k + tk) s1) = SUCCESS"
      using less.hyps [OF m _ less.prems(2)] less.prems(3) True
      by (auto simp: v4_batch_loop.simps [of P zstr n k] tk_def [symmetric] r Let_def split: prod.splits)
    then show ?thesis
      using less.prems(3) True by (auto simp: v4_batch_loop.simps [of P zstr n k] tk_def [symmetric] r Let_def split: prod.splits)
  qed (use less.prems in \<open>simp add: v4_batch_loop.simps\<close>)
qed

text \<open>C28: a version 4 batch, which draws its random bytes for 64 UUIDs at a time, returns exactly the UUIDs \<open>n\<close> single calls
  would have returned, consumes exactly the same bytes and leaves the same state, while the buffer holds enough bytes for
  all of them, or whatever \<open>n\<close> is and however often the buffer is refilled when the batch starts on a chunk boundary (as it
  does in a fresh process).  In the first case, and wherever entropy does not fail, it cannot fail.  (Otherwise the draw of
  a chunk that the buffer cannot serve discards the bytes left over, which single calls would have used.)\<close>

theorem fu_gen_v4_batch_singles:
  assumes "fu_inv s" and "n * 16 \<le> length (unserved s) \<or> FU_V4_CHUNK * 16 dvd length (unserved s)"
    and "fu_gen_v4_batch_n P h n as_bytes s = (rc, arr, s')"
  shows "(n * 16 \<le> length (unserved s) \<or> entropy_ok P \<longrightarrow> rc = SUCCESS) \<and>
    (rc = SUCCESS \<longrightarrow> (\<exists>bs. run_calls (\<lambda>_. fu_gen_v4 P) [0..<n] s = (bs, s') \<and> length bs = n \<and>
      arr = map (\<lambda>b. fu_uuid_zstr h b as_bytes) bs))"
proof (cases "n * 16 \<le> length (unserved s)")
  case True
  then show ?thesis
    using v4_singles [of s "[0..<n]" P] v4_batch_buffer [of s n 0 P "\<lambda>b. fu_uuid_zstr h b as_bytes"] assms(1,3)
    by (simp add: fu_gen_v4_batch_n_def)
next
  case False
  then have "1024 dvd length (unserved s)" using assms(2) by (simp add: FU_V4_CHUNK_def)
  with False show ?thesis
    using v4_batch_total [OF assms(1) _ assms(3) [unfolded fu_gen_v4_batch_n_def]] assms(3)
      v4_batch_chunks [OF assms(1), of P "\<lambda>b. fu_uuid_zstr h b as_bytes" n 0 arr s']
    by (cases rc) (auto simp: fu_gen_v4_batch_n_def)
qed

text \<open>A thousand UUIDs from a fresh process take two fills of the buffer.\<close>

theorem fu_gen_v4_batch_singles_witness:
  "\<exists>bs s'. run_calls (\<lambda>_. fu_gen_v4 sample_platform) [0..<1000] (fu_boot 7) = (bs, s') \<and> length bs = 1000 \<and>
     fu_gen_v4_batch_n sample_platform FU_NO_SIMD 1000 True (fu_boot 7) = (SUCCESS, map (\<lambda>b. fu_uuid_zstr FU_NO_SIMD b True) bs, s')"
proof -
  obtain rc arr s' where r: "fu_gen_v4_batch_n sample_platform FU_NO_SIMD 1000 True (fu_boot 7) = (rc, arr, s')"
    by (cases "fu_gen_v4_batch_n sample_platform FU_NO_SIMD 1000 True (fu_boot 7)")
  have p: "1000 * 16 \<le> length (unserved (fu_boot 7)) \<or> FU_V4_CHUNK * 16 dvd length (unserved (fu_boot 7))"
    by (simp add: unserved_def fu_boot_def fu_ginit_def globals.extend_def FU_RBUF_def)
  have e: "entropy_ok sample_platform" by (simp add: entropy_ok_def sample_platform_def)
  from fu_gen_v4_batch_singles [OF fu_inv_boot p r] e r show ?thesis by blast
qed

lemma fu_gen_v4_cases:
  assumes "fu_inv s"
  obtains (ok) r s' where "fu_gen_v4 P s = (Some (fu_set_ver_var r 0x40), s')" "length r = 16" "fu_inv s'"
      "gen_marks s' = gen_marks s" "EG_exception s' = EG_exception s"
    | (fail) s' where "fu_gen_v4 P s = (None, s')" "fu_inv s'" "gen_marks s' = gen_marks s" "EG_exception s' \<noteq> None"
  by (rule fu_rand_n_cases [OF assms, of P 16]) (use ok fail in \<open>auto simp: fu_gen_v4_def\<close>)

lemma v4_batch_props:
  assumes "fu_inv s" and "v4_batch_loop P zstr n k s = (rc, arr, s')"
  shows "fu_inv s' \<and> gen_marks s' = gen_marks s \<and> (\<forall>x \<in> set arr. \<exists>r. length r = 16 \<and> x = zstr (fu_set_ver_var r 0x40)) \<and>
    (if rc = SUCCESS then length arr = n - k \<and> EG_exception s' = EG_exception s
     else length arr < n - k \<and> EG_exception s' \<noteq> None)"
  using assms
proof (induction "n - k" arbitrary: k s rc arr s' rule: less_induct)
  case less
  show ?case
  proof (cases "k < n")
    case True
    define tk where "tk = (if FU_V4_CHUNK < n - k then FU_V4_CHUNK else n - k)"
    have tk: "0 < tk" "tk \<le> n - k" using True by (auto simp: tk_def FU_V4_CHUNK_def)
    note loop = less.prems(2) [unfolded v4_batch_loop.simps [of P zstr n k] Let_def tk_def [symmetric]]
    show ?thesis
    proof (rule fu_rand_n_cases [OF less.prems(1), of P "tk * 16"])
      fix chunk s1 assume r: "fu_rand_n P (tk * 16) s = (SUCCESS, chunk, s1)" "length chunk = tk * 16" "fu_inv s1"
        "gen_marks s1 = gen_marks s" "EG_exception s1 = EG_exception s"
      obtain rc1 arr1 s2 where l: "v4_batch_loop P zstr n (k + tk) s1 = (rc1, arr1, s2)"
        by (cases "v4_batch_loop P zstr n (k + tk) s1")
      have e: "rc = rc1" "arr = v4_chunk_elems zstr tk chunk @ arr1" "s' = s2" using loop True r l by simp_all
      have elems: "\<exists>r. length r = 16 \<and> x = zstr (fu_set_ver_var r 0x40)" if "x \<in> set (v4_chunk_elems zstr tk chunk)" for x
      proof -
        from that obtain i where "i < tk" "x = zstr (fu_set_ver_var (take 16 (drop (i * 16) chunk)) 0x40)"
          by (auto simp: v4_chunk_elems_def)
        moreover have "16 \<le> tk * 16 - i * 16" using \<open>i < tk\<close> by simp
        ultimately show ?thesis using r(2) by (intro exI [of _ "take 16 (drop (i * 16) chunk)"]) simp
      qed
      have len: "length (v4_chunk_elems zstr tk chunk) = tk" by (simp add: v4_chunk_elems_def)
      have "n - (k + tk) < n - k" using tk by linarith
      from less.hyps [OF this r(3) l] r(4,5) elems len tk show ?thesis unfolding e by auto
    next
      fix chunk s1 assume "fu_rand_n P (tk * 16) s = (FAILURE, chunk, s1)" "fu_inv s1" "gen_marks s1 = gen_marks s"
        "EG_exception s1 \<noteq> None"
      with loop True show ?thesis by auto
    qed
  qed (use less.prems in \<open>auto simp: v4_batch_loop.simps [of P zstr n k]\<close>)
qed

subsection \<open>Name-based versions\<close>

text \<open>C29: versions 3 and 5 are functions of the namespace and the name only: the first 16 bytes of the
  digest of their concatenation, with version and variant stamped in; a name above 16 MiB throws
  and changes nothing else.\<close>

theorem fu_gen_v3_v5_functional:
  assumes "digest_law MD5 16 md5" and "digest_law SHA1 20 sha1"
  shows "fu_gen_v3 MD5 ns name s =
      (if length name \<le> 16777216 then (Some (fu_set_ver_var (md5 (ns @ name)) 0x30), s)
       else (None, zend_throw InvalidArgumentException ''name is too large (max 16777216 bytes)'' s)) \<and>
    fu_gen_v5 SHA1 ns name s =
      (if length name \<le> 16777216 then (Some (fu_set_ver_var (take 16 (sha1 (ns @ name))) 0x50), s)
       else (None, zend_throw InvalidArgumentException ''name is too large (max 16777216 bytes)'' s))"
proof -
  have m: "Final MD5 (Update MD5 (Update MD5 (Init MD5) ns) name) = md5 (ns @ name)" "length (md5 (ns @ name)) = 16"
    and h: "Final SHA1 (Update SHA1 (Update SHA1 (Init SHA1) ns) name) = sha1 (ns @ name)"
    using assms by (auto simp: digest_law_def dest: spec [of _ "[ns, name]"])
  show ?thesis
    by (simp add: fu_gen_v3_def fu_gen_v5_def fu_name_len_ok_def FU_MAX_NAME_BYTES_def m h Let_def not_less)
qed

text \<open>A digest to run the examples on: it keeps the fed bytes and pads or cuts them.\<close>

definition sample_digest :: "nat \<Rightarrow> byte list digest" where
  "sample_digest n = \<lparr>Init = [], Update = (@), Final = (\<lambda>c. take n (c @ replicate n 0))\<rparr>"

lemma sample_digest_law: "digest_law (sample_digest n) n (\<lambda>x. take n (x @ replicate n 0))"
proof -
  have "foldl (@) acc chunks = acc @ concat chunks" for acc :: "byte list" and chunks
    by (induction chunks arbitrary: acc) simp_all
  moreover have "min (length x) n + (n - length x) = n" for x :: "byte list" by (simp add: min_def)
  ultimately show ?thesis by (simp add: digest_law_def sample_digest_def)
qed

theorem fu_gen_v3_v5_functional_witness:
  "fu_gen_v3 (sample_digest 16) [1, 2, 3, 4, 5, 6, 7, 8, 9, 10, 11, 12, 13, 14, 15, 16] [97] (fu_boot (0 :: nat))
     = (Some [1, 2, 3, 4, 5, 6, 0x37, 8, 0x89, 10, 11, 12, 13, 14, 15, 16], fu_boot 0)"
proof -
  have "fu_set_ver_var [1, 2, 3, 4, 5, 6, 7, 8, 9, 10, 11, 12, 13, 14, 15, 16] 0x30
      = [1, 2, 3, 4, 5, 6, 0x37, 8, 0x89, 10, 11, 12, 13, 14, 15, 16]"
    by code_simp
  moreover have "take 16 ([1, 2, 3, 4, 5, 6, 7, 8, 9, 10, 11, 12, 13, 14, 15, 16] @ [97] @ replicate 16 0)
      = [1, 2, 3, 4, 5, 6, 7, 8, 9, 10, 11, 12, 13, 14, 15, 16 :: byte]"
    by simp
  ultimately show ?thesis
    using fu_gen_v3_v5_functional [OF sample_digest_law [of 16] sample_digest_law [of 20],
      of "[1, 2, 3, 4, 5, 6, 7, 8, 9, 10, 11, 12, 13, 14, 15, 16]" "[97]" "fu_boot (0 :: nat)"]
    by simp
qed

end
