(* ===== verification/Fu_Parse.thy ===== *)
theory Fu_Parse
  imports Fu_Hex
begin

section \<open>The tolerant parser\<close>

text \<open>
  \<open>fu_parse\<close>: two passes that strip an optional \<open>urn:uuid:\<close> prefix and an optional pair of
  braces, then the canonical 36-character form or 32 bare hex digits, read through the nibble
  table.  The out buffer is the result, \<open>None\<close> the return value 0 (no caller reads the buffer
  then).  The engine's \<open>zend_binary_strncasecmp\<close> is not part of the repository: it is the
  parameter \<open>ncase\<close>, and \<open>strncasecmp_law\<close> is what its documentation promises.
\<close>

definition fu_parse_hex_byte_at :: "byte list \<Rightarrow> nat \<Rightarrow> byte option" where
  "fu_parse_hex_byte_at s pos =
     (let hi = fu_nib_lut ! unat (s ! pos);
          lo = fu_nib_lut ! unat (s ! (pos + 1))
      in if hi OR lo < 0 then None else Some (word_of_int (push_bit 4 hi OR lo)))"

text \<open>The unrolled calls of the macro: each returns 0 from the parser on a bad digit.\<close>

fun fu_parse_hex_bytes :: "byte list \<Rightarrow> nat list \<Rightarrow> byte list option" where
  "fu_parse_hex_bytes s [] = Some []"
| "fu_parse_hex_bytes s (p # ps) =
     (case fu_parse_hex_byte_at s p of
        None \<Rightarrow> None
      | Some x \<Rightarrow> (case fu_parse_hex_bytes s ps of None \<Rightarrow> None | Some xs \<Rightarrow> Some (x # xs)))"

type_synonym strncasecmp = "byte list \<Rightarrow> byte list \<Rightarrow> nat \<Rightarrow> int"

definition fu_strip_pass :: "strncasecmp \<Rightarrow> byte list \<Rightarrow> byte list" where
  "fu_strip_pass ncase s =
     (let s = (if 9 \<le> length s \<and> (s ! 0 = of_char CHR ''u'' \<or> s ! 0 = of_char CHR ''U'') \<and>
                  ncase s (lit ''urn:uuid:'') 9 = 0
               then drop 9 s else s)
      in if 2 \<le> length s \<and> s ! 0 = of_char CHR 0x7B \<and> s ! (length s - 1) = of_char CHR 0x7D
         then take (length s - 2) (drop 1 s) else s)"

definition fu_parse :: "strncasecmp \<Rightarrow> byte list \<Rightarrow> byte list option" where
  "fu_parse ncase s0 =
     (let s = fu_strip_pass ncase (fu_strip_pass ncase s0)
      in if length s = 36 then
           (if s ! 8 \<noteq> of_char CHR ''-'' \<or> s ! 13 \<noteq> of_char CHR ''-'' \<or>
               s ! 18 \<noteq> of_char CHR ''-'' \<or> s ! 23 \<noteq> of_char CHR ''-'' then None
            else fu_parse_hex_bytes s [0, 2, 4, 6, 9, 11, 14, 16, 19, 21, 24, 26, 28, 30, 32, 34])
         else if length s = 32 then fu_parse_hex_bytes s (map (\<lambda>i. i * 2) [0..<16])
         else None)"

subsection \<open>The comparison the parser relies on\<close>

definition ascii_lower :: "byte \<Rightarrow> byte" where
  "ascii_lower c = (if 65 \<le> c \<and> c \<le> 90 then c + 32 else c)"

definition strncasecmp_law :: "strncasecmp \<Rightarrow> bool" where
  "strncasecmp_law ncase \<longleftrightarrow>
     (\<forall>s t n. ncase s t n = 0 \<longleftrightarrow> map ascii_lower (take n s) = map ascii_lower (take n t))"

text \<open>An implementation of the law, for the witnesses.\<close>

definition ncase_ref :: "strncasecmp" where
  "ncase_ref s t n =
     (if map ascii_lower (take n s) = map ascii_lower (take n t) then 0 else 1)"

lemma strncasecmp_law_ref: "strncasecmp_law ncase_ref"
  by (simp add: strncasecmp_law_def ncase_ref_def)

subsection \<open>One hex digit, one byte\<close>

lemma unat_ascii_lower: "unat (ascii_lower c) = (if 65 \<le> unat c \<and> unat c \<le> 90 then unat c + 32 else unat c)"
proof -
  have "unat (c + 32) = unat c + 32" if "unat c \<le> 90"
    using that by (simp add: unat_word_ariths)
  then show ?thesis by (simp add: ascii_lower_def word_le_nat_alt)
qed

lemma nib_lut_byte: "fu_nib_lut ! unat (c :: byte) = nibble_of (unat c)"
  by (simp add: fu_nib_lut_nth)

lemma nib_lut_iff:
  assumes "v < 16"
  shows "fu_nib_lut ! unat c = int v \<longleftrightarrow> ascii_lower c = fu_hexd ! v"
proof -
  have "nibble_of n = int v \<longleftrightarrow>
        (if 65 \<le> n \<and> n \<le> 90 then n + 32 else n) = (if v < 10 then 48 + v else 87 + v)" for n
    using assms by (auto simp: nibble_of_def split: if_splits)
  then show ?thesis
    unfolding nib_lut_byte word_unat_eq_iff unat_ascii_lower unat_fu_hexd [OF assms] .
qed

lemma nib_lut_range: "fu_nib_lut ! unat (c :: byte) < 0 \<or> (\<exists>v < 16. fu_nib_lut ! unat c = int v)"
proof -
  consider "nibble_of (unat c) < 0" | "0 \<le> nibble_of (unat c)" "nibble_of (unat c) < 16"
    by (force simp: nibble_of_def split: if_splits)
  then show ?thesis
  proof cases
    case 2
    then have "nibble_of (unat c) = int (nat (nibble_of (unat c)))" "nat (nibble_of (unat c)) < 16"
      by simp_all
    then show ?thesis unfolding nib_lut_byte by blast
  qed (simp add: nib_lut_byte)
qed

lemma nibbles_to_byte:
  assumes "h < 16" and "l < 16"
  shows "unat (word_of_int (push_bit 4 (int h) OR int l) :: byte) = 16 * h + l"
proof -
  have "take_bit 4 l = l" using assms(2) by (simp add: take_bit_nat_eq_self)
  then have "\<not> bit l n" if "4 \<le> n" for n
    using that bit_take_bit_iff [of 4 l n] by simp
  then have "push_bit 4 h AND l = 0"
    by (intro bit_eqI) (auto simp: bit_simps)
  then have "push_bit 4 h OR l = 16 * h + l"
    by (simp add: disjunctive_add_eq_or [symmetric] push_bit_eq_mult)
  then have "push_bit 4 (int h) OR int l = int (16 * h + l)"
    by (metis of_nat_or_eq of_nat_push_bit)
  then have "word_of_int (push_bit 4 (int h) OR int l) = (of_nat (16 * h + l) :: byte)"
    by (simp only: of_int_of_nat_eq)
  then show ?thesis using assms by (intro of_nat_inverse) simp_all
qed

lemma parse_hex_byte_at_iff:
  "fu_parse_hex_byte_at s p = Some x \<longleftrightarrow>
     ascii_lower (s ! p) = hex_hi x \<and> ascii_lower (s ! (p + 1)) = hex_lo x"
proof -
  let ?hi = "fu_nib_lut ! unat (s ! p)" and ?lo = "fu_nib_lut ! unat (s ! (p + 1))"
  have R: "ascii_lower (s ! p) = hex_hi x \<and> ascii_lower (s ! (p + 1)) = hex_lo x \<longleftrightarrow>
           ?hi = int (unat x div 16) \<and> ?lo = int (unat x mod 16)"
    by (simp add: nib_lut_iff hex_hi_def hex_lo_def)
  show ?thesis
  proof (cases "?hi < 0 \<or> ?lo < 0")
    case True
    then show ?thesis unfolding R by (auto simp: fu_parse_hex_byte_at_def Let_def or_negative_int_iff)
  next
    case False
    then obtain h l where h: "h < 16" "?hi = int h" and l: "l < 16" "?lo = int l"
      using nib_lut_range [of "s ! p"] nib_lut_range [of "s ! (p + 1)"] by blast
    have "fu_parse_hex_byte_at s p = Some x \<longleftrightarrow> 16 * h + l = unat x"
      unfolding fu_parse_hex_byte_at_def Let_def h(2) l(2) nibbles_to_byte [OF h(1) l(1), symmetric]
      by (auto simp: or_negative_int_iff word_unat_eq_iff)
    also have "\<dots> \<longleftrightarrow> h = unat x div 16 \<and> l = unat x mod 16"
      using h(1) l(1) by (auto simp: eq_commute [of "16 * h + l"])
    finally show ?thesis unfolding R h(2) l(2) by simp
  qed
qed

lemma parse_hex_bytes_iff:
  "fu_parse_hex_bytes s ps = Some b \<longleftrightarrow>
     list_all2 (\<lambda>p x. ascii_lower (s ! p) = hex_hi x \<and> ascii_lower (s ! (p + 1)) = hex_lo x) ps b"
proof (induction ps arbitrary: b)
  case Nil
  then show ?case by auto
next
  case (Cons p ps)
  have "fu_parse_hex_bytes s (p # ps) = Some b \<longleftrightarrow>
        (\<exists>x xs. b = x # xs \<and> fu_parse_hex_byte_at s p = Some x \<and> fu_parse_hex_bytes s ps = Some xs)"
    by (auto split: option.splits)
  then show ?case
    unfolding Cons.IH parse_hex_byte_at_iff list_all2_Cons1 by auto
qed

lemma parse_hex_bytes_length: "fu_parse_hex_bytes s ps = Some b \<Longrightarrow> length b = length ps"
  by (simp add: parse_hex_bytes_iff list_all2_lengthD)

lemma ascii_lower_dash: "ascii_lower c = 45 \<longleftrightarrow> c = 45"
  by (simp only: word_unat_eq_iff unat_ascii_lower) auto

text \<open>The parser after the wrappers are stripped: it accepts exactly the texts that agree, up to
  letter case, with the canonical or the bare hexadecimal form of a 16-byte value.\<close>

definition fu_parse_core :: "byte list \<Rightarrow> byte list option" where
  "fu_parse_core s =
     (if length s = 36 then
        (if s ! 8 \<noteq> of_char CHR ''-'' \<or> s ! 13 \<noteq> of_char CHR ''-'' \<or>
            s ! 18 \<noteq> of_char CHR ''-'' \<or> s ! 23 \<noteq> of_char CHR ''-'' then None
         else fu_parse_hex_bytes s [0, 2, 4, 6, 9, 11, 14, 16, 19, 21, 24, 26, 28, 30, 32, 34])
      else if length s = 32 then fu_parse_hex_bytes s (map (\<lambda>i. i * 2) [0..<16])
      else None)"

lemma fu_parse_eq_core:
  "fu_parse ncase s = fu_parse_core (fu_strip_pass ncase (fu_strip_pass ncase s))"
  by (simp add: fu_parse_def fu_parse_core_def Let_def)

lemma upt_0_32: "[0..<32] = [0, 1, 2, 3, 4, 5, 6, 7, 8, 9, 10, 11, 12, 13, 14, 15, 16, 17, 18, 19,
    20, 21, 22, 23, 24, 25, 26, 27, 28, 29, 30, 31 :: nat]"
  by code_simp

lemma upt_0_36: "[0..<36] = [0, 1, 2, 3, 4, 5, 6, 7, 8, 9, 10, 11, 12, 13, 14, 15, 16, 17, 18, 19,
    20, 21, 22, 23, 24, 25, 26, 27, 28, 29, 30, 31, 32, 33, 34, 35 :: nat]"
  by code_simp

lemma parse_core_36:
  assumes "length s = 36"
  shows "fu_parse_core s = Some b \<longleftrightarrow>
         length b = 16 \<and> map ascii_lower s = fu_format36 h b"
proof (cases "length b = 16")
  case True
  have m: "map ascii_lower s = map (\<lambda>i. ascii_lower (s ! i)) [0..<36]"
    using map_index [of ascii_lower s] assms by simp
  have "fu_parse_core s = Some b \<longleftrightarrow>
        s ! 8 = 45 \<and> s ! 13 = 45 \<and> s ! 18 = 45 \<and> s ! 23 = 45 \<and>
        fu_parse_hex_bytes s [0, 2, 4, 6, 9, 11, 14, 16, 19, 21, 24, 26, 28, 30, 32, 34] =
          Some [b ! 0, b ! 1, b ! 2, b ! 3, b ! 4, b ! 5, b ! 6, b ! 7,
                b ! 8, b ! 9, b ! 10, b ! 11, b ! 12, b ! 13, b ! 14, b ! 15]"
    unfolding list_16 [OF True, symmetric] using assms by (auto simp: fu_parse_core_def)
  also have "\<dots> \<longleftrightarrow> map ascii_lower s = fu_format36 h b"
    unfolding m upt_0_36 fu_format36_chars [OF True] parse_hex_bytes_iff
    by (simp add: ascii_lower_dash conj_ac)
  finally show ?thesis using True by simp
next
  case False
  then show ?thesis
    using assms
    by (auto simp: fu_parse_core_def simp del: fu_parse_hex_bytes.simps
        dest: parse_hex_bytes_length split: if_splits)
qed

lemma parse_core_32:
  assumes "length s = 32"
  shows "fu_parse_core s = Some b \<longleftrightarrow> length b = 16 \<and> map ascii_lower s = hex_spec b"
proof (cases "length b = 16")
  case True
  have m: "map ascii_lower s = map (\<lambda>i. ascii_lower (s ! i)) [0..<32]"
    using map_index [of ascii_lower s] assms by simp
  have hx: "hex_spec b = hex_spec [b ! 0, b ! 1, b ! 2, b ! 3, b ! 4, b ! 5, b ! 6, b ! 7,
      b ! 8, b ! 9, b ! 10, b ! 11, b ! 12, b ! 13, b ! 14, b ! 15]"
    by (rule arg_cong [OF list_16 [OF True]])
  have "fu_parse_core s = Some b \<longleftrightarrow>
        fu_parse_hex_bytes s (map (\<lambda>i. i * 2) [0..<16]) =
          Some [b ! 0, b ! 1, b ! 2, b ! 3, b ! 4, b ! 5, b ! 6, b ! 7,
                b ! 8, b ! 9, b ! 10, b ! 11, b ! 12, b ! 13, b ! 14, b ! 15]"
    unfolding list_16 [OF True, symmetric] using assms by (simp add: fu_parse_core_def)
  also have "\<dots> \<longleftrightarrow> map ascii_lower s = hex_spec b"
    unfolding m upt_0_32 upt_0_16 hx parse_hex_bytes_iff
    by (simp add: hex_spec_def hex_pair_eq conj_ac)
  finally show ?thesis using True by simp
next
  case False
  then show ?thesis
    using assms
    by (auto simp: fu_parse_core_def simp del: fu_parse_hex_bytes.simps
        dest: parse_hex_bytes_length split: if_splits)
qed

lemma fu_parse_core_iff:
  "fu_parse_core s = Some b \<longleftrightarrow>
     length b = 16 \<and> (map ascii_lower s = fu_format36 h b \<or> map ascii_lower s = hex_spec b)"
proof -
  have l36: "length s = 36" if "map ascii_lower s = fu_format36 h b" "length b = 16"
    using that by (metis length_fu_format36 length_map)
  have l32: "length s = 32" if "map ascii_lower s = hex_spec b" "length b = 16"
    using arg_cong [OF that(1), of length] that(2) by simp
  consider "length s = 36" | "length s = 32" | "length s \<noteq> 36" "length s \<noteq> 32" by blast
  then show ?thesis
  proof cases
    case 1
    then show ?thesis using parse_core_36 [OF 1] l32 by auto
  next
    case 2
    then show ?thesis using parse_core_32 [OF 2] l36 by auto
  next
    case 3
    then show ?thesis using l32 l36 by (auto simp: fu_parse_core_def)
  qed
qed

subsection \<open>The wrappers\<close>

text \<open>One layer of wrapping: an optional \<open>urn:uuid:\<close> in any letter case, then optional
  braces.  The two passes of the parser undo two layers.\<close>

definition is_urn_prefix :: "byte list \<Rightarrow> bool" where
  "is_urn_prefix u \<longleftrightarrow> u = [] \<or> map ascii_lower u = lit ''urn:uuid:''"

definition wrap_uuid :: "byte list \<Rightarrow> bool \<Rightarrow> byte list \<Rightarrow> byte list" where
  "wrap_uuid u braced t = u @ (if braced then [0x7B] @ t @ [0x7D] else t)"

definition is_hex_text :: "byte list \<Rightarrow> byte list \<Rightarrow> bool" where
  "is_hex_text t b \<longleftrightarrow>
     length b = 16 \<and> (map ascii_lower t = fu_format36 FU_NO_SIMD b \<or> map ascii_lower t = hex_spec b)"

definition strip_urn :: "strncasecmp \<Rightarrow> byte list \<Rightarrow> byte list" where
  "strip_urn ncase s =
     (if 9 \<le> length s \<and> (s ! 0 = 0x75 \<or> s ! 0 = 0x55) \<and> ncase s (lit ''urn:uuid:'') 9 = 0
      then drop 9 s else s)"

definition strip_braces :: "byte list \<Rightarrow> byte list" where
  "strip_braces s =
     (if 2 \<le> length s \<and> s ! 0 = 0x7B \<and> s ! (length s - 1) = 0x7D
      then take (length s - 2) (drop 1 s) else s)"

lemma fu_strip_pass_eq: "fu_strip_pass ncase s = strip_braces (strip_urn ncase s)"
  by (simp add: fu_strip_pass_def strip_urn_def strip_braces_def Let_def)

lemma strip_braces_wrap [simp]: "strip_braces (0x7B # t @ [0x7D]) = t"
  by (simp add: strip_braces_def nth_append)

lemma strip_braces_other: "s ! 0 \<noteq> 0x7B \<Longrightarrow> strip_braces s = s"
  by (simp add: strip_braces_def)

lemma strip_braces_inv: "\<exists>c. s = wrap_uuid [] c (strip_braces s)"
proof (cases "2 \<le> length s \<and> s ! 0 = 0x7B \<and> s ! (length s - 1) = 0x7D")
  case True
  then obtain x xs where s: "s = x # xs" by (cases s) auto
  with True have "xs \<noteq> []" by auto
  then have "xs = butlast xs @ [last xs]" by simp
  moreover have "last xs = 0x7D" using True \<open>xs \<noteq> []\<close> by (simp add: s last_conv_nth)
  ultimately have s': "s = 0x7B # butlast xs @ [0x7D]" using True by (simp add: s)
  have "strip_braces s = butlast xs"
    by (subst s') (rule strip_braces_wrap)
  with s' have "s = wrap_uuid [] True (strip_braces s)"
    by (simp add: wrap_uuid_def)
  then show ?thesis by blast
next
  case False
  then have "s = wrap_uuid [] False (strip_braces s)"
    by (auto simp: strip_braces_def wrap_uuid_def)
  then show ?thesis by blast
qed

lemma urn_prefix_props:
  assumes "is_urn_prefix u" and "u \<noteq> []"
  shows "length u = 9" and "u ! 0 = 0x75 \<or> u ! 0 = 0x55" and "map ascii_lower u = lit ''urn:uuid:''"
proof -
  show m: "map ascii_lower u = lit ''urn:uuid:''" using assms by (simp add: is_urn_prefix_def)
  from arg_cong [OF m, of length] show l: "length u = 9" by simp
  from arg_cong [OF m, of "\<lambda>t. t ! 0"] l have "ascii_lower (u ! 0) = 0x75" by (simp add: lit_def)
  then show "u ! 0 = 0x75 \<or> u ! 0 = 0x55"
    unfolding word_unat_eq_iff unat_ascii_lower by (auto split: if_splits)
qed

lemma lower_urn: "map ascii_lower (lit ''urn:uuid:'') = lit ''urn:uuid:''"
  by (simp add: lit_def ascii_lower_def)

lemma strip_urn_prefix:
  assumes "strncasecmp_law ncase" and "is_urn_prefix u" and "u \<noteq> []"
  shows "strip_urn ncase (u @ t) = t"
  using urn_prefix_props [OF assms(2,3)] assms(1)
  by (auto simp: strip_urn_def strncasecmp_law_def nth_append lower_urn)

lemma strip_urn_other: "s ! 0 \<noteq> 0x75 \<Longrightarrow> s ! 0 \<noteq> 0x55 \<Longrightarrow> strip_urn ncase s = s"
  by (simp add: strip_urn_def)

lemma strip_urn_inv:
  assumes "strncasecmp_law ncase"
  shows "\<exists>u. is_urn_prefix u \<and> s = u @ strip_urn ncase s"
proof (cases "strip_urn ncase s = s")
  case True
  then show ?thesis by (metis append_Nil is_urn_prefix_def)
next
  case False
  then have "ncase s (lit ''urn:uuid:'') 9 = 0" "strip_urn ncase s = drop 9 s"
    by (auto simp: strip_urn_def split: if_splits)
  then have "is_urn_prefix (take 9 s)" "s = take 9 s @ strip_urn ncase s"
    using assms by (simp_all add: strncasecmp_law_def is_urn_prefix_def lower_urn)
  then show ?thesis by blast
qed

lemma fu_strip_pass_inv:
  assumes "strncasecmp_law ncase"
  shows "\<exists>u c. is_urn_prefix u \<and> s = wrap_uuid u c (fu_strip_pass ncase s)"
proof -
  obtain u where u: "is_urn_prefix u" "s = u @ strip_urn ncase s"
    using strip_urn_inv [OF assms] by blast
  obtain c where "strip_urn ncase s = wrap_uuid [] c (strip_braces (strip_urn ncase s))"
    using strip_braces_inv by blast
  with u have "s = wrap_uuid u c (fu_strip_pass ncase s)"
    unfolding fu_strip_pass_eq by (metis append_Nil wrap_uuid_def)
  with u(1) show ?thesis by blast
qed

lemma hex_digit_chars:
  "v < 16 \<Longrightarrow> ascii_lower c = fu_hexd ! v \<Longrightarrow> c \<noteq> 0x75 \<and> c \<noteq> 0x55 \<and> c \<noteq> 0x7B"
  unfolding word_unat_eq_iff unat_ascii_lower by (auto simp: unat_fu_hexd split: if_splits)

lemma hex_text_head:
  assumes "is_hex_text t b"
  shows "t \<noteq> []" and "t ! 0 \<noteq> 0x75" and "t ! 0 \<noteq> 0x55" and "t ! 0 \<noteq> 0x7B"
proof -
  have len: "length b = 16" using assms by (simp add: is_hex_text_def)
  have "hex_spec b ! 0 = hex_hi (b ! 0)"
    using list_16 [OF len] by (cases b) (simp_all add: hex_spec_def hex_pair_eq)
  moreover have "fu_format36 FU_NO_SIMD b ! 0 = hex_hi (b ! 0)"
    by (simp add: fu_format36_chars [OF len])
  ultimately have h: "map ascii_lower t ! 0 = hex_hi (b ! 0)"
    using assms by (auto simp: is_hex_text_def)
  have "length (fu_format36 FU_NO_SIMD b) \<noteq> 0"
    using length_fu_format36 [OF len, of FU_NO_SIMD] by simp
  moreover have "hex_spec b \<noteq> []"
    using len by (cases b) (simp_all add: hex_spec_def hex_pair_def)
  ultimately show "t \<noteq> []" using assms by (auto simp: is_hex_text_def)
  then have "ascii_lower (t ! 0) = hex_hi (b ! 0)" using h by simp
  then show "t ! 0 \<noteq> 0x75" "t ! 0 \<noteq> 0x55" "t ! 0 \<noteq> 0x7B"
    using hex_digit_chars [of "unat (b ! 0) div 16" "t ! 0"] by (simp_all add: hex_hi_def)
qed

lemma hex_text_core: "fu_parse_core t = Some b \<longleftrightarrow> is_hex_text t b"
  unfolding is_hex_text_def by (rule fu_parse_core_iff)

lemma strip_pass_hex_text:
  assumes "is_hex_text t b"
  shows "fu_strip_pass ncase t = t"
  using hex_text_head [OF assms]
  by (simp add: fu_strip_pass_eq strip_urn_other strip_braces_other)

lemma strip_pass_wrap:
  assumes "strncasecmp_law ncase" and "is_urn_prefix u"
  shows "fu_strip_pass ncase (wrap_uuid u True t) = t"
    and "u \<noteq> [] \<Longrightarrow> fu_strip_pass ncase (wrap_uuid u False t) = strip_braces t"
proof -
  show "fu_strip_pass ncase (wrap_uuid u True t) = t"
    using strip_urn_prefix [OF assms]
    by (cases "u = []") (simp_all add: fu_strip_pass_eq wrap_uuid_def strip_urn_other)
  show "fu_strip_pass ncase (wrap_uuid u False t) = strip_braces t" if "u \<noteq> []"
    using strip_urn_prefix [OF assms that] by (simp add: fu_strip_pass_eq wrap_uuid_def)
qed

lemma strip_pass_one:
  assumes "strncasecmp_law ncase" and "is_urn_prefix u" and "is_hex_text t b"
  shows "fu_strip_pass ncase (wrap_uuid u c t) = t"
proof (cases "c \<or> u \<noteq> []")
  case True
  then show ?thesis
    using strip_pass_wrap [OF assms(1,2), of t] hex_text_head [OF assms(3)]
    by (cases c) (simp_all add: strip_braces_other)
next
  case False
  then show ?thesis using strip_pass_hex_text [OF assms(3)] by (simp add: wrap_uuid_def)
qed

lemma strip_pass_two:
  assumes "strncasecmp_law ncase" and "is_urn_prefix u" and "is_urn_prefix v" and "is_hex_text t b"
  shows "fu_strip_pass ncase (fu_strip_pass ncase (wrap_uuid u c (wrap_uuid v d t))) = t"
proof (cases "c")
  case True
  then show ?thesis
    using strip_pass_wrap(1) [OF assms(1,2)] strip_pass_one [OF assms(1,3,4)] by simp
next
  case c: False
  show ?thesis
  proof (cases "u = []")
    case True
    with c show ?thesis
      using strip_pass_one [OF assms(1,3,4)] strip_pass_hex_text [OF assms(4)]
      by (simp add: wrap_uuid_def)
  next
    case False
    have "strip_braces (wrap_uuid v d t) = t \<or> strip_braces (wrap_uuid v d t) = wrap_uuid v d t"
    proof (cases "v = []")
      case True
      then show ?thesis
        using hex_text_head [OF assms(4)] by (cases d) (simp_all add: wrap_uuid_def strip_braces_other)
    next
      case False
      then have "wrap_uuid v d t ! 0 \<noteq> 0x7B"
        using urn_prefix_props [OF assms(3) False] by (auto simp: wrap_uuid_def nth_append)
      then show ?thesis by (simp add: strip_braces_other)
    qed
    with False c show ?thesis
      using strip_pass_wrap(2) [OF assms(1,2) False] strip_pass_one [OF assms(1,3,4)]
        strip_pass_hex_text [OF assms(4)] by auto
  qed
qed

subsection \<open>What the parser accepts, and round trips\<close>

text \<open>C9: \<open>fu_parse\<close> accepts exactly the texts that are, under at most two layers of
  \<open>urn:uuid:\<close> / brace wrapping and up to letter case, the canonical 36-character form or the 32
  hex digits of a 16-byte value, and then returns that value.\<close>

theorem fu_parse_accepts_iff:
  assumes "strncasecmp_law ncase"
  shows "fu_parse ncase s = Some b \<longleftrightarrow>
    (\<exists>u c v d t. is_urn_prefix u \<and> is_urn_prefix v \<and>
       s = wrap_uuid u c (wrap_uuid v d t) \<and> is_hex_text t b)"
proof
  assume p: "fu_parse ncase s = Some b"
  let ?s1 = "fu_strip_pass ncase s"
  let ?t = "fu_strip_pass ncase ?s1"
  have t: "is_hex_text ?t b"
    using p by (simp add: fu_parse_eq_core hex_text_core)
  obtain u c where "is_urn_prefix u" "s = wrap_uuid u c ?s1"
    using fu_strip_pass_inv [OF assms] by blast
  moreover obtain v d where "is_urn_prefix v" "?s1 = wrap_uuid v d ?t"
    using fu_strip_pass_inv [OF assms] by blast
  ultimately have "is_urn_prefix u \<and> is_urn_prefix v \<and>
      s = wrap_uuid u c (wrap_uuid v d ?t) \<and> is_hex_text ?t b"
    using t by metis
  then show "\<exists>u c v d t. is_urn_prefix u \<and> is_urn_prefix v \<and>
       s = wrap_uuid u c (wrap_uuid v d t) \<and> is_hex_text t b" by blast
next
  assume "\<exists>u c v d t. is_urn_prefix u \<and> is_urn_prefix v \<and>
       s = wrap_uuid u c (wrap_uuid v d t) \<and> is_hex_text t b"
  then show "fu_parse ncase s = Some b"
    using strip_pass_two [OF assms] by (auto simp: fu_parse_eq_core hex_text_core)
qed

theorem fu_parse_accepts_iff_witness:
  "fu_parse ncase_ref (lit ''URN:uuid:{00000000-0000-0000-0000-0000000000Ff}'')
     = Some (replicate 15 0 @ [255])"
proof -
  let ?u = "lit ''URN:uuid:''" and ?t = "lit ''00000000-0000-0000-0000-0000000000Ff''"
  let ?b = "replicate 15 0 @ [255 :: byte]"
  have "is_urn_prefix ?u" by (simp add: is_urn_prefix_def lit_def ascii_lower_def)
  moreover have "is_urn_prefix []" by (simp add: is_urn_prefix_def)
  moreover have "is_hex_text ?t ?b"
    by (simp add: is_hex_text_def fu_format36_chars hex_hi_def hex_lo_def lit_def fu_hexd_def
        ascii_lower_def nth_append)
  moreover have "lit ''URN:uuid:{00000000-0000-0000-0000-0000000000Ff}''
      = wrap_uuid ?u True (wrap_uuid [] False ?t)"
    by (simp add: wrap_uuid_def lit_def)
  ultimately show ?thesis
    using fu_parse_accepts_iff [OF strncasecmp_law_ref] by blast
qed

text \<open>The canonical text is its own lower-case form, so printing then parsing is the identity,
  with no assumption on the comparison function.\<close>

lemma ascii_lower_hexd: "v < 16 \<Longrightarrow> ascii_lower (fu_hexd ! v) = fu_hexd ! v"
  unfolding word_unat_eq_iff unat_ascii_lower by (simp add: unat_fu_hexd)

lemma ascii_lower_hex [simp]: "ascii_lower (hex_hi x) = hex_hi x" "ascii_lower (hex_lo x) = hex_lo x"
  by (simp_all add: hex_hi_def hex_lo_def ascii_lower_hexd)

lemma is_hex_text_format36: "length b = 16 \<Longrightarrow> is_hex_text (fu_format36 h b) b"
  unfolding is_hex_text_def
  by (simp add: fu_format36_chars ascii_lower_dash)

lemma is_hex_text_hex_spec: "length b = 16 \<Longrightarrow> is_hex_text (hex_spec b) b"
proof -
  have "map ascii_lower (hex_spec b) = hex_spec b"
    by (induction b) (simp_all add: hex_spec_def hex_pair_eq)
  then show "length b = 16 \<Longrightarrow> is_hex_text (hex_spec b) b" by (simp add: is_hex_text_def)
qed

lemma fu_parse_hex_text: "is_hex_text t b \<Longrightarrow> fu_parse ncase t = Some b"
  by (simp add: fu_parse_eq_core strip_pass_hex_text hex_text_core)

lemma fu_parse_format36 [simp]:
  "length b = 16 \<Longrightarrow> fu_parse ncase (fu_format36 h b) = Some b"
  by (rule fu_parse_hex_text) (rule is_hex_text_format36)

lemma fu_parse_hex32 [simp]: "length b = 16 \<Longrightarrow> fu_parse ncase (fu_hex32 h b) = Some b"
  by (simp add: fu_hex32_spec fu_parse_hex_text is_hex_text_hex_spec)

lemma fu_parse_length: "fu_parse ncase s = Some b \<Longrightarrow> length b = 16"
  by (simp add: fu_parse_eq_core hex_text_core is_hex_text_def)

lemma fu_parse_urn:
  assumes "strncasecmp_law ncase" and "length b = 16"
  shows "fu_parse ncase (lit ''urn:uuid:'' @ fu_format36 h b) = Some b"
proof -
  have "is_urn_prefix (lit ''urn:uuid:'')" by (simp add: is_urn_prefix_def lower_urn)
  from strip_pass_one [OF assms(1) this is_hex_text_format36 [OF assms(2)], of False h]
  show ?thesis
    using strip_pass_hex_text [OF is_hex_text_format36 [OF assms(2)]] is_hex_text_format36 [OF assms(2)]
    by (simp add: fu_parse_eq_core hex_text_core wrap_uuid_def)
qed

text \<open>Every accepted text has one canonical spelling: parsing what was printed from a parse
  result gives the same bytes, and two texts with the same bytes print alike.\<close>

lemma fu_format36_inject:
  assumes "length a = 16" and "length b = 16" and "fu_format36 h a = fu_format36 h b"
  shows "a = b"
proof -
  have "fu_parse ncase_ref (fu_format36 h a) = Some b" using assms by simp
  with assms(1) show ?thesis by simp
qed

end
