(* ===== verification/Fu_Decimal.thy ===== *)
theory Fu_Decimal
  imports Fu_Prelude "HOL-Library.While_Combinator"
begin

section \<open>128-bit decimal conversion\<close>

text \<open>
  \<open>fu_to_decimal\<close> divides the 16-byte array by ten in place until it is zero and writes the
  remainders from the end of a 40-byte buffer; \<open>fu_from_decimal\<close> multiplies and adds in place,
  and rejects a non-canonical text or a carry out of the array.  \<open>dec_string\<close> and \<open>be_nat\<close>
  are the reference: the decimal numeral of the number the bytes denote.
\<close>

subsection \<open>The code\<close>

text \<open>The inner loop of \<open>fu_to_decimal\<close>: one pass of division by ten, most significant byte
  first; the last remainder is the digit.\<close>

fun div10_pass :: "nat \<Rightarrow> byte list \<Rightarrow> byte list \<times> nat" where
  "div10_pass rem [] = ([], rem)"
| "div10_pass rem (x # xs) =
     (let cur = push_bit 8 rem OR unat x;
          r = div10_pass (cur mod 10) xs
      in (of_nat (cur div 10) # fst r, snd r))"

lemma or_low_byte: "push_bit 8 m OR unat (x :: byte) = m * 256 + unat x"
proof -
  have "take_bit 8 (unat x) = unat x" by (simp add: take_bit_nat_eq_self)
  then have "\<not> bit (unat x) n" if "8 \<le> n" for n
    using that bit_take_bit_iff [of 8 "unat x" n] by simp
  then have "push_bit 8 m AND unat x = 0" by (intro bit_eqI) (auto simp: bit_simps)
  then show ?thesis by (simp add: disjunctive_add_eq_or [symmetric] push_bit_eq_mult)
qed

lemma div10_pass_value:
  "r < 10 \<Longrightarrow>
   be_nat (fst (div10_pass r xs)) * 10 + snd (div10_pass r xs) = r * 256 ^ length xs + be_nat xs
   \<and> snd (div10_pass r xs) < 10 \<and> length (fst (div10_pass r xs)) = length xs"
proof (induction r xs rule: div10_pass.induct)
  case (1 r)
  then show ?case by simp
next
  case (2 r x xs)
  let ?cur = "r * 256 + unat x"
  have c: "push_bit 8 r OR unat x = ?cur" by (rule or_low_byte)
  have "?cur < 2560" using 2(2) unat_byte_less [of x] by linarith
  then have q: "unat (of_nat (?cur div 10) :: byte) = ?cur div 10"
    by (intro of_nat_inverse) (auto simp: less_mult_imp_div_less)
  define a m where "a = ?cur div 10" and "m = ?cur mod 10"
  define Q d where "Q = be_nat (fst (div10_pass m xs))" and "d = snd (div10_pass m xs)"
  have "m < 10" by (simp add: m_def)
  with 2(1) [unfolded c, OF refl] have IH: "Q * 10 + d = m * 256 ^ length xs + be_nat xs"
    "d < 10" "length (fst (div10_pass m xs)) = length xs"
    unfolding Q_def d_def m_def by blast+
  have "a * 10 + m = ?cur" by (simp add: a_def m_def)
  then have "(a * 10 + m) * 256 ^ length xs = ?cur * 256 ^ length xs" by (simp only:)
  then have "(a * 256 ^ length xs + Q) * 10 + d
      = r * 256 ^ length (x # xs) + (unat x * 256 ^ length xs + be_nat xs)"
    using IH(1) by (simp add: add_mult_distrib)
  with IH(2,3) q show ?case
    by (simp add: c Let_def a_def [symmetric] m_def [symmetric] Q_def d_def)
qed

lemma nonzero_bytes_be_nat: "list_ex (\<lambda>x. x \<noteq> 0) t \<longleftrightarrow> 0 < be_nat t"
  by (induction t) (auto simp: unat_gt_0)

lemma div10_pass_be_nat:
  shows "be_nat (fst (div10_pass 0 t)) = be_nat t div 10"
    and "snd (div10_pass 0 t) = be_nat t mod 10"
    and "length (fst (div10_pass 0 t)) = length t"
proof -
  have X: "Q = N div 10 \<and> d = N mod 10" if "Q * 10 + d = N" "d < 10" for Q d N :: nat
    using that by auto
  have "be_nat (fst (div10_pass 0 t)) * 10 + snd (div10_pass 0 t) = be_nat t"
    "snd (div10_pass 0 t) < 10"
    using div10_pass_value [of 0 t] by simp_all
  from X [OF this]
  show "be_nat (fst (div10_pass 0 t)) = be_nat t div 10" "snd (div10_pass 0 t) = be_nat t mod 10"
    by blast+
  show "length (fst (div10_pass 0 t)) = length t"
    using div10_pass_value [of 0 t] by simp
qed

text \<open>The outer \<open>do \<dots> while (nz)\<close>; \<open>acc\<close> is \<open>buf[pos..40)\<close>.\<close>

function fu_to_decimal_loop :: "byte list \<Rightarrow> byte list \<Rightarrow> byte list" where
  "fu_to_decimal_loop t acc =
     (let r = div10_pass 0 t;
          acc = of_nat (48 + snd r) # acc
      in if list_ex (\<lambda>x. x \<noteq> 0) (fst r) then fu_to_decimal_loop (fst r) acc else acc)"
  by pat_completeness auto
termination
  by (relation "measure (\<lambda>(t, acc). be_nat t)")
     (auto simp: nonzero_bytes_be_nat div10_pass_be_nat)

declare fu_to_decimal_loop.simps [simp del]

definition fu_to_decimal :: "byte list \<Rightarrow> byte list" where
  "fu_to_decimal b = fu_to_decimal_loop b []"

text \<open>The inner loop of \<open>fu_from_decimal\<close>, from the last byte to the first; the result is the
  array and the carry out of it.\<close>

fun mul10_add :: "nat \<Rightarrow> byte list \<Rightarrow> byte list \<times> nat" where
  "mul10_add carry [] = ([], carry)"
| "mul10_add carry (x # xs) =
     (let r = mul10_add carry xs;
          cur = unat x * 10 + snd r
      in (of_nat (cur AND 255) # fst r, drop_bit 8 cur))"

fun fu_from_decimal_loop :: "byte list \<Rightarrow> byte list \<Rightarrow> byte list option" where
  "fu_from_decimal_loop out [] = Some out"
| "fu_from_decimal_loop out (c # s) =
     (if c < 48 \<or> 57 < c then None
      else let r = mul10_add (unat c - 48) out
           in if snd r \<noteq> 0 then None else fu_from_decimal_loop (fst r) s)"

definition fu_from_decimal :: "byte list \<Rightarrow> byte list option" where
  "fu_from_decimal s =
     (if length s = 0 then None
      else if (1 < length s \<and> s ! 0 = 48) \<or> 39 < length s then None
      else fu_from_decimal_loop (replicate 16 0) s)"

subsection \<open>The reference: decimal numerals\<close>

fun dec_string :: "nat \<Rightarrow> byte list" where
  "dec_string n = (if n < 10 then [of_nat (48 + n)] else dec_string (n div 10) @ [of_nat (48 + n mod 10)])"

declare dec_string.simps [simp del]

definition dec_val :: "byte list \<Rightarrow> nat" where
  "dec_val s = foldl (\<lambda>a c. a * 10 + (unat c - 48)) 0 s"

definition is_digit :: "byte \<Rightarrow> bool" where
  "is_digit c \<longleftrightarrow> 48 \<le> unat c \<and> unat c \<le> 57"

definition canonical_decimal :: "byte list \<Rightarrow> bool" where
  "canonical_decimal s \<longleftrightarrow>
     s \<noteq> [] \<and> list_all is_digit s \<and> (1 < length s \<longrightarrow> s ! 0 \<noteq> 48)"

lemma unat_digit: "d < 10 \<Longrightarrow> unat (of_nat (48 + d) :: byte) = 48 + d"
  by (intro of_nat_inverse) simp_all

lemma is_digit_of_nat: "d < 10 \<Longrightarrow> is_digit (of_nat (48 + d))"
  by (simp add: is_digit_def unat_digit del: of_nat_add)

lemma dec_val_snoc: "dec_val (s @ [c]) = dec_val s * 10 + (unat c - 48)"
  by (simp add: dec_val_def)

lemma dec_string_props:
  "dec_val (dec_string n) = n \<and> dec_string n \<noteq> [] \<and> list_all is_digit (dec_string n) \<and>
   (10 \<le> n \<or> 0 < n \<longrightarrow> dec_string n ! 0 \<noteq> 48) \<and> (n < 10 \<longrightarrow> length (dec_string n) = 1)"
proof (induction n rule: dec_string.induct)
  case (1 n)
  show ?case
  proof (cases "n < 10")
    case True
    have "(of_nat (48 + n) :: byte) \<noteq> 48" if "0 < n"
      using unat_digit [OF True] that by (auto simp: word_unat_eq_iff)
    with True show ?thesis
      by (subst (1 2 3 4 5) dec_string.simps)
         (simp add: dec_val_def is_digit_of_nat [OF True] unat_digit [OF True] del: of_nat_add)
  next
    case False
    have "n mod 10 < 10" by simp
    note d = unat_digit [OF this]
    from 1 [OF False] have "dec_string (n div 10) ! 0 \<noteq> 48" "dec_string (n div 10) \<noteq> []"
      using False by auto
    with 1 [OF False] False d show ?thesis
      by (subst (1 2 3 4 5) dec_string.simps)
         (simp add: dec_val_snoc is_digit_of_nat nth_append del: of_nat_add)
  qed
qed

lemmas dec_val_dec_string [simp] = dec_string_props [THEN conjunct1]

lemma canonical_dec_string: "canonical_decimal (dec_string n)"
proof (cases "n < 10")
  case True
  then show ?thesis using dec_string_props [of n] by (auto simp: canonical_decimal_def)
next
  case False
  then show ?thesis using dec_string_props [of n] by (auto simp: canonical_decimal_def)
qed

lemma canonical_decimal_snoc:
  assumes "canonical_decimal (s @ [c])"
  shows "is_digit c" and "s \<noteq> [] \<Longrightarrow> canonical_decimal s \<and> s ! 0 \<noteq> 48"
  using assms by (auto simp: canonical_decimal_def nth_append split: if_splits)

lemma dec_val_pos: "s \<noteq> [] \<Longrightarrow> list_all is_digit s \<Longrightarrow> s ! 0 \<noteq> 48 \<Longrightarrow> 0 < dec_val s"
proof (induction s rule: rev_induct)
  case Nil
  then show ?case by simp
next
  case (snoc c s)
  show ?case
  proof (cases "s = []")
    case True
    with snoc.prems have "unat c \<noteq> 48" "48 \<le> unat c"
      by (auto simp: is_digit_def word_unat_eq_iff)
    with True show ?thesis by (simp add: dec_val_def)
  next
    case False
    with snoc show ?thesis by (simp add: dec_val_snoc nth_append)
  qed
qed

lemma dec_string_dec_val: "canonical_decimal s \<Longrightarrow> dec_string (dec_val s) = s"
proof (induction s rule: rev_induct)
  case Nil
  then show ?case by (simp add: canonical_decimal_def)
next
  case (snoc c s)
  have c: "is_digit c" by (rule canonical_decimal_snoc(1) [OF snoc.prems])
  then have "(of_nat (48 + (unat c - 48)) :: byte) = c" by (simp add: is_digit_def)
  moreover have d: "unat c - 48 < 10" using c unfolding is_digit_def by linarith
  ultimately show ?case
  proof (cases "s = []")
    case True
    then show ?thesis
      using d \<open>of_nat (48 + (unat c - 48)) = c\<close>
      by (subst dec_string.simps) (simp add: dec_val_def del: of_nat_add)
  next
    case False
    have s: "canonical_decimal s" "s ! 0 \<noteq> 48"
      using canonical_decimal_snoc(2) [OF snoc.prems False] by auto
    then have "0 < dec_val s" using False by (intro dec_val_pos) (auto simp: canonical_decimal_def)
    then show ?thesis
      using d \<open>of_nat (48 + (unat c - 48)) = c\<close> snoc.IH [OF s(1)]
      by (subst dec_string.simps) (simp add: dec_val_snoc del: of_nat_add)
  qed
qed

lemma length_dec_string: "0 < k \<Longrightarrow> n < 10 ^ k \<Longrightarrow> length (dec_string n) \<le> k"
proof (induction n arbitrary: k rule: dec_string.induct)
  case (1 n)
  show ?case
  proof (cases "n < 10")
    case True
    then show ?thesis using 1(2) by (subst dec_string.simps) simp
  next
    case False
    then obtain j where k: "k = Suc j" "0 < j"
      using 1(2,3) by (cases k; cases "k = 1") auto
    then have "n div 10 < 10 ^ j" using 1(3) by (simp add: less_mult_imp_div_less mult.commute)
    with 1(1) [OF False k(2)] False k(1) show ?thesis by (subst dec_string.simps) simp
  qed
qed

subsection \<open>Printing\<close>

lemma fu_to_decimal_loop_eq: "fu_to_decimal_loop t acc = dec_string (be_nat t) @ acc"
proof (induction t acc rule: fu_to_decimal_loop.induct)
  case (1 t acc)
  show ?case
  proof (cases "be_nat t < 10")
    case True
    then have "\<not> list_ex (\<lambda>x. x \<noteq> 0) (fst (div10_pass 0 t))"
      by (simp add: nonzero_bytes_be_nat div10_pass_be_nat)
    with True show ?thesis
      by (subst fu_to_decimal_loop.simps, subst dec_string.simps)
         (simp add: div10_pass_be_nat Let_def)
  next
    case False
    then have nz: "list_ex (\<lambda>x. x \<noteq> 0) (fst (div10_pass 0 t))"
      by (simp add: nonzero_bytes_be_nat div10_pass_be_nat)
    from 1 [OF refl refl this] False nz show ?thesis
      by (subst fu_to_decimal_loop.simps, subst dec_string.simps)
         (simp add: div10_pass_be_nat Let_def)
  qed
qed

lemma fu_to_decimal_dec_string: "fu_to_decimal b = dec_string (be_nat b)"
  by (simp add: fu_to_decimal_def fu_to_decimal_loop_eq)

lemma length_fu_to_decimal: "length b = 16 \<Longrightarrow> length (fu_to_decimal b) \<le> 39"
  unfolding fu_to_decimal_dec_string
proof (rule length_dec_string)
  assume "length b = 16"
  then have "be_nat b < 2 ^ 128" by (rule be_nat_less_128)
  also have "(2 :: nat) ^ 128 < 10 ^ 39" by simp
  finally show "be_nat b < 10 ^ 39" .
qed simp

subsection \<open>Parsing\<close>

lemma mul10_add_value:
  "c < 10 \<Longrightarrow>
   be_nat (fst (mul10_add c xs)) + snd (mul10_add c xs) * 256 ^ length xs = be_nat xs * 10 + c
   \<and> snd (mul10_add c xs) < 10 \<and> length (fst (mul10_add c xs)) = length xs"
proof (induction c xs rule: mul10_add.induct)
  case (1 c)
  then show ?case by simp
next
  case (2 c x xs)
  define Q d where "Q = be_nat (fst (mul10_add c xs))" and "d = snd (mul10_add c xs)"
  have IH: "Q + d * 256 ^ length xs = be_nat xs * 10 + c" "d < 10"
    "length (fst (mul10_add c xs)) = length xs"
    using 2 unfolding Q_def d_def by blast+
  define cur where "cur = unat x * 10 + d"
  have "cur < 2560" using IH(2) unat_byte_less [of x] unfolding cur_def by linarith
  have a: "cur AND 255 = cur mod 256"
    using take_bit_eq_mask [of 8 cur] by (simp add: take_bit_eq_mod mask_eq_exp_minus_1)
  have q: "unat (of_nat (cur mod 256) :: byte) = cur mod 256"
    by (intro of_nat_inverse) simp_all
  define A m P where "A = cur div 256" and "m = cur mod 256" and "P = (256 :: nat) ^ length xs"
  have "A * 256 + m = unat x * 10 + d" by (simp add: A_def m_def cur_def)
  then have "(A * 256 + m) * P = (unat x * 10 + d) * P" by (simp only:)
  then have "m * P + Q + A * (256 * P) = (unat x * P + be_nat xs) * 10 + c"
    using IH(1) [folded P_def] by (simp add: algebra_simps)
  then have "cur mod 256 * 256 ^ length xs + Q + cur div 256 * 256 ^ length (x # xs)
      = (unat x * 256 ^ length xs + be_nat xs) * 10 + c"
    by (simp add: A_def m_def P_def)
  moreover have "cur div 256 < 10" using \<open>cur < 2560\<close> by (simp add: less_mult_imp_div_less)
  ultimately show ?case
    using IH(3) a q
    by (simp add: Let_def Q_def [symmetric] d_def [symmetric] cur_def [symmetric] drop_bit_eq_div)
qed

lemma foldl_horner:
  fixes f :: "'a \<Rightarrow> nat"
  shows "foldl (\<lambda>a c. a * 10 + f c) k s = k * 10 ^ length s + foldl (\<lambda>a c. a * 10 + f c) 0 s"
  by (induction s rule: rev_induct) (simp_all add: add_mult_distrib)

lemma dec_val_Cons: "dec_val (c # s) = (unat c - 48) * 10 ^ length s + dec_val s"
  unfolding dec_val_def using foldl_horner [of "\<lambda>c. unat c - 48" "unat c - 48" s] by simp

lemma not_is_digit: "c < 48 \<or> 57 < c \<longleftrightarrow> \<not> is_digit c"
  by (auto simp: is_digit_def word_less_nat_alt)

lemma fu_from_decimal_loop_iff:
  "fu_from_decimal_loop out s = Some b \<longleftrightarrow>
     list_all is_digit s \<and> length b = length out \<and> be_nat b = be_nat out * 10 ^ length s + dec_val s"
proof (induction s arbitrary: out)
  case Nil
  show ?case using be_nat_inject [of b out] by (auto simp: dec_val_def)
next
  case (Cons c s)
  show ?case
  proof (cases "is_digit c")
    case False
    then show ?thesis by (simp add: not_is_digit)
  next
    case True
    define r where "r = mul10_add (unat c - 48) out"
    define V where "V = be_nat out * 10 + (unat c - 48)"
    have d: "unat c - 48 < 10" using True unfolding is_digit_def by linarith
    have r: "be_nat (fst r) + snd r * 256 ^ length out = V" "length (fst r) = length out"
      using mul10_add_value [OF d, of out] by (simp_all add: r_def V_def)
    have val: "be_nat out * 10 ^ length (c # s) + dec_val (c # s) = V * 10 ^ length s + dec_val s"
      by (simp add: dec_val_Cons V_def add_mult_distrib)
    show ?thesis
    proof (cases "snd r = 0")
      case z: True
      then have "fu_from_decimal_loop out (c # s) = fu_from_decimal_loop (fst r) s"
        using True by (simp add: not_is_digit r_def Let_def)
      then show ?thesis
        unfolding val using z r True Cons.IH [of "fst r"] by simp
    next
      case nz: False
      then have "256 ^ length out \<le> V"
        unfolding r(1) [symmetric] by (cases "snd r") simp_all
      also have "\<dots> \<le> V * 10 ^ length s + dec_val s"
        by (simp add: trans_le_add1)
      finally have "be_nat b \<noteq> V * 10 ^ length s + dec_val s" if "length b = length out"
        using be_nat_less [of b] that by simp
      moreover have "fu_from_decimal_loop out (c # s) = None"
        using True nz by (simp add: not_is_digit r_def Let_def)
      ultimately show ?thesis unfolding val by simp
    qed
  qed
qed

lemma be_nat_replicate_0 [simp]: "be_nat (replicate n 0) = 0"
  by (induction n) simp_all

lemma be_nat_replicate_255: "be_nat (replicate n 255) + 1 = 256 ^ n"
  by (induction n) simp_all

lemma from_decimal_iff:
  "fu_from_decimal s = Some b \<longleftrightarrow> length b = 16 \<and> s = fu_to_decimal b"
proof
  assume p: "fu_from_decimal s = Some b"
  then have *: "s \<noteq> []" "1 < length s \<longrightarrow> s ! 0 \<noteq> 48"
    "fu_from_decimal_loop (replicate 16 0) s = Some b"
    by (auto simp: fu_from_decimal_def split: if_splits)
  then have "canonical_decimal s" "be_nat b = dec_val s" "length b = 16"
    by (auto simp: fu_from_decimal_loop_iff canonical_decimal_def)
  then show "length b = 16 \<and> s = fu_to_decimal b"
    by (simp add: fu_to_decimal_dec_string dec_string_dec_val)
next
  assume a: "length b = 16 \<and> s = fu_to_decimal b"
  then have s: "s = dec_string (be_nat b)" "length s \<le> 39"
    using length_fu_to_decimal [of b] by (simp_all add: fu_to_decimal_dec_string)
  have "canonical_decimal s" unfolding s(1) by (rule canonical_dec_string)
  moreover have "fu_from_decimal_loop (replicate 16 0) s = Some b"
    unfolding fu_from_decimal_loop_iff
    using a canonical_dec_string [of "be_nat b"] by (simp add: fu_to_decimal_dec_string canonical_decimal_def)
  ultimately show "fu_from_decimal s = Some b"
    using s(2) by (auto simp: fu_from_decimal_def canonical_decimal_def)
qed

lemma from_decimal_value:
  "fu_from_decimal s = Some b \<longleftrightarrow> canonical_decimal s \<and> length b = 16 \<and> dec_val s = be_nat b"
  unfolding from_decimal_iff fu_to_decimal_dec_string
  using canonical_dec_string [of "be_nat b"] dec_string_dec_val [of s] by auto

lemma bytes_of_nat: "n < 2 ^ 128 \<Longrightarrow> \<exists>b. length b = 16 \<and> be_nat b = n"
  using be_nat_be_store [of 16 "of_nat n :: 128 word"]
  by (intro exI [of _ "be_store 16 (of_nat n :: 128 word)"]) (simp add: unat_of_nat)

text \<open>C22: \<open>fu_from_decimal\<close> accepts exactly the canonical decimal numerals (ASCII digits, at least one, no leading
  zero but in \<open>0\<close> itself) whose value in base ten is below \<open>2 ^ 128\<close>, and returns the 16 bytes whose big-endian
  value is the numeral's; \<open>fu_to_decimal\<close> prints that numeral back.\<close>

theorem fu_from_decimal_iff:
  "(fu_from_decimal s \<noteq> None \<longleftrightarrow> canonical_decimal s \<and> dec_val s < 2 ^ 128) \<and>
   (fu_from_decimal s = Some b \<longleftrightarrow> canonical_decimal s \<and> length b = 16 \<and> dec_val s = be_nat b) \<and>
   (fu_from_decimal s = Some b \<longleftrightarrow> length b = 16 \<and> s = fu_to_decimal b)"
  using from_decimal_value [of s] from_decimal_iff [of s b] be_nat_less_128 bytes_of_nat [of "dec_val s"]
  by (metis not_None_eq)

text \<open>The 40-byte output buffer of \<open>fu_to_decimal\<close> is enough (39 digits at most, so \<open>pos\<close> stays
  positive), and the text is the decimal numeral of the number the bytes denote.\<close>

theorem fu_to_decimal_bound:
  assumes "length b = 16"
  shows "length (fu_to_decimal b) < 40 \<and> canonical_decimal (fu_to_decimal b) \<and>
         dec_val (fu_to_decimal b) = be_nat b"
  using length_fu_to_decimal [OF assms] canonical_dec_string
  by (simp add: fu_to_decimal_dec_string)

theorem fu_to_decimal_bound_witness:
  "length (fu_to_decimal (replicate 16 255)) < 40 \<and> dec_val (fu_to_decimal (replicate 16 255)) = 2 ^ 128 - 1"
proof -
  have "length (replicate 16 (255 :: byte)) = 16" by simp
  moreover have "be_nat (replicate 16 255) = 2 ^ 128 - 1"
    using be_nat_replicate_255 [of 16] by simp
  ultimately show ?thesis using fu_to_decimal_bound [of "replicate 16 255"] by simp
qed

subsection \<open>The loop in its buffer\<close>

text \<open>The loop as it is written: the state is the array, the 40-byte buffer, \<open>pos\<close> and \<open>nz\<close>, and nothing says
  in advance that \<open>nz\<close> ever becomes zero.\<close>

type_synonym decimal_state = "byte list \<times> byte list \<times> int \<times> bool"

fun decimal_round :: "decimal_state \<Rightarrow> decimal_state" where
  "decimal_round (t, buf, pos, nz) =
     (let r = div10_pass 0 t
      in (fst r, buf[nat (pos - 1) := 48 + of_nat (snd r)], pos - 1, list_ex (\<lambda>x. x \<noteq> 0) (fst r)))"

definition decimal_do_while :: "decimal_state \<Rightarrow> decimal_state option" where
  "decimal_do_while st = while_option (\<lambda>(t, buf, pos, nz). nz) decimal_round (decimal_round st)"

lemma decimal_do_while_unfold:
  "decimal_do_while st =
     (case decimal_round st of (t, buf, pos, nz) \<Rightarrow> if nz then decimal_do_while (t, buf, pos, nz) else Some (t, buf, pos, nz))"
  unfolding decimal_do_while_def
  by (subst while_option_unfold) (auto split: prod.split)

lemma drop_update_head: "i < length buf \<Longrightarrow> drop i (buf[i := x]) = x # drop (Suc i) buf"
  by (simp add: drop_update_swap Cons_nth_drop_Suc [symmetric])

lemma decimal_do_while_ends:
  assumes "be_nat t < 10 ^ k" and "0 < k" and "k \<le> nat pos" and "nat pos \<le> length buf"
  shows "\<exists>t' buf' pos'. decimal_do_while (t, buf, pos, nz) = Some (t', buf', pos', False) \<and>
    pos - int k \<le> pos' \<and> length buf' = length buf \<and>
    drop (nat pos') buf' = fu_to_decimal_loop t (drop (nat pos) buf)"
  using assms
proof (induction k arbitrary: t buf pos nz)
  case (Suc k)
  obtain t1 d where r: "div10_pass 0 t = (t1, d)" by (cases "div10_pass 0 t")
  let ?buf = "buf[nat (pos - 1) := 48 + of_nat d]" and ?nz = "list_ex (\<lambda>x. x \<noteq> 0) t1"
  have round: "decimal_round (t, buf, pos, nz) = (t1, ?buf, pos - 1, ?nz)" by (simp add: r)
  have p: "nat (pos - 1) < length buf" "Suc (nat (pos - 1)) = nat pos" using Suc.prems(3,4) by auto
  have d: "drop (nat (pos - 1)) ?buf = of_nat (48 + d) # drop (nat pos) buf"
    using drop_update_head [OF p(1)] p(2) by simp
  have q: "be_nat t1 = be_nat t div 10" using div10_pass_be_nat(1) [of t] r by simp
  show ?case
  proof (cases ?nz)
    case False
    have "fu_to_decimal_loop t (drop (nat pos) buf) = of_nat (48 + d) # drop (nat pos) buf"
      using False by (subst fu_to_decimal_loop.simps) (simp add: r Let_def)
    with False d p show ?thesis
      by (subst decimal_do_while_unfold) (simp only: round prod.case if_False, auto)
  next
    case True
    then have pos: "0 < be_nat t div 10" using q nonzero_bytes_be_nat [of t1] by simp
    have k: "0 < k" using pos Suc.prems(1) by (cases k) simp_all
    have "be_nat t1 < 10 ^ k" using Suc.prems(1) q by (simp add: less_mult_imp_div_less mult.commute)
    moreover have "k \<le> nat (pos - 1)" "nat (pos - 1) \<le> length ?buf" using Suc.prems(3,4) by auto
    ultimately obtain t' buf' pos' where
      e: "decimal_do_while (t1, ?buf, pos - 1, ?nz) = Some (t', buf', pos', False)" "pos - 1 - int k \<le> pos'"
        "length buf' = length buf" "drop (nat pos') buf' = fu_to_decimal_loop t1 (drop (nat (pos - 1)) ?buf)"
      using Suc.IH [OF _ k, of t1 "pos - 1" ?buf ?nz] by (auto simp del: drop_update_cancel)
    have "fu_to_decimal_loop t (drop (nat pos) buf) = fu_to_decimal_loop t1 (of_nat (48 + d) # drop (nat pos) buf)"
      using True by (subst fu_to_decimal_loop.simps) (simp add: r Let_def)
    moreover have "decimal_do_while (t, buf, pos, nz) = Some (t', buf', pos', False)"
      using True e(1) by (subst decimal_do_while_unfold) (simp only: round prod.case if_True)
    ultimately show ?thesis using e(2-4) d by auto
  qed
qed simp

text \<open>C40: the \<open>do \<dots> while (nz)\<close> loop of \<open>fu_to_decimal\<close>, run in its buffer from any 16 bytes, ends; it has not
  moved \<open>pos\<close> below 1, so every write was inside the 40 bytes; and the text from \<open>pos\<close> on is the canonical decimal
  numeral whose base-ten value is the big-endian value of the bytes.\<close>

theorem fu_to_decimal_terminates:
  assumes "length b = 16" and "length buf = 40"
  shows "\<exists>t buf' pos. decimal_do_while (b, buf, 40, nz) = Some (t, buf', pos, False) \<and> 1 \<le> pos \<and> length buf' = 40 \<and>
    drop (nat pos) buf' = fu_to_decimal b \<and>
    canonical_decimal (drop (nat pos) buf') \<and> dec_val (drop (nat pos) buf') = be_nat b"
proof -
  have "be_nat b < 2 ^ 128" using assms(1) by (rule be_nat_less_128)
  also have "(2 :: nat) ^ 128 < 10 ^ 39" by simp
  finally obtain t' buf' pos' where "decimal_do_while (b, buf, 40, nz) = Some (t', buf', pos', False)" "40 - int 39 \<le> pos'"
    "length buf' = length buf" "drop (nat pos') buf' = fu_to_decimal_loop b (drop (nat 40) buf)"
    using decimal_do_while_ends [of b 39 40 buf nz] assms(2) by auto
  then show ?thesis
    using assms(2) canonical_dec_string [of "be_nat b"] fu_to_decimal_dec_string [of b] by (simp add: fu_to_decimal_def)
qed

theorem fu_to_decimal_terminates_witness:
  "\<exists>t buf pos. decimal_do_while (replicate 16 255, replicate 40 0, 40, False) = Some (t, buf, pos, False) \<and> 1 \<le> pos"
  using fu_to_decimal_terminates [of "replicate 16 255" "replicate 40 0" False] by auto

end
