(* ===== verification/Fu_Args.thy ===== *)
theory Fu_Args
  imports Fu_Gen Fu_Parse Fu_Decimal
begin

section \<open>Arguments of the factories\<close>

text \<open>
  The checks between a PHP caller and the generators: \<open>fu_parse_node\<close>, \<open>fu_node_arg\<close>,
  \<open>fu_clockseq_arg\<close>, \<open>fu_local_id_arg\<close>, \<open>fu_batch_count_arg\<close> and \<open>fu_v7_at_ms\<close>.  A \<open>zend_long\<close> is an
  integer in \<open>zend_long_range\<close>; an out parameter is the result, \<open>None\<close> the return value
  \<open>FAILURE\<close> (an exception is then pending) or, for \<open>fu_parse_node\<close>, 0.
\<close>

definition zend_long_range :: "int \<Rightarrow> bool" where
  "zend_long_range n \<longleftrightarrow> - (2 ^ 63) \<le> n \<and> n < 2 ^ 63"

definition FU_MS48_MAX :: u64 where
  "FU_MS48_MAX = 0xffffffffffff"

subsection \<open>Node and clock sequence\<close>

definition fu_parse_node :: "byte list option \<Rightarrow> int \<Rightarrow> byte list option" where
  "fu_parse_node str lv =
     (case str of
        None \<Rightarrow>
          (if lv < 0 \<or> FU_MS48_MAX < word_of_int lv then None
           else (let n = word_of_int lv :: u64
                 in Some (map (\<lambda>i. ucast (drop_bit (8 * (5 - i)) n AND 0xff)) [0..<6])))
      | Some s \<Rightarrow>
          (if length s \<noteq> 12 then None else fu_parse_hex_bytes s (map (\<lambda>i. i * 2) [0..<6])))"

text \<open>\<open>Some None\<close>: no node was given, \<open>*out\<close> is \<open>NULL\<close>.\<close>

definition fu_node_arg :: "byte list option \<Rightarrow> int \<Rightarrow> bool \<Rightarrow> 'w st \<Rightarrow> byte list option option \<times> 'w st" where
  "fu_node_arg node_str node_long node_null s =
     (if node_null then (Some None, s)
      else (case fu_parse_node node_str node_long of
              None \<Rightarrow> (None, zend_throw InvalidArgumentException ''Invalid node (expect 12-hex string or int)'' s)
            | Some node \<Rightarrow> (Some (Some node), s)))"

definition fu_clockseq_arg :: "int \<Rightarrow> bool \<Rightarrow> 'w st \<Rightarrow> int option \<times> 'w st" where
  "fu_clockseq_arg clockseq cs_null s =
     (if cs_null then (Some (- 1), s)
      else if clockseq < 0 \<or> clockseq > 0x3fff
      then (None, zend_throw InvalidArgumentException ''clockSeq out of range (0..16383)'' s)
      else (Some clockseq, s))"

subsection \<open>The local identifier of version 2\<close>

text \<open>\<open>strtoull(s, &end, 10)\<close> of the C library: leading white space, an optional sign, the longest run
  of digits.  The result is the value (negated modulo \<open>2 ^ 64\<close> after a minus, \<open>ULLONG_MAX\<close> out of
  range), the offset of \<open>end\<close>, and whether \<open>errno\<close> is \<open>ERANGE\<close>.\<close>

definition c_isspace :: "byte \<Rightarrow> bool" where
  "c_isspace c \<longleftrightarrow> c = 32 \<or> (9 \<le> c \<and> c \<le> 13)"

definition strtoull10 :: "byte list \<Rightarrow> u64 \<times> nat \<times> bool" where
  "strtoull10 s =
     (let t = dropWhile c_isspace s;
          neg = (t \<noteq> [] \<and> t ! 0 = of_char CHR ''-'');
          t = (if t \<noteq> [] \<and> (t ! 0 = of_char CHR ''-'' \<or> t ! 0 = of_char CHR ''+'') then drop 1 t else t);
          ds = takeWhile is_digit t;
          v = dec_val ds
      in if ds = [] then (0, 0, False)
         else (if 2 ^ 64 \<le> v then - 1 else if neg then - of_nat v else of_nat v,
               length s - length t + length ds, 2 ^ 64 \<le> v))"

text \<open>\<open>ids\<close> is \<open>getuid()\<close> and \<open>getgid()\<close>, \<open>None\<close> on Windows.\<close>

definition fu_local_id_arg :: "(u32 \<times> u32) option \<Rightarrow> int \<Rightarrow> byte list option \<Rightarrow> int \<Rightarrow> bool \<Rightarrow> 'w st \<Rightarrow>
    u32 option \<times> 'w st" where
  "fu_local_id_arg ids local_domain id_str id_long id_null s =
     (if id_null then
        (if local_domain \<noteq> 0 \<and> local_domain \<noteq> 1
         then (None, zend_throw InvalidArgumentException
                 ''localIdentifier is required for DCE domains other than PERSON (0) and GROUP (1)'' s)
         else (case ids of
                 Some (uid, gid) \<Rightarrow> (Some (if local_domain = 1 then gid else uid), s)
               | None \<Rightarrow> (None, zend_throw InvalidArgumentException
                   ''localIdentifier is required on Windows (no process uid/gid to fall back to)'' s)))
      else (case id_str of
        None \<Rightarrow>
          (if id_long < 0 \<or> (0xFFFFFFFF :: u64) < word_of_int id_long
           then (None, zend_throw InvalidArgumentException ''localIdentifier out of range (0..4294967295)'' s)
           else (Some (word_of_int id_long), s))
      | Some sv \<Rightarrow>
          (let sl = length sv in
           if sl = 0
           then (None, zend_throw InvalidArgumentException ''localIdentifier string must be a decimal number'' s)
           else if 1 < sl \<and> sv ! 0 = of_char CHR ''0''
           then (None, zend_throw InvalidArgumentException
                   ''localIdentifier string must be a canonical decimal number'' s)
           else if 10 < sl
           then (None, zend_throw InvalidArgumentException ''localIdentifier out of range (0..4294967295)'' s)
           else if list_ex (\<lambda>c. c < of_char CHR ''0'' \<or> of_char CHR ''9'' < c) sv
           then (None, zend_throw InvalidArgumentException ''localIdentifier string must be a decimal number'' s)
           else (let (value, stop, erange) = strtoull10 sv in
                 if erange \<or> stop \<noteq> sl \<or> 0xFFFFFFFF < value
                 then (None, zend_throw InvalidArgumentException ''localIdentifier out of range (0..4294967295)'' s)
                 else (Some (ucast value), s)))))"

subsection \<open>Batch size and explicit version 7 time\<close>

definition FU_MAX_BATCH_COUNT :: u64 where
  "FU_MAX_BATCH_COUNT = 100000"

text \<open>\<open>HT_MAX_SIZE\<close> is the engine's bound on hash tables.\<close>

definition fu_batch_count_arg :: "u64 \<Rightarrow> int \<Rightarrow> 'w st \<Rightarrow> nat option \<times> 'w st" where
  "fu_batch_count_arg HT_MAX_SIZE count s =
     (if count \<le> 0 then (None, zend_throw InvalidArgumentException ''count must be > 0'' s)
      else if HT_MAX_SIZE < word_of_int count \<or> FU_MAX_BATCH_COUNT < word_of_int count
      then (None, zend_throw InvalidArgumentException ''count is too large (max 100000)'' s)
      else (Some (unat (word_of_int count :: u32)), s))"

definition fu_v7_at_ms :: "'w platform \<Rightarrow> int \<Rightarrow> 'w st \<Rightarrow> byte list option \<times> 'w st" where
  "fu_v7_at_ms P ms s =
     (if ms < 0 \<or> FU_MS48_MAX < word_of_int ms
      then (None, zend_throw InvalidArgumentException
              ''v7 millisecond timestamp out of range (0 .. 281474976710655)'' s)
      else fu_gen_v7_at P (word_of_int ms) 0 s)"

subsection \<open>What the checks accept\<close>

text \<open>A \<open>zend_long\<close> that is not negative survives the cast to an unsigned word.\<close>

lemma uint_zend_long: "zend_long_range n \<Longrightarrow> 0 \<le> n \<Longrightarrow> uint (word_of_int n :: u64) = n"
  by (simp add: zend_long_range_def uint_word_of_int)

lemma unat_zend_long: "zend_long_range n \<Longrightarrow> 0 \<le> n \<Longrightarrow> int (unat (word_of_int n :: u64)) = n"
  using uint_zend_long [of n] by simp

lemma zend_long_cap:
  assumes "zend_long_range n"
  shows "n < 0 \<or> (c :: u64) < word_of_int n \<longleftrightarrow> n < 0 \<or> uint c < n"
  using uint_zend_long [OF assms] by (cases "n < 0") (simp_all add: word_less_def)

lemma fu_ms48_cap: "zend_long_range n \<Longrightarrow> n < 0 \<or> FU_MS48_MAX < word_of_int n \<longleftrightarrow> n < 0 \<or> 2 ^ 48 \<le> n"
  by (simp only: zend_long_cap) (auto simp: FU_MS48_MAX_def)

lemma node_bytes: "map (\<lambda>i. ucast (drop_bit (8 * (5 - i)) (n :: u64) AND 0xff)) [0..<6] = be_store 6 n"
  by (simp add: be_store_def upt_rec)

lemma hex_spec_list_all2:
  "map f t = hex_spec b \<longleftrightarrow> length t = 2 * length b \<and>
     list_all2 (\<lambda>p x. f (t ! p) = hex_hi x \<and> f (t ! (p + 1)) = hex_lo x) (map (\<lambda>i. i * 2) [0..<length b]) b"
proof (induction b arbitrary: t)
  case Nil
  then show ?case by (simp add: hex_spec_def)
next
  case (Cons x b)
  have L: "[0..<length (x # b)] = 0 # map Suc [0..<length b]" by (simp add: upt_conv_Cons map_Suc_upt del: upt_Suc)
  show ?case
  proof (cases t)
    case (Cons c t1)
    show ?thesis
    proof (cases t1)
      case c2: (Cons d t2)
      show ?thesis
        using Cons.IH [of t2] unfolding L Cons c2
        by (auto simp: hex_spec_def hex_pair_eq list.rel_map)
    qed (simp add: Cons hex_spec_def hex_pair_eq)
  qed (simp add: hex_spec_def hex_pair_eq)
qed

text \<open>A node is accepted exactly when it is an integer below \<open>2 ^ 48\<close> or twelve hex digits in either
  case, and becomes the six bytes of that number; nothing is truncated.\<close>

theorem fu_parse_node_iff:
  assumes "zend_long_range lv"
  shows "(fu_parse_node None lv = Some node \<longleftrightarrow> length node = 6 \<and> int (be_nat node) = lv) \<and>
    (fu_parse_node (Some t) lv = Some node \<longleftrightarrow> length node = 6 \<and> map ascii_lower t = hex_spec node)"
proof
  have v: "int (be_nat (be_store 6 (word_of_int lv :: u64))) = lv" if "0 \<le> lv" "lv < 2 ^ 48"
  proof -
    have "int (unat (word_of_int lv :: u64)) < 2 ^ 48"
      unfolding unat_zend_long [OF assms that(1)] by (rule that(2))
    then have "unat (word_of_int lv :: u64) < 256 ^ 6" by (simp del: of_nat_unat)
    then show ?thesis using unat_zend_long [OF assms that(1)] by (simp add: be_nat_be_store)
  qed
  have d: "fu_parse_node None lv = (if lv < 0 \<or> 2 ^ 48 \<le> lv then None else Some (be_store 6 (word_of_int lv :: u64)))"
    unfolding fu_parse_node_def by (simp only: option.case Let_def node_bytes fu_ms48_cap [OF assms])
  show "fu_parse_node None lv = Some node \<longleftrightarrow> length node = 6 \<and> int (be_nat node) = lv"
  proof
    assume "fu_parse_node None lv = Some node"
    then have "0 \<le> lv" "lv < 2 ^ 48" "node = be_store 6 (word_of_int lv :: u64)" unfolding d by (auto split: if_splits)
    then show "length node = 6 \<and> int (be_nat node) = lv" using v by simp
  next
    assume a: "length node = 6 \<and> int (be_nat node) = lv"
    then have r: "0 \<le> lv" "lv < 2 ^ 48" using be_nat_less [of node] by auto
    then have "be_store 6 (word_of_int lv :: u64) = node"
      using v a be_nat_inject [of "be_store 6 (word_of_int lv :: u64)" node] by simp
    then show "fu_parse_node None lv = Some node" unfolding d using r by simp
  qed
  show "fu_parse_node (Some t) lv = Some node \<longleftrightarrow> length node = 6 \<and> map ascii_lower t = hex_spec node"
  proof (cases "length node = 6")
    case True
    then show ?thesis
      using hex_spec_list_all2 [of ascii_lower t node] by (simp add: fu_parse_node_def parse_hex_bytes_iff)
  next
    case False
    then show ?thesis using parse_hex_bytes_length [of t "map (\<lambda>i. i * 2) [0..<6]" node] by (auto simp: fu_parse_node_def split: if_splits)
  qed
qed

theorem fu_parse_node_iff_witness:
  "fu_parse_node None 0x0123456789AB = Some [0x01, 0x23, 0x45, 0x67, 0x89, 0xAB] \<and>
   fu_parse_node (Some (lit ''0123456789aB'')) 0 = Some [0x01, 0x23, 0x45, 0x67, 0x89, 0xAB]"
proof
  show "fu_parse_node None 0x0123456789AB = Some [0x01, 0x23, 0x45, 0x67, 0x89, 0xAB]"
    using fu_parse_node_iff [of "0x0123456789AB" "[0x01, 0x23, 0x45, 0x67, 0x89, 0xAB]" "[]"]
    by (simp add: zend_long_range_def)
  have "map ascii_lower (lit ''0123456789aB'') = hex_spec [0x01, 0x23, 0x45, 0x67, 0x89, 0xAB]" by code_simp
  then show "fu_parse_node (Some (lit ''0123456789aB'')) 0 = Some [0x01, 0x23, 0x45, 0x67, 0x89, 0xAB]"
    using fu_parse_node_iff [of 0 "[0x01, 0x23, 0x45, 0x67, 0x89, 0xAB]" "lit ''0123456789aB''"]
    by (simp add: zend_long_range_def)
qed

subsection \<open>Decimal local identifiers\<close>

lemma dec_val_less: "list_all is_digit s \<Longrightarrow> dec_val s < 10 ^ length s"
proof (induction s)
  case (Cons c s)
  then have "is_digit c" by simp
  then have "unat c - 48 \<le> 9" unfolding is_digit_def by linarith
  then have "dec_val (c # s) < 9 * 10 ^ length s + 10 ^ length s"
    unfolding dec_val_Cons using Cons by (intro add_le_less_mono mult_le_mono1) simp_all
  then show ?case by simp
qed (simp add: dec_val_def)

lemma strtoull10_digits:
  assumes "list_all is_digit t" and "t \<noteq> []" and "length t \<le> 10"
  shows "strtoull10 t = (of_nat (dec_val t), length t, False)"
proof -
  obtain c r where t: "t = c # r" using assms(2) by (cases t) auto
  have c: "48 \<le> unat c" "unat c \<le> 57" using assms(1) by (simp_all add: t is_digit_def)
  have "\<not> c_isspace c" "c \<noteq> 45" "c \<noteq> 43"
    using c by (auto simp: c_isspace_def word_le_nat_alt word_unat_eq_iff)
  moreover have "takeWhile is_digit (c # r) = c # r"
    using assms(1) by (subst takeWhile_eq_all_conv) (auto simp: t list_all_iff)
  moreover have "dec_val t < 2 ^ 64"
  proof -
    have "dec_val t < 10 ^ length t" by (rule dec_val_less [OF assms(1)])
    also have "\<dots> \<le> 10 ^ 10" using assms(3) by (intro power_increasing) simp_all
    finally show ?thesis by simp
  qed
  ultimately show ?thesis by (simp add: strtoull10_def t)
qed

text \<open>A canonical text of at most ten digits is read at its value, compared with \<open>0xFFFFFFFF\<close> in 64 bits;
  any other text throws.\<close>

lemma local_id_text_check:
  "list_ex (\<lambda>c. c < of_char CHR ''0'' \<or> of_char CHR ''9'' < c) t \<longleftrightarrow> \<not> list_all is_digit t"
  by (induction t) (auto simp: not_is_digit [symmetric])

lemma local_id_text:
  assumes "canonical_decimal t" and "length t \<le> 10"
  shows "fu_local_id_arg ids d (Some t) l False s
      = (if dec_val t < 2 ^ 32 then Some (of_nat (dec_val t)) else None,
         if dec_val t < 2 ^ 32 then s
         else zend_throw InvalidArgumentException ''localIdentifier out of range (0..4294967295)'' s)"
proof -
  have t: "t \<noteq> []" "list_all is_digit t" "1 < length t \<longrightarrow> t ! 0 \<noteq> 48" "length t \<le> 10"
    using assms by (auto simp: canonical_decimal_def)
  have "dec_val t < 10 ^ length t" by (rule dec_val_less [OF t(2)])
  also have "\<dots> \<le> 10 ^ 10" using t(4) by (intro power_increasing) simp_all
  finally have "unat (of_nat (dec_val t) :: u64) = dec_val t" by (intro of_nat_inverse [OF refl]) simp
  then have "(0xFFFFFFFF :: u64) < of_nat (dec_val t) \<longleftrightarrow> \<not> dec_val t < 2 ^ 32"
    by (auto simp: word_less_nat_alt)
  moreover have "(ucast (of_nat (dec_val t) :: u64) :: u32) = of_nat (dec_val t)"
    by (simp add: word_unat_eq_iff unat_of_nat unsigned_ucast_eq take_bit_eq_mod mod_mod_cancel)
  ultimately show ?thesis
    using t local_id_text_check [of t] strtoull10_digits [OF t(2,1,4)]
    by (cases "1 < length t") (simp_all add: fu_local_id_arg_def Let_def not_less)
qed

lemma local_id_text_bad:
  "\<not> (canonical_decimal t \<and> length t \<le> 10) \<Longrightarrow>
   \<exists>msg. fu_local_id_arg ids d (Some t) l False s = (None, zend_throw InvalidArgumentException msg s)"
  using local_id_text_check [of t] by (auto simp: fu_local_id_arg_def canonical_decimal_def Let_def)

lemma local_id_text_iff:
  "fu_local_id_arg ids d (Some t) l False s = (Some v, s') \<longleftrightarrow> s' = s \<and> t = dec_string (unat v)"
proof
  assume a: "fu_local_id_arg ids d (Some t) l False s = (Some v, s')"
  with local_id_text_bad [of t ids d l s] have ok: "canonical_decimal t \<and> length t \<le> 10" by fastforce
  have "dec_val t < 2 ^ 32 \<and> v = of_nat (dec_val t) \<and> s' = s"
    using a unfolding local_id_text [OF conjunct1 [OF ok] conjunct2 [OF ok]] by (auto split: if_splits)
  then have v: "dec_val t < 2 ^ 32" "v = of_nat (dec_val t)" "s' = s" by blast+
  then have "unat v = dec_val t" by (simp add: unat_of_nat)
  then show "s' = s \<and> t = dec_string (unat v)" using v(3) ok dec_string_dec_val by simp
next
  assume a: "s' = s \<and> t = dec_string (unat v)"
  have lt: "unat v < 2 ^ 32" using unsigned_less [of v] by simp
  also have "(2 :: nat) ^ 32 < 10 ^ 10" by simp
  finally have "length t \<le> 10" using a length_dec_string [of 10 "unat v"] by simp
  moreover have "canonical_decimal t" using a canonical_dec_string by simp
  ultimately show "fu_local_id_arg ids d (Some t) l False s = (Some v, s')"
    using a lt by (simp add: local_id_text)
qed

text \<open>C30: a local identifier given as text is accepted exactly when it is the canonical decimal numeral of a
  32-bit value, given as an integer exactly when it fits 32 bits; every other value throws and leaves
  the rest of the state alone.\<close>

theorem fu_local_id_arg_iff:
  assumes "zend_long_range l"
  shows "(fu_local_id_arg ids d (Some t) l False s = (Some v, s') \<longleftrightarrow> s' = s \<and> t = dec_string (unat v)) \<and>
    (fu_local_id_arg ids d None l False s = (Some v, s') \<longleftrightarrow> s' = s \<and> l = uint v) \<and>
    (\<forall>id. fst (fu_local_id_arg ids d id l False s) = None \<longrightarrow>
       (\<exists>msg. snd (fu_local_id_arg ids d id l False s) = zend_throw InvalidArgumentException msg s))"
proof (intro conjI allI impI)
  show "fu_local_id_arg ids d (Some t) l False s = (Some v, s') \<longleftrightarrow> s' = s \<and> t = dec_string (unat v)"
    by (rule local_id_text_iff)
  have eq: "fu_local_id_arg ids d None l False s = (if l < 0 \<or> 2 ^ 32 \<le> l
      then (None, zend_throw InvalidArgumentException ''localIdentifier out of range (0..4294967295)'' s)
      else (Some (word_of_int l), s))"
    unfolding fu_local_id_arg_def by (simp only: if_False option.case zend_long_cap [OF assms]) auto
  show "fu_local_id_arg ids d None l False s = (Some v, s') \<longleftrightarrow> s' = s \<and> l = uint v"
    unfolding eq using uint_range_size [of v] by (auto simp: word_uint_eq_iff uint_word_of_int word_size)
  fix id
  assume n: "fst (fu_local_id_arg ids d id l False s) = None"
  show "\<exists>msg. snd (fu_local_id_arg ids d id l False s) = zend_throw InvalidArgumentException msg s"
    using n by (cases id) (auto simp: fu_local_id_arg_def Let_def split: if_splits prod.splits)
qed

theorem fu_local_id_arg_iff_witness:
  "fu_local_id_arg None 2 (Some (lit ''4294967295'')) 0 False (fu_boot (0 :: nat)) = (Some (- 1), fu_boot 0)"
proof -
  have "lit ''4294967295'' = dec_string 4294967295"
    by (simp add: dec_string.simps lit_def)
  then show ?thesis
    using fu_local_id_arg_iff [of 0 None 2 "lit ''4294967295''" "fu_boot (0 :: nat)" "- 1" "fu_boot 0"]
    by (simp add: zend_long_range_def unsigned_minus_1_eq_mask mask_eq_exp_minus_1)
qed

end
