(* ===== verification/Fu_Outcome.thy ===== *)
theory Fu_Outcome
  imports Fu_Args
begin

section \<open>What every generator returns\<close>

text \<open>
  The contract the callers of a generator rely on, as the locale \<open>uuid_generator\<close>: called without a
  pending exception it keeps the invariant and either returns 16 bytes of the RFC variant with its
  version in the version nibble and throws nothing, or returns nothing and has thrown.  Every
  generator of the extension is an instance.
\<close>

definition gen_outcome :: "nat \<Rightarrow> byte list option \<times> 'w st \<Rightarrow> bool" where
  "gen_outcome ver r \<longleftrightarrow> fu_inv (snd r) \<and>
     (case fst r of
        None \<Rightarrow> EG_exception (snd r) \<noteq> None
      | Some b \<Rightarrow> rfc_uuid ver b \<and> EG_exception (snd r) = None)"

lemma gen_outcome_simps [simp]:
  "gen_outcome ver (None, s) \<longleftrightarrow> fu_inv s \<and> EG_exception s \<noteq> None"
  "gen_outcome ver (Some b, s) \<longleftrightarrow> fu_inv s \<and> rfc_uuid ver b \<and> EG_exception s = None"
  by (auto simp: gen_outcome_def)

locale uuid_generator =
  fixes gen :: "'i \<Rightarrow> 'w st \<Rightarrow> byte list option \<times> 'w st" and valid :: "'i \<Rightarrow> bool" and ver :: nat
  assumes outcome: "fu_inv s \<Longrightarrow> EG_exception s = None \<Longrightarrow> valid i \<Longrightarrow> gen_outcome ver (gen i s)"
begin

lemma outcome_cases:
  assumes "fu_inv s" and "EG_exception s = None" and "valid i"
  obtains (ok) b s' where "gen i s = (Some b, s')" "rfc_uuid ver b" "fu_inv s'" "EG_exception s' = None"
    | (fail) s' where "gen i s = (None, s')" "fu_inv s'" "EG_exception s' \<noteq> None"
proof -
  obtain r s' where g: "gen i s = (r, s')" by (cases "gen i s")
  with outcome [OF assms] show thesis by (cases r) (auto intro: ok fail)
qed

end

subsection \<open>Stamped bytes\<close>

lemma rfc_set_ver_var:
  "length b = 16 \<Longrightarrow> unat ver = 16 * v \<Longrightarrow> v < 16 \<Longrightarrow> rfc_uuid v (fu_set_ver_var b ver)"
  by (simp add: rfc_uuid_iff set_ver_var_nibbles)

lemma rfc_gen_v8: "length data = 16 \<Longrightarrow> rfc_uuid 8 (fu_gen_v8 data)"
  unfolding fu_gen_v8_def by (rule rfc_set_ver_var) simp_all

lemma rfc_clockseq_tail:
  assumes "length head8 = 8" and "unat (head8 ! 6) div 16 = v" and "length n = 6"
  shows "rfc_uuid v (head8 @ put_clockseq_node n cs)"
  using assms variant_put_clockseq_node [of n cs] by (simp add: rfc_uuid_iff nth_append)

lemma rfc_v2_stamp:
  assumes "length head8 = 8" and "length n = 6"
  shows "rfc_uuid 2 (v2_stamp lid ld (head8 @ put_clockseq_node n cs))"
proof -
  have len: "length (head8 @ put_clockseq_node n cs) = 16" using assms by simp
  show ?thesis
    using v2_stamp_fields [OF len] v2_stamp_fields(6) [OF len, of 8] variant_put_clockseq_node [of n cs] assms
    by (simp add: rfc_uuid_iff nth_append)
qed

lemma rfc_pos_bytes: "pos_ok p \<Longrightarrow> rfc_uuid 7 (pos_bytes p)"
proof -
  assume "pos_ok p"
  then have "unat (pos_key p) < 2 ^ 60" by (simp add: pos_ok_def word_less_nat_alt)
  then have "drop_bit 12 (pos_key p) < 2 ^ 48" by (simp add: word_less_nat_alt unat_drop_bit less_mult_imp_div_less)
  from v7_bytes_fields [OF this] show ?thesis by (simp add: rfc_uuid_iff pos_bytes_def v7_bytes_def)
qed

subsection \<open>The generators\<close>

interpretation v4_gen: uuid_generator fu_gen_v4 "\<lambda>P :: 'w platform. True" 4
proof
  fix s :: "'w st" and P :: "'w platform"
  assume s: "fu_inv s" "EG_exception s = None"
  show "gen_outcome 4 (fu_gen_v4 P s)"
    by (rule fu_gen_v4_cases [OF s(1), of P]) (simp_all add: s(2) rfc_set_ver_var)
qed

interpretation v4_fast_gen: uuid_generator fu_gen_v4_fast "\<lambda>P :: 'w platform. True" 4
proof
  fix s :: "'w st" and P :: "'w platform"
  assume s: "fu_inv s" "EG_exception s = None"
  show "gen_outcome 4 (fu_gen_v4_fast P s)"
  proof (rule fu_xs_next_cases [OF s(1), of P])
    fix s1 assume s1: "fu_inv s1" "EG_exception s1 = EG_exception s" "prng_seeded s1" "prng_s s1 \<noteq> (0, 0, 0, 0)"
      "fu_xs_next P s = (fst (xs_step (prng_s s1)), s1\<lparr>prng_s := snd (xs_step (prng_s s1))\<rparr>)"
    let ?s2 = "s1\<lparr>prng_s := snd (xs_step (prng_s s1))\<rparr>"
    have inv: "fu_inv ?s2" using s1(1) xs_step_nonzero [OF s1(4)] by (rule fu_inv_prng_updates(3))
    show ?thesis
    proof (rule fu_xs_next_cases [OF inv, of P])
      fix s3 assume s3: "fu_inv s3" "EG_exception s3 = EG_exception ?s2" "prng_s s3 \<noteq> (0, 0, 0, 0)"
        "fu_xs_next P ?s2 = (fst (xs_step (prng_s s3)), s3\<lparr>prng_s := snd (xs_step (prng_s s3))\<rparr>)"
      have "fu_inv (s3\<lparr>prng_s := snd (xs_step (prng_s s3))\<rparr>)"
        using s3(1) xs_step_nonzero [OF s3(3)] by (rule fu_inv_prng_updates(3))
      then show ?thesis using s s1(2,5) s3(2,4) by (simp add: fu_gen_v4_fast_def rfc_set_ver_var)
    qed (use s1(3) in simp_all)
  next
    fix s1 assume "fu_inv s1" "EG_exception s1 \<noteq> None" "fu_xs_next P s = (0, s1)"
    then show ?thesis by (simp add: fu_gen_v4_fast_def)
  qed
qed

definition v1_call :: "'w platform \<times> byte list option \<times> int \<Rightarrow> 'w st \<Rightarrow> byte list option \<times> 'w st" where
  "v1_call i = (case i of (P, node, cs) \<Rightarrow> fu_gen_v1_ex P node cs)"

interpretation v1_gen: uuid_generator v1_call "\<lambda>(P :: 'w platform, node, cs). args_ok node cs" 1
proof
  fix s :: "'w st" and i :: "'w platform \<times> byte list option \<times> int"
  assume s: "fu_inv s" "EG_exception s = None" "case i of (P, node, cs) \<Rightarrow> args_ok node cs"
  obtain P node cs where i: "i = (P, node, cs)" by (cases i)
  show "gen_outcome 1 (v1_call i s)"
    unfolding i v1_call_def prod.case fu_gen_v1_ex_eq
    by (rule greg_gen_cases [OF s(1), of node cs v1_head P])
       (use s(2,3) in \<open>auto simp: i version_v1_head intro!: rfc_clockseq_tail\<close>)
qed

interpretation v6_gen: uuid_generator v6_tick v6_valid 6
proof
  fix s :: "'w st" and i :: "'w platform \<times> byte list option \<times> int"
  assume s: "fu_inv s" "EG_exception s = None" "v6_valid i"
  obtain P node cs where i: "i = (P, node, cs)" by (cases i)
  show "gen_outcome 6 (v6_tick i s)"
    unfolding i v6_tick_def prod.case fu_gen_v6_ex_eq
    by (rule greg_gen_cases [OF s(1), of node cs v6_head P])
       (use s(2,3) in \<open>auto simp: i v6_valid_def version_v6_head intro!: rfc_clockseq_tail\<close>)
qed

text \<open>Version 2 with any combination of given and defaulted node and clock sequence.\<close>

definition v2_call :: "'w platform \<times> u32 \<times> byte \<times> byte list option \<times> int \<times> bool \<Rightarrow> 'w st \<Rightarrow> byte list option \<times> 'w st" where
  "v2_call i = (case i of (P, lid, ld, node, cs, mon) \<Rightarrow> fu_gen_v2 P lid ld node cs mon)"

interpretation v2_gen: uuid_generator v2_call "\<lambda>(P :: 'w platform, lid, ld, node, cs, mon). args_ok node cs" 2
proof
  fix s :: "'w st" and i :: "'w platform \<times> u32 \<times> byte \<times> byte list option \<times> int \<times> bool"
  assume s: "fu_inv s" "EG_exception s = None" "case i of (P, lid, ld, node, cs, mon) \<Rightarrow> args_ok node cs"
  obtain P lid ld node cs mon where i: "i = (P, lid, ld, node, cs, mon)" by (cases i)
  have a: "\<And>n. node = Some n \<Longrightarrow> length n = 6" "cs < 16384" using s(3) by (auto simp: i args_ok_def)
  have tail: "gen_outcome 2 (case fu_lay_v1 P g node cs s1 of (None, s) \<Rightarrow> (None, s)
      | (Some b, s) \<Rightarrow> (Some (v2_stamp lid ld b), s))" if "fu_inv s1" "EG_exception s1 = None" for g s1
    by (rule fu_lay_clockseq_node_cases [where P = P and node = node and clockseq = cs, OF that(1) a]) (use that(2) in \<open>auto simp: fu_lay_v1_eq intro: rfc_v2_stamp\<close>)
  have clock: "(\<exists>g s1. (if mon then fu_v2_monotonic P s else fu_greg_now P s) = (Some g, s1) \<and> fu_inv s1 \<and> EG_exception s1 = None) \<or>
      (\<exists>s1. (if mon then fu_v2_monotonic P s else fu_greg_now P s) = (None, s1) \<and> fu_inv s1 \<and> EG_exception s1 \<noteq> None)"
    by (cases mon; rule fu_v2_monotonic_cases [OF s(1), of P]; rule fu_greg_now_cases [OF s(1), of P]) (use s(2) in auto)
  then show "gen_outcome 2 (v2_call i s)"
  proof (elim disjE exE conjE)
    fix g s1 assume c: "(if mon then fu_v2_monotonic P s else fu_greg_now P s) = (Some g, s1)"
      and s1: "fu_inv s1" "EG_exception s1 = None"
    show ?thesis using tail [OF s1, of g] by (simp only: i v2_call_def prod.case fu_gen_v2_def c option.case)
  next
    fix s1 assume "(if mon then fu_v2_monotonic P s else fu_greg_now P s) = (None, s1)" "fu_inv s1" "EG_exception s1 \<noteq> None"
    then show ?thesis by (simp add: i v2_call_def fu_gen_v2_def)
  qed
qed

interpretation v7_gen: uuid_generator fu_gen_v7 "\<lambda>P :: 'w platform. True" 7
proof
  fix s :: "'w st" and P :: "'w platform"
  assume s: "fu_inv s" "EG_exception s = None"
  show "gen_outcome 7 (fu_gen_v7 P s)"
    unfolding fu_gen_v7_eq
    by (rule v7_next_cases [OF s(1), of P]) (use s(2) in \<open>auto intro: rfc_pos_bytes\<close>)
qed

definition v7_at_call :: "'w platform \<times> u64 \<times> u64 \<Rightarrow> 'w st \<Rightarrow> byte list option \<times> 'w st" where
  "v7_at_call i = (case i of (P, ms, sub) \<Rightarrow> fu_gen_v7_at P ms sub)"

interpretation v7_at_gen: uuid_generator v7_at_call "\<lambda>(P :: 'w platform, ms, sub). ms < 2 ^ 48" 7
proof
  fix s :: "'w st" and i :: "'w platform \<times> u64 \<times> u64"
  assume s: "fu_inv s" "EG_exception s = None" "case i of (P, ms, sub) \<Rightarrow> ms < 2 ^ 48"
  obtain P ms sub where i: "i = (P, ms, sub)" by (cases i)
  show "gen_outcome 7 (v7_at_call i s)"
    unfolding i v7_at_call_def prod.case fu_gen_v7_at_def
    by (rule fu_rand_u64_cases [OF s(1), of P]) (use s(2,3) v7_bytes_fields [of ms] in \<open>simp_all add: i rfc_uuid_iff\<close>)
qed

lemma fu_v7_at_ms_cases:
  fixes P :: "'w platform"
  assumes "zend_long_range ms"
  obtains (ok) "0 \<le> ms" "ms < 2 ^ 48" "fu_v7_at_ms P ms = v7_at_call (P, word_of_int ms, 0)" "word_of_int ms < (2 ^ 48 :: u64)"
    | (fail) msg where "\<not> (0 \<le> ms \<and> ms < 2 ^ 48)" "fu_v7_at_ms P ms = (\<lambda>s. (None, zend_throw InvalidArgumentException msg s))"
proof (cases "ms < 0 \<or> 2 ^ 48 \<le> ms")
  case True
  then have "fu_v7_at_ms P ms = (\<lambda>s. (None, zend_throw InvalidArgumentException
      ''v7 millisecond timestamp out of range (0 .. 281474976710655)'' s))"
    unfolding fu_v7_at_ms_def fu_ms48_cap [OF assms] by auto
  with True show thesis by (intro fail) auto
next
  case False
  have "uint (word_of_int ms :: u64) < 2 ^ 48" using uint_zend_long [OF assms] False by simp
  then have "word_of_int ms < (2 ^ 48 :: u64)" by (simp add: word_less_def)
  moreover have "fu_v7_at_ms P ms = v7_at_call (P, word_of_int ms, 0)"
    using False unfolding fu_v7_at_ms_def fu_ms48_cap [OF assms] v7_at_call_def by auto
  ultimately show thesis using False by (intro ok) auto
qed

definition v3_call :: "'c digest \<times> byte list \<times> byte list \<Rightarrow> 'w st \<Rightarrow> byte list option \<times> 'w st" where
  "v3_call i = (case i of (MD5, ns, name) \<Rightarrow> fu_gen_v3 MD5 ns name)"

definition v5_call :: "'c digest \<times> byte list \<times> byte list \<Rightarrow> 'w st \<Rightarrow> byte list option \<times> 'w st" where
  "v5_call i = (case i of (SHA1, ns, name) \<Rightarrow> fu_gen_v5 SHA1 ns name)"

definition digest_ok :: "nat \<Rightarrow> 'c digest \<Rightarrow> bool" where
  "digest_ok n D \<longleftrightarrow> (\<forall>chunks. length (Final D (foldl (Update D) (Init D) chunks)) = n)"

lemma digest_law_ok: "digest_law D n hash \<Longrightarrow> digest_ok n D"
  by (simp add: digest_law_def digest_ok_def)

lemma digest_ok_two: "digest_ok n D \<Longrightarrow> length (Final D (Update D (Update D (Init D) x) y)) = n"
  by (auto simp: digest_ok_def dest: spec [of _ "[x, y]"])

interpretation v3_gen: uuid_generator "v3_call :: 'c digest \<times> byte list \<times> byte list \<Rightarrow> 'w st \<Rightarrow> byte list option \<times> 'w st"
    "\<lambda>(D, ns, name). digest_ok 16 D" 3
  by unfold_locales
     (auto simp: v3_call_def fu_gen_v3_def fu_name_len_ok_def Let_def digest_ok_two intro!: rfc_set_ver_var)

interpretation v5_gen: uuid_generator "v5_call :: 'c digest \<times> byte list \<times> byte list \<Rightarrow> 'w st \<Rightarrow> byte list option \<times> 'w st"
    "\<lambda>(D, ns, name). digest_ok 20 D" 5
  by unfold_locales
     (auto simp: v5_call_def fu_gen_v5_def fu_name_len_ok_def Let_def digest_ok_two intro!: rfc_set_ver_var)

end
