(* ===== verification/Fu_Functions.thy ===== *)
theory Fu_Functions
  imports Fu_Outcome
begin

section \<open>The procedural functions\<close>

text \<open>
  The functions \<open>uuid_v1\<close> \<dots> \<open>fast_uuid_random_bytes\<close>: the shared bodies \<open>fu_fn_*\<close> and one
  definition per function.  \<open>return_value\<close> is the first component of the result (\<open>IS_NULL\<close> as the
  engine initialises it, when the body returned early).  Then the two entry points of a
  two-string function: \<open>zif_*\<close>, which copies its arguments, and the frameless \<open>zflf_*\<close>, which gets
  pointers to the caller's variables.
\<close>

subsection \<open>PHP values\<close>

text \<open>An object is its handle in the object store; arrays list their entries in order.  \<open>IS_OTHER\<close> is any type the extension does not look into (double, resource).\<close>

datatype array_key = Index int | Key "byte list"

datatype zval =
  IS_UNDEF | IS_NULL | IS_BOOL bool | IS_LONG int | IS_STRING "byte list" |
  IS_ARRAY "(array_key \<times> zval) list" | IS_OBJECT nat | IS_OTHER

text \<open>An array filled as a packed list.\<close>

definition packed :: "zval list \<Rightarrow> zval" where
  "packed xs = IS_ARRAY (map (\<lambda>i. (Index (int i), xs ! i)) [0..<length xs])"

text \<open>What a build of the extension runs on.\<close>

record ('w, 'm, 's) build =
  plat :: "'w platform"
  simd :: fu_simd
  strncase :: strncasecmp
  MD5 :: "'m digest"
  SHA1 :: "'s digest"
  posix_ids :: "(u32 \<times> u32) option"
  HT_MAX_SIZE :: u64

subsection \<open>Shared bodies\<close>

definition fu_retval_uuid :: "fu_simd \<Rightarrow> byte list \<Rightarrow> bool \<Rightarrow> zval" where
  "fu_retval_uuid h b as_bytes = IS_STRING (if as_bytes then b else fu_format36 h b)"

definition fu_fn_generate :: "fu_simd \<Rightarrow> ('w st \<Rightarrow> byte list option \<times> 'w st) \<Rightarrow> bool \<Rightarrow> 'w st \<Rightarrow> zval \<times> 'w st" where
  "fu_fn_generate h gen as_bytes s =
     (case gen s of
        (None, s) \<Rightarrow> (IS_NULL, s)
      | (Some b, s) \<Rightarrow> (fu_retval_uuid h b as_bytes, s))"

definition fu_fn_v7_at :: "('w, 'm, 's) build \<Rightarrow> int \<Rightarrow> bool \<Rightarrow> 'w st \<Rightarrow> zval \<times> 'w st" where
  "fu_fn_v7_at B ms as_bytes s =
     (case fu_v7_at_ms (plat B) ms s of
        (None, s) \<Rightarrow> (IS_NULL, s)
      | (Some b, s) \<Rightarrow> (fu_retval_uuid (simd B) b as_bytes, s))"

definition fu_fn_name_based :: "('w, 'm, 's) build \<Rightarrow> byte list \<Rightarrow> byte list \<Rightarrow>
    (byte list \<Rightarrow> byte list \<Rightarrow> 'w st \<Rightarrow> byte list option \<times> 'w st) \<Rightarrow> bool \<Rightarrow> 'w st \<Rightarrow> zval \<times> 'w st" where
  "fu_fn_name_based B zns nm gen as_bytes s =
     (case fu_parse (strncase B) zns of
        None \<Rightarrow> (IS_NULL, zend_throw InvalidArgumentException ''Invalid namespace'' s)
      | Some ns \<Rightarrow>
          (case gen ns nm s of
             (b, s) \<Rightarrow>
               if EG_exception s \<noteq> None then (IS_NULL, s)
               else (fu_retval_uuid (simd B) (the b) as_bytes, s)))"

definition fu_fn_v8 :: "('w, 'm, 's) build \<Rightarrow> byte list \<Rightarrow> bool \<Rightarrow> 'w st \<Rightarrow> zval \<times> 'w st" where
  "fu_fn_v8 B data as_bytes s =
     (if length data \<noteq> 16 then (IS_NULL, zend_throw InvalidArgumentException ''uuid8 requires 16 bytes'' s)
      else (fu_retval_uuid (simd B) (fu_gen_v8 data) as_bytes, s))"

text \<open>On failure \<open>return_value\<close> holds the partial array.\<close>

definition fu_fn_batch :: "('w, 'm, 's) build \<Rightarrow> int \<Rightarrow>
    (nat \<Rightarrow> bool \<Rightarrow> 'w st \<Rightarrow> zend_result \<times> byte list list \<times> 'w st) \<Rightarrow> bool \<Rightarrow> 'w st \<Rightarrow> zval \<times> 'w st" where
  "fu_fn_batch B count gen as_bytes s =
     (case fu_batch_count_arg (HT_MAX_SIZE B) count s of
        (None, s) \<Rightarrow> (IS_NULL, s)
      | (Some n, s) \<Rightarrow> (case gen n as_bytes s of (rc, arr, s) \<Rightarrow> (packed (map IS_STRING arr), s)))"

definition fu_fn_to_bin :: "('w, 'm, 's) build \<Rightarrow> byte list \<Rightarrow> 'w st \<Rightarrow> zval \<times> 'w st" where
  "fu_fn_to_bin B str s =
     (case fu_parse (strncase B) str of
        None \<Rightarrow> (IS_NULL, zend_throw InvalidUuidStringException ''Invalid UUID'' s)
      | Some b \<Rightarrow> (IS_STRING b, s))"

definition fu_fn_from_bin :: "('w, 'm, 's) build \<Rightarrow> byte list \<Rightarrow> 'w st \<Rightarrow> zval \<times> 'w st" where
  "fu_fn_from_bin B str s =
     (if length str \<noteq> 16 then (IS_NULL, zend_throw InvalidArgumentException ''Expected 16 bytes'' s)
      else (fu_retval_uuid (simd B) str False, s))"

definition fu_fn_is_valid :: "('w, 'm, 's) build \<Rightarrow> byte list \<Rightarrow> 'w st \<Rightarrow> zval \<times> 'w st" where
  "fu_fn_is_valid B str s = (IS_BOOL (fu_parse (strncase B) str \<noteq> None), s)"

subsection \<open>The functions\<close>

definition uuid_v1 :: "('w, 'm, 's) build \<Rightarrow> 'w st \<Rightarrow> zval \<times> 'w st" where
  "uuid_v1 B = fu_fn_generate (simd B) (fu_gen_v1 (plat B)) False"
definition uuid_v1_bin :: "('w, 'm, 's) build \<Rightarrow> 'w st \<Rightarrow> zval \<times> 'w st" where
  "uuid_v1_bin B = fu_fn_generate (simd B) (fu_gen_v1 (plat B)) True"
definition uuid_v4 :: "('w, 'm, 's) build \<Rightarrow> 'w st \<Rightarrow> zval \<times> 'w st" where
  "uuid_v4 B = fu_fn_generate (simd B) (fu_gen_v4 (plat B)) False"
definition uuid_v4_bin :: "('w, 'm, 's) build \<Rightarrow> 'w st \<Rightarrow> zval \<times> 'w st" where
  "uuid_v4_bin B = fu_fn_generate (simd B) (fu_gen_v4 (plat B)) True"
definition uuid_v4_fast :: "('w, 'm, 's) build \<Rightarrow> 'w st \<Rightarrow> zval \<times> 'w st" where
  "uuid_v4_fast B = fu_fn_generate (simd B) (fu_gen_v4_fast (plat B)) False"
definition uuid_v4_fast_bin :: "('w, 'm, 's) build \<Rightarrow> 'w st \<Rightarrow> zval \<times> 'w st" where
  "uuid_v4_fast_bin B = fu_fn_generate (simd B) (fu_gen_v4_fast (plat B)) True"
definition uuid_v6 :: "('w, 'm, 's) build \<Rightarrow> 'w st \<Rightarrow> zval \<times> 'w st" where
  "uuid_v6 B = fu_fn_generate (simd B) (fu_gen_v6 (plat B)) False"
definition uuid_v6_bin :: "('w, 'm, 's) build \<Rightarrow> 'w st \<Rightarrow> zval \<times> 'w st" where
  "uuid_v6_bin B = fu_fn_generate (simd B) (fu_gen_v6 (plat B)) True"
definition uuid_v7 :: "('w, 'm, 's) build \<Rightarrow> 'w st \<Rightarrow> zval \<times> 'w st" where
  "uuid_v7 B = fu_fn_generate (simd B) (fu_gen_v7 (plat B)) False"
definition uuid_v7_bin :: "('w, 'm, 's) build \<Rightarrow> 'w st \<Rightarrow> zval \<times> 'w st" where
  "uuid_v7_bin B = fu_fn_generate (simd B) (fu_gen_v7 (plat B)) True"

definition uuid_v7_at :: "('w, 'm, 's) build \<Rightarrow> int \<Rightarrow> 'w st \<Rightarrow> zval \<times> 'w st" where
  "uuid_v7_at B lval = fu_fn_v7_at B lval False"
definition uuid_v7_at_bin :: "('w, 'm, 's) build \<Rightarrow> int \<Rightarrow> 'w st \<Rightarrow> zval \<times> 'w st" where
  "uuid_v7_at_bin B lval = fu_fn_v7_at B lval True"

definition uuid_v3 :: "('w, 'm, 's) build \<Rightarrow> byte list \<Rightarrow> byte list \<Rightarrow> 'w st \<Rightarrow> zval \<times> 'w st" where
  "uuid_v3 B str1 str2 = fu_fn_name_based B str1 str2 (fu_gen_v3 (MD5 B)) False"
definition uuid_v3_bin :: "('w, 'm, 's) build \<Rightarrow> byte list \<Rightarrow> byte list \<Rightarrow> 'w st \<Rightarrow> zval \<times> 'w st" where
  "uuid_v3_bin B str1 str2 = fu_fn_name_based B str1 str2 (fu_gen_v3 (MD5 B)) True"
definition uuid_v5 :: "('w, 'm, 's) build \<Rightarrow> byte list \<Rightarrow> byte list \<Rightarrow> 'w st \<Rightarrow> zval \<times> 'w st" where
  "uuid_v5 B str1 str2 = fu_fn_name_based B str1 str2 (fu_gen_v5 (SHA1 B)) False"
definition uuid_v5_bin :: "('w, 'm, 's) build \<Rightarrow> byte list \<Rightarrow> byte list \<Rightarrow> 'w st \<Rightarrow> zval \<times> 'w st" where
  "uuid_v5_bin B str1 str2 = fu_fn_name_based B str1 str2 (fu_gen_v5 (SHA1 B)) True"

definition uuid_v8 :: "('w, 'm, 's) build \<Rightarrow> byte list \<Rightarrow> 'w st \<Rightarrow> zval \<times> 'w st" where
  "uuid_v8 B str = fu_fn_v8 B str False"
definition uuid_v8_bin :: "('w, 'm, 's) build \<Rightarrow> byte list \<Rightarrow> 'w st \<Rightarrow> zval \<times> 'w st" where
  "uuid_v8_bin B str = fu_fn_v8 B str True"

definition uuid_v4_batch :: "('w, 'm, 's) build \<Rightarrow> int \<Rightarrow> 'w st \<Rightarrow> zval \<times> 'w st" where
  "uuid_v4_batch B lval = fu_fn_batch B lval (fu_gen_v4_batch_n (plat B) (simd B)) False"
definition uuid_v4_bin_batch :: "('w, 'm, 's) build \<Rightarrow> int \<Rightarrow> 'w st \<Rightarrow> zval \<times> 'w st" where
  "uuid_v4_bin_batch B lval = fu_fn_batch B lval (fu_gen_v4_batch_n (plat B) (simd B)) True"
definition uuid_v7_batch :: "('w, 'm, 's) build \<Rightarrow> int \<Rightarrow> 'w st \<Rightarrow> zval \<times> 'w st" where
  "uuid_v7_batch B lval = fu_fn_batch B lval (fu_gen_v7_batch_n (plat B) (simd B)) False"
definition uuid_v7_bin_batch :: "('w, 'm, 's) build \<Rightarrow> int \<Rightarrow> 'w st \<Rightarrow> zval \<times> 'w st" where
  "uuid_v7_bin_batch B lval = fu_fn_batch B lval (fu_gen_v7_batch_n (plat B) (simd B)) True"

definition uuid_to_bin :: "('w, 'm, 's) build \<Rightarrow> byte list \<Rightarrow> 'w st \<Rightarrow> zval \<times> 'w st" where
  "uuid_to_bin B str = fu_fn_to_bin B str"
definition uuid_from_bin :: "('w, 'm, 's) build \<Rightarrow> byte list \<Rightarrow> 'w st \<Rightarrow> zval \<times> 'w st" where
  "uuid_from_bin B str = fu_fn_from_bin B str"
definition uuid_is_valid :: "('w, 'm, 's) build \<Rightarrow> byte list \<Rightarrow> 'w st \<Rightarrow> zval \<times> 'w st" where
  "uuid_is_valid B str = fu_fn_is_valid B str"

definition fast_uuid_random_bytes :: "('w, 'm, 's) build \<Rightarrow> int \<Rightarrow> 'w st \<Rightarrow> zval \<times> 'w st" where
  "fast_uuid_random_bytes B lval s =
     (case fu_fn_random_bytes (plat B) lval s of
        (None, s) \<Rightarrow> (IS_NULL, s)
      | (Some b, s) \<Rightarrow> (IS_STRING b, s))"

subsection \<open>What the functions return\<close>

text \<open>A call of one of the functions, and its run.\<close>

datatype gen_fn = V1 | V4 | V4_fast | V6 | V7

datatype fn_call =
  Generate gen_fn bool | V7_at int bool | V3 "byte list" "byte list" bool | V5 "byte list" "byte list" bool |
  V8 "byte list" bool | V4_batch int bool | V7_batch int bool | To_bin "byte list" | From_bin "byte list" |
  Is_valid "byte list" | Random int

fun fn_run :: "('w, 'm, 's) build \<Rightarrow> fn_call \<Rightarrow> 'w st \<Rightarrow> zval \<times> 'w st" where
  "fn_run B (Generate V1 bin) = (if bin then uuid_v1_bin B else uuid_v1 B)"
| "fn_run B (Generate V4 bin) = (if bin then uuid_v4_bin B else uuid_v4 B)"
| "fn_run B (Generate V4_fast bin) = (if bin then uuid_v4_fast_bin B else uuid_v4_fast B)"
| "fn_run B (Generate V6 bin) = (if bin then uuid_v6_bin B else uuid_v6 B)"
| "fn_run B (Generate V7 bin) = (if bin then uuid_v7_bin B else uuid_v7 B)"
| "fn_run B (V7_at ms bin) = (if bin then uuid_v7_at_bin B ms else uuid_v7_at B ms)"
| "fn_run B (V3 ns name bin) = (if bin then uuid_v3_bin B ns name else uuid_v3 B ns name)"
| "fn_run B (V5 ns name bin) = (if bin then uuid_v5_bin B ns name else uuid_v5 B ns name)"
| "fn_run B (V8 data bin) = (if bin then uuid_v8_bin B data else uuid_v8 B data)"
| "fn_run B (V4_batch n bin) = (if bin then uuid_v4_bin_batch B n else uuid_v4_batch B n)"
| "fn_run B (V7_batch n bin) = (if bin then uuid_v7_bin_batch B n else uuid_v7_batch B n)"
| "fn_run B (To_bin str) = uuid_to_bin B str"
| "fn_run B (From_bin str) = uuid_from_bin B str"
| "fn_run B (Is_valid str) = uuid_is_valid B str"
| "fn_run B (Random n) = fast_uuid_random_bytes B n"

fun gen_version :: "gen_fn \<Rightarrow> nat" where
  "gen_version V1 = 1" | "gen_version V4 = 4" | "gen_version V4_fast = 4" | "gen_version V6 = 6" | "gen_version V7 = 7"

definition uuid_value :: "('w, 'm, 's) build \<Rightarrow> nat \<Rightarrow> bool \<Rightarrow> zval \<Rightarrow> bool" where
  "uuid_value B v bin rv \<longleftrightarrow> (\<exists>b. rfc_uuid v b \<and> rv = fu_retval_uuid (simd B) b bin)"

definition uuid_array :: "('w, 'm, 's) build \<Rightarrow> nat \<Rightarrow> bool \<Rightarrow> int \<Rightarrow> zval \<Rightarrow> bool" where
  "uuid_array B v bin n rv \<longleftrightarrow> 0 < n \<and> n \<le> 100000 \<and>
     (\<exists>bs. int (length bs) = n \<and> (\<forall>b \<in> set bs. rfc_uuid v b) \<and>
        rv = packed (map (\<lambda>b. fu_retval_uuid (simd B) b bin) bs))"

text \<open>What a call that throws nothing has returned.\<close>

fun fn_ok :: "('w, 'm, 's) build \<Rightarrow> fn_call \<Rightarrow> zval \<Rightarrow> bool" where
  "fn_ok B (Generate g bin) rv = uuid_value B (gen_version g) bin rv"
| "fn_ok B (V7_at ms bin) rv = (0 \<le> ms \<and> ms < 2 ^ 48 \<and> uuid_value B 7 bin rv)"
| "fn_ok B (V3 ns name bin) rv =
     (fu_parse (strncase B) ns \<noteq> None \<and> length name \<le> 16777216 \<and> uuid_value B 3 bin rv)"
| "fn_ok B (V5 ns name bin) rv =
     (fu_parse (strncase B) ns \<noteq> None \<and> length name \<le> 16777216 \<and> uuid_value B 5 bin rv)"
| "fn_ok B (V8 data bin) rv = (length data = 16 \<and> uuid_value B 8 bin rv)"
| "fn_ok B (V4_batch n bin) rv = uuid_array B 4 bin n rv"
| "fn_ok B (V7_batch n bin) rv = uuid_array B 7 bin n rv"
| "fn_ok B (To_bin str) rv = (\<exists>b. fu_parse (strncase B) str = Some b \<and> rv = IS_STRING b)"
| "fn_ok B (From_bin str) rv = (length str = 16 \<and> rv = IS_STRING (fu_format36 (simd B) str))"
| "fn_ok B (Is_valid str) rv = (rv = IS_BOOL (fu_parse (strncase B) str \<noteq> None))"
| "fn_ok B (Random n) rv = (\<exists>b. int (length b) = n \<and> rv = IS_STRING b)"

fun fn_args_ok :: "fn_call \<Rightarrow> bool" where
  "fn_args_ok (V7_at ms bin) = zend_long_range ms"
| "fn_args_ok (V4_batch n bin) = zend_long_range n"
| "fn_args_ok (V7_batch n bin) = zend_long_range n"
| "fn_args_ok (Random n) = zend_long_range n"
| "fn_args_ok c = True"

definition build_ok :: "('w, 'm, 's) build \<Rightarrow> bool" where
  "build_ok B \<longleftrightarrow> digest_ok 16 (MD5 B) \<and> digest_ok 20 (SHA1 B)"

text \<open>The contract of a body, as a predicate on what it leaves.\<close>

definition fn_outcome :: "(zval \<Rightarrow> bool) \<Rightarrow> zval \<times> 'w st \<Rightarrow> bool" where
  "fn_outcome ok r \<longleftrightarrow> fu_inv (snd r) \<and> (EG_exception (snd r) = None \<longrightarrow> ok (fst r))"

lemma fn_outcome_simps [simp]: "fn_outcome ok (rv, s) \<longleftrightarrow> fu_inv s \<and> (EG_exception s = None \<longrightarrow> ok rv)"
  by (simp add: fn_outcome_def)

context uuid_generator
begin

lemma fn_generate:
  assumes "fu_inv s" and "EG_exception s = None" and "valid i"
  shows "fn_outcome (uuid_value B ver bin) (fu_fn_generate (simd B) (gen i) bin s)"
  by (rule outcome_cases [OF assms]) (auto simp: fu_fn_generate_def uuid_value_def)

end

lemma fu_batch_count_cases:
  assumes "zend_long_range n"
  obtains (ok) "fu_batch_count_arg ht n s = (Some (nat n), s)" "0 < n" "n \<le> 100000"
    | (fail) msg where "fu_batch_count_arg ht n s = (None, zend_throw InvalidArgumentException msg s)"
proof (cases "0 < n \<and> \<not> ht < word_of_int n \<and> \<not> FU_MAX_BATCH_COUNT < word_of_int n")
  case True
  have "uint (word_of_int n :: u64) = n" using uint_zend_long [OF assms] True by simp
  then have n: "n \<le> 100000" using True by (simp add: word_less_def FU_MAX_BATCH_COUNT_def)
  then have "unat (word_of_int n :: u32) = nat n"
    using True by (simp add: unat_eq_nat_uint uint_word_of_int)
  then show thesis using True n by (intro ok) (simp_all add: fu_batch_count_arg_def)
next
  case False
  then show thesis by (cases "n \<le> 0") (auto simp: fu_batch_count_arg_def intro: fail)
qed

text \<open>A batch body that fills the array with UUIDs of one version.\<close>

lemma fn_batch_outcome:
  assumes "fu_inv s" and "EG_exception s = None" and "zend_long_range n"
    and gen: "\<And>rc arr s'. 0 < n \<Longrightarrow> gen (nat n) bin s = (rc, arr, s') \<Longrightarrow> fu_inv s' \<and>
      (\<exists>bs. arr = map (\<lambda>b. fu_uuid_zstr (simd B) b bin) bs \<and> (\<forall>b \<in> set bs. rfc_uuid v b)) \<and>
      (EG_exception s' = None \<longrightarrow> length arr = nat n)"
  shows "fn_outcome (uuid_array B v bin n) (fu_fn_batch B n gen bin s)"
proof (rule fu_batch_count_cases [OF assms(3), of "HT_MAX_SIZE B" s])
  assume n: "fu_batch_count_arg (HT_MAX_SIZE B) n s = (Some (nat n), s)" "0 < n" "n \<le> 100000"
  obtain rc arr s' where g: "gen (nat n) bin s = (rc, arr, s')" by (cases "gen (nat n) bin s")
  from gen [OF n(2) g] obtain bs where bs: "fu_inv s'" "arr = map (\<lambda>b. fu_uuid_zstr (simd B) b bin) bs"
    "\<forall>b \<in> set bs. rfc_uuid v b" "EG_exception s' = None \<longrightarrow> length arr = nat n" by (elim conjE exE)
  have e: "map IS_STRING arr = map (\<lambda>b. fu_retval_uuid (simd B) b bin) bs"
    by (simp add: bs(2) fu_retval_uuid_def fu_uuid_zstr_def)
  have "uuid_array B v bin n (packed (map IS_STRING arr))" if "EG_exception s' = None"
    unfolding uuid_array_def e using n(2,3) bs(2-4) that by (intro conjI exI [of _ bs]) simp_all
  then show ?thesis using n(1) g bs(1) by (simp add: fu_fn_batch_def)
next
  fix msg assume "fu_batch_count_arg (HT_MAX_SIZE B) n s = (None, zend_throw InvalidArgumentException msg s)"
  then show ?thesis using assms(1) by (simp add: fu_fn_batch_def fu_inv_def zend_throw_def)
qed

lemma v4_batch_outcome:
  assumes "fu_inv s" and "fu_gen_v4_batch_n P h n bin s = (rc, arr, s')"
  shows "fu_inv s' \<and> (\<exists>bs. arr = map (\<lambda>b. fu_uuid_zstr h b bin) bs \<and> (\<forall>b \<in> set bs. rfc_uuid 4 b)) \<and>
    (EG_exception s' = None \<longrightarrow> length arr = n)"
proof -
  note r = v4_batch_props [OF assms(1) assms(2) [unfolded fu_gen_v4_batch_n_def]]
  have "\<forall>x \<in> set arr. \<exists>b. rfc_uuid 4 b \<and> x = fu_uuid_zstr h b bin"
  proof
    fix x assume "x \<in> set arr"
    with r obtain c where "length c = 16" "x = fu_uuid_zstr h (fu_set_ver_var c 0x40) bin" by blast
    then show "\<exists>b. rfc_uuid 4 b \<and> x = fu_uuid_zstr h b bin"
      by (intro exI [of _ "fu_set_ver_var c 0x40"]) (simp add: rfc_set_ver_var)
  qed
  from ex_map_all [OF this] r show ?thesis by (auto split: if_splits)
qed

lemma v7_batch_outcome:
  assumes "fu_inv s" and "0 < n" and "fu_gen_v7_batch_n P h n bin s = (rc, arr, s')"
  shows "fu_inv s' \<and> (\<exists>bs. arr = map (\<lambda>b. fu_uuid_zstr h b bin) bs \<and> (\<forall>b \<in> set bs. rfc_uuid 7 b)) \<and>
    (EG_exception s' = None \<longrightarrow> length arr = n)"
proof -
  from v7_batch_facts [OF assms] obtain ps where p: "fu_inv s'"
    "arr = map (\<lambda>p. fu_uuid_zstr h (pos_bytes p) bin) ps" "\<forall>p \<in> set ps. pos_ok p"
    "if rc = SUCCESS then length arr = n \<and> EG_exception s' = EG_exception s else EG_exception s' \<noteq> None"
    by blast
  have "\<exists>bs. arr = map (\<lambda>b. fu_uuid_zstr h b bin) bs \<and> (\<forall>b \<in> set bs. rfc_uuid 7 b)"
    using p(2,3) by (intro exI [of _ "map pos_bytes ps"]) (simp add: rfc_pos_bytes)
  moreover have "EG_exception s' = None \<longrightarrow> length arr = n" using p(4) by (auto split: if_splits)
  ultimately show ?thesis using p(1) by blast
qed

lemma fn_name_based_outcome:
  assumes "fu_inv s" and "EG_exception s = None"
    and gen: "\<And>ns. gen_outcome v (gen ns nm s) \<and> (fst (gen ns nm s) \<noteq> None \<longrightarrow> length nm \<le> 16777216)"
  shows "fn_outcome (\<lambda>rv. fu_parse (strncase B) zns \<noteq> None \<and> length nm \<le> 16777216 \<and> uuid_value B v bin rv)
    (fu_fn_name_based B zns nm gen bin s)"
proof (cases "fu_parse (strncase B) zns")
  case None
  then show ?thesis using assms(1) by (simp add: fu_fn_name_based_def fu_inv_def zend_throw_def)
next
  case (Some ns)
  obtain r s' where g: "gen ns nm s = (r, s')" by (cases "gen ns nm s")
  with gen [of ns] Some show ?thesis by (cases r) (auto simp: fu_fn_name_based_def uuid_value_def)
qed

lemma fn_v7_at_outcome:
  assumes "fu_inv s" and "EG_exception s = None" and "zend_long_range ms"
  shows "fn_outcome (\<lambda>rv. 0 \<le> ms \<and> ms < 2 ^ 48 \<and> uuid_value B 7 bin rv) (fu_fn_v7_at B ms bin s)"
proof (rule fu_v7_at_ms_cases [OF assms(3), of "plat B"])
  assume m: "0 \<le> ms" "ms < 2 ^ 48" "fu_v7_at_ms (plat B) ms = v7_at_call (plat B, word_of_int ms, 0)"
    "word_of_int ms < (2 ^ 48 :: u64)"
  show ?thesis
    by (rule v7_at_gen.outcome_cases [OF assms(1,2), of "(plat B, word_of_int ms, 0)"])
       (use m in \<open>auto simp: fu_fn_v7_at_def uuid_value_def\<close>)
qed (use assms(1) in \<open>simp add: fu_fn_v7_at_def fu_inv_def zend_throw_def\<close>)

lemma fn_ok_abs:
  "fn_ok B (Generate g bin) = uuid_value B (gen_version g) bin"
  "fn_ok B (V7_at ms bin) = (\<lambda>rv. 0 \<le> ms \<and> ms < 2 ^ 48 \<and> uuid_value B 7 bin rv)"
  "fn_ok B (V3 ns name bin) =
     (\<lambda>rv. fu_parse (strncase B) ns \<noteq> None \<and> length name \<le> 16777216 \<and> uuid_value B 3 bin rv)"
  "fn_ok B (V5 ns name bin) =
     (\<lambda>rv. fu_parse (strncase B) ns \<noteq> None \<and> length name \<le> 16777216 \<and> uuid_value B 5 bin rv)"
  "fn_ok B (V4_batch n bin) = uuid_array B 4 bin n"
  "fn_ok B (V7_batch n bin) = uuid_array B 7 bin n"
  by (simp_all add: fun_eq_iff)

lemma generate_outcome:
  assumes "fu_inv s" and "EG_exception s = None"
  shows "fn_outcome (fn_ok B (Generate g bin)) (fn_run B (Generate g bin) s)"
proof -
  have v1: "fu_gen_v1 (plat B) = v1_call (plat B, None, - 1)" and v6: "fu_gen_v6 (plat B) = v6_tick (plat B, None, - 1)"
    by (simp_all add: fun_eq_iff v1_call_def v6_tick_def fu_gen_v1_def fu_gen_v6_def)
  have valid: "v6_valid (plat B, None, - 1)" by (simp add: v6_valid_def args_ok_def)
  show ?thesis
    using v1_gen.fn_generate [OF assms(1,2), where i = "(plat B, None, - 1)" and B = B and bin = bin]
      v6_gen.fn_generate [OF assms(1,2) valid, where B = B and bin = bin]
      v4_gen.fn_generate [OF assms(1,2), where i = "plat B" and B = B and bin = bin] v4_fast_gen.fn_generate [OF assms(1,2), where i = "plat B" and B = B and bin = bin]
      v7_gen.fn_generate [OF assms(1,2), where i = "plat B" and B = B and bin = bin]
    by (cases g; cases bin)
       (simp_all add: fn_ok_abs uuid_v1_def uuid_v1_bin_def uuid_v4_def uuid_v4_bin_def uuid_v4_fast_def uuid_v4_fast_bin_def
          uuid_v6_def uuid_v6_bin_def uuid_v7_def uuid_v7_bin_def v1 v6 args_ok_def)
qed

lemma name_based_v3:
  assumes "fu_inv s" and "EG_exception s = None" and "build_ok B"
  shows "gen_outcome 3 (fu_gen_v3 (MD5 B) ns name s) \<and> (fst (fu_gen_v3 (MD5 B) ns name s) \<noteq> None \<longrightarrow> length name \<le> 16777216)"
  using v3_gen.outcome [OF assms(1,2), of "(MD5 B, ns, name)"] assms(3)
  by (auto simp: build_ok_def v3_call_def fu_gen_v3_def fu_name_len_ok_def FU_MAX_NAME_BYTES_def Let_def)

lemma name_based_v5:
  assumes "fu_inv s" and "EG_exception s = None" and "build_ok B"
  shows "gen_outcome 5 (fu_gen_v5 (SHA1 B) ns name s) \<and> (fst (fu_gen_v5 (SHA1 B) ns name s) \<noteq> None \<longrightarrow> length name \<le> 16777216)"
  using v5_gen.outcome [OF assms(1,2), of "(SHA1 B, ns, name)"] assms(3)
  by (auto simp: build_ok_def v5_call_def fu_gen_v5_def fu_name_len_ok_def FU_MAX_NAME_BYTES_def Let_def)

lemma functions_outcome:
  assumes "fu_inv s" and "EG_exception s = None" and "build_ok B" and "fn_args_ok c"
    and "fn_run B c s = (rv, s')"
  shows "fu_inv s' \<and> (EG_exception s' = None \<longrightarrow> fn_ok B c rv)"
proof -
  have "fn_outcome (fn_ok B c) (fn_run B c s)"
  proof (cases c)
    case (Generate g bin)
    then show ?thesis using generate_outcome [OF assms(1,2)] by simp
  next
    case (V7_at ms bin)
    then show ?thesis
      using fn_v7_at_outcome [OF assms(1,2), of ms B bin] assms(4) by (cases bin) (simp_all add: fn_ok_abs uuid_v7_at_def uuid_v7_at_bin_def)
  next
    case (V3 ns name bin)
    from fn_name_based_outcome [where gen = "fu_gen_v3 (MD5 B)" and B = B and zns = ns and bin = bin, OF assms(1,2) name_based_v3 [OF assms(1-3)]] show ?thesis
      by (cases bin) (simp_all add: fn_ok_abs V3 uuid_v3_def uuid_v3_bin_def)
  next
    case (V5 ns name bin)
    from fn_name_based_outcome [where gen = "fu_gen_v5 (SHA1 B)" and B = B and zns = ns and bin = bin, OF assms(1,2) name_based_v5 [OF assms(1-3)]] show ?thesis
      by (cases bin) (simp_all add: fn_ok_abs V5 uuid_v5_def uuid_v5_bin_def)
  next
    case (V8 data bin)
    then show ?thesis
      using assms(1) rfc_gen_v8 [of data]
      by (cases bin) (auto simp: uuid_v8_def uuid_v8_bin_def fu_fn_v8_def uuid_value_def fu_inv_def zend_throw_def)
  next
    case (V4_batch n bin)
    then have "zend_long_range n" using assms(4) by simp
    from fn_batch_outcome [where gen = "fu_gen_v4_batch_n (plat B) (simd B)", OF assms(1,2) this v4_batch_outcome [OF assms(1)]]
    show ?thesis by (cases bin) (simp_all add: fn_ok_abs V4_batch uuid_v4_batch_def uuid_v4_bin_batch_def)
  next
    case (V7_batch n bin)
    then have "zend_long_range n" using assms(4) by simp
    from fn_batch_outcome [where gen = "fu_gen_v7_batch_n (plat B) (simd B)", OF assms(1,2) this v7_batch_outcome [OF assms(1)]]
    show ?thesis by (cases bin) (simp_all add: fn_ok_abs V7_batch uuid_v7_batch_def uuid_v7_bin_batch_def)
  next
    case (Random n)
    obtain r s1 where r: "fu_fn_random_bytes (plat B) n s = (r, s1)" by (cases "fu_fn_random_bytes (plat B) n s")
    from random_bytes_facts [OF assms(1,2) r] show ?thesis
      by (cases r) (auto simp: Random fast_uuid_random_bytes_def r)
  qed (use assms(1) in \<open>auto simp: uuid_to_bin_def uuid_from_bin_def uuid_is_valid_def fu_fn_to_bin_def fu_fn_from_bin_def
         fu_fn_is_valid_def fu_retval_uuid_def fu_inv_def zend_throw_def split: option.splits\<close>)
  then show ?thesis using assms(5) by simp
qed

text \<open>C6: every procedural function keeps the invariant of the globals, and a call that throws nothing has
  returned what it promises: a UUID of the function's version and of the RFC variant as 16 bytes or as
  canonical text, an array of exactly the length asked for (at most 100000) of such UUIDs, the bytes or
  the text of its argument, or a string of the length asked for.\<close>

theorem fu_functions_outcome:
  assumes "fu_inv s" and "EG_exception s = None" and "build_ok B" and "fn_args_ok c"
    and "fn_run B c s = (rv, s')"
  shows "fu_inv s' \<and> (EG_exception s' = None \<longrightarrow> fn_ok B c rv)"
  using assms by (rule functions_outcome)

text \<open>A build for the examples.\<close>

definition sample_build :: "(nat, byte list, byte list) build" where
  "sample_build =
     \<lparr>plat = sample_platform, simd = FU_X86 True, strncase = ncase_ref, MD5 = sample_digest 16, SHA1 = sample_digest 20,
      posix_ids = Some (1000, 1001), HT_MAX_SIZE = 0x40000000\<rparr>"

lemma sample_build_ok: "build_ok sample_build"
  unfolding build_ok_def using digest_law_ok [OF sample_digest_law [of 16]] digest_law_ok [OF sample_digest_law [of 20]]
  by (simp add: sample_build_def)

theorem fu_functions_outcome_witness:
  "\<exists>rv s'. fn_run sample_build (V7_batch 3 False) (fu_boot (5 :: nat)) = (rv, s') \<and> fu_inv s' \<and>
     (EG_exception s' = None \<longrightarrow> uuid_array sample_build 7 False 3 rv)"
proof -
  obtain rv s' where r: "fn_run sample_build (V7_batch 3 False) (fu_boot (5 :: nat)) = (rv, s')"
    by (cases "fn_run sample_build (V7_batch 3 False) (fu_boot (5 :: nat))")
  have "EG_exception (fu_boot (5 :: nat)) = None" by (simp add: fu_boot_def globals.extend_def fu_ginit_def)
  from fu_functions_outcome [OF fu_inv_boot this sample_build_ok _ r] show ?thesis
    using r by (simp add: zend_long_range_def)
qed

text \<open>Text and bytes convert into each other without loss: the text of any 16 bytes is valid and parses
  back to them, whatever the formatter built in, and a text that is accepted has the canonical text of
  its bytes as its normal form.  Anything but 16 bytes, and any other text, throws.\<close>

theorem uuid_bin_roundtrip:
  "(if length b = 16
    then \<exists>t. uuid_from_bin B b s = (IS_STRING t, s) \<and> length t = 36 \<and>
           uuid_is_valid B t s = (IS_BOOL True, s) \<and> uuid_to_bin B t s = (IS_STRING b, s)
    else uuid_from_bin B b s = (IS_NULL, zend_throw InvalidArgumentException ''Expected 16 bytes'' s)) \<and>
   (if snd (uuid_is_valid B str s) = s \<and> fst (uuid_is_valid B str s) = IS_BOOL True
    then \<exists>c t. uuid_to_bin B str s = (IS_STRING c, s) \<and> length c = 16 \<and> uuid_from_bin B c s = (IS_STRING t, s) \<and>
           uuid_to_bin B t s = (IS_STRING c, s)
    else uuid_to_bin B str s = (IS_NULL, zend_throw InvalidUuidStringException ''Invalid UUID'' s))"
  using fu_parse_length [of "strncase B" str]
  by (auto simp: uuid_from_bin_def fu_fn_from_bin_def uuid_is_valid_def fu_fn_is_valid_def uuid_to_bin_def fu_fn_to_bin_def
      fu_retval_uuid_def length_fu_format36)

subsection \<open>The two entry points of a function of two strings\<close>

text \<open>The caller's variables, by slot, beside the module state: coercing a value to a string can run
  userland code (a \<open>__toString\<close>, an error handler) that changes either.  \<open>parse_arg_str\<close> is the
  engine's \<open>zend_parse_arg_str_ex\<close>, \<open>wrong_type\<close> its \<open>zend_wrong_parameter_type_error\<close>.\<close>

type_synonym 'w frame = "(nat \<Rightarrow> zval) \<times> 'w st"

record 'w coercion =
  parse_arg_str :: "zval \<Rightarrow> nat \<Rightarrow> 'w frame \<Rightarrow> byte list option \<times> 'w frame"
  wrong_type :: "nat \<Rightarrow> zval \<Rightarrow> 'w frame \<Rightarrow> 'w frame"

definition fu_flf_str_owned :: "'w coercion \<Rightarrow> zval \<Rightarrow> nat \<Rightarrow> 'w frame \<Rightarrow> byte list option \<times> 'w frame" where
  "fu_flf_str_owned E arg arg_num f =
     (case arg of
        IS_STRING str \<Rightarrow> (Some str, f)
      | _ \<Rightarrow>
          (case parse_arg_str E arg arg_num f of
             (Some dest, f) \<Rightarrow> (Some dest, f)
           | (None, f) \<Rightarrow> (None, wrong_type E arg_num arg f)))"

definition call_body :: "(byte list \<Rightarrow> byte list \<Rightarrow> 'w st \<Rightarrow> zval \<times> 'w st) \<Rightarrow> byte list \<Rightarrow> byte list \<Rightarrow> 'w frame \<Rightarrow>
    zval \<times> 'w frame" where
  "call_body call str1 str2 f = (case call str1 str2 (snd f) of (rv, s) \<Rightarrow> (rv, fst f, s))"

text \<open>\<open>ZEND_FRAMELESS_FUNCTION(fname, 2)\<close>: the arguments are the slots \<open>arg1\<close> and \<open>arg2\<close>.\<close>

definition zflf_str2 :: "'w coercion \<Rightarrow> (byte list \<Rightarrow> byte list \<Rightarrow> 'w st \<Rightarrow> zval \<times> 'w st) \<Rightarrow> nat \<Rightarrow> nat \<Rightarrow>
    'w frame \<Rightarrow> zval \<times> 'w frame" where
  "zflf_str2 E call arg1 arg2 f =
     (case (fst f arg1, fst f arg2) of
        (IS_STRING str1, IS_STRING str2) \<Rightarrow> call_body call str1 str2 f
      | _ \<Rightarrow>
          (let str1_tmp = fst f arg1;
               str2_tmp = fst f arg2
           in case fu_flf_str_owned E str1_tmp 1 f of
                (None, f) \<Rightarrow> (IS_NULL, f)
              | (Some str1, f) \<Rightarrow>
                  (case fu_flf_str_owned E str2_tmp 2 f of
                     (None, f) \<Rightarrow> (IS_NULL, f)
                   | (Some str2, f) \<Rightarrow> call_body call str1 str2 f)))"

text \<open>\<open>PHP_FUNCTION(fname)\<close>: the engine has copied the two arguments into the callee's frame, and the
  \<open>Z_PARAM_STR\<close> pair converts the copies in order.\<close>

definition zif_str2 :: "'w coercion \<Rightarrow> (byte list \<Rightarrow> byte list \<Rightarrow> 'w st \<Rightarrow> zval \<times> 'w st) \<Rightarrow> zval \<Rightarrow> zval \<Rightarrow>
    'w frame \<Rightarrow> zval \<times> 'w frame" where
  "zif_str2 E call v1 v2 f =
     (case (case v1 of IS_STRING str \<Rightarrow> (Some str, f) | _ \<Rightarrow> parse_arg_str E v1 1 f) of
        (None, f) \<Rightarrow> (IS_NULL, wrong_type E 1 v1 f)
      | (Some str1, f) \<Rightarrow>
          (case (case v2 of IS_STRING str \<Rightarrow> (Some str, f) | _ \<Rightarrow> parse_arg_str E v2 2 f) of
             (None, f) \<Rightarrow> (IS_NULL, wrong_type E 2 v2 f)
           | (Some str2, f) \<Rightarrow> call_body call str1 str2 f))"

text \<open>C19: the frameless entry point of a two-string function sees exactly the values its variables held
  when it was called: whatever userland code the coercion of one argument runs (reassigning the other
  argument's variable, or the same variable for both arguments), it returns what the copying entry
  point returns for those values, and leaves the same variables and state.\<close>

theorem zflf_str2_by_value: "zflf_str2 E call arg1 arg2 f = zif_str2 E call (fst f arg1) (fst f arg2) f"
  by (cases "fst f arg1"; cases "fst f arg2")
     (auto simp: zflf_str2_def zif_str2_def fu_flf_str_owned_def Let_def split: prod.splits option.splits)

end
