(* ===== verification/Fu_Object.thy ===== *)
theory Fu_Object
  imports Fu_Functions
begin

section \<open>The \<open>Uuid\<close> object\<close>

text \<open>
  Objects in an explicit store, because they are shared and mutable: \<open>__unserialize\<close> overwrites the
  bytes of a live object and \<open>fu_str\<close> fills its text cache.  First the object handlers
  (\<open>fu_create\<close>, \<open>fu_clone\<close>, \<open>fu_compare\<close>, \<open>fu_str\<close>, \<open>fu_cast\<close>, the two property handlers), then how
  an argument is resolved to 16 bytes (\<open>fu_resolve_uuid\<close> and the reflection helpers it uses), then
  the instance methods.  The class is final, so an instance is an object whose class is
  \<open>fast_uuid_ce\<close>; every other object is known to the extension by its class only.
\<close>

subsection \<open>The object store\<close>

record fu_obj =
  obj_b :: "byte list"
  obj_str :: "byte list option"

type_synonym class_entry = nat

datatype zobj = Uuid fu_obj | Other class_entry

text \<open>The module state together with the objects.  Handles are given out by the engine's object store, which is not
  part of the repository: \<open>store_put\<close> is the handle it chooses for the \<open>n\<close>-th object made, given the objects
  that live then (so it may hand out the handle of a freed object again), and \<open>puts\<close> counts the objects made.\<close>

record 'w vm =
  core :: "'w st"
  objects :: "nat \<Rightarrow> zobj option"
  store_put :: "nat \<Rightarrow> (nat \<Rightarrow> zobj option) \<Rightarrow> nat"
  puts :: nat

text \<open>The handle the next object will get, and what the engine promises of it: it is not in use.\<close>

definition next_object :: "'w vm \<Rightarrow> nat" where
  "next_object vm = store_put vm (puts vm) (objects vm)"

definition store_ok :: "'w vm \<Rightarrow> bool" where
  "store_ok vm \<longleftrightarrow> finite (dom (objects vm)) \<and> (\<forall>n obs. finite (dom obs) \<longrightarrow> obs (store_put vm n obs) = None)"

lemma next_object_free [simp]: "store_ok vm \<Longrightarrow> objects vm (next_object vm) = None"
  by (simp add: store_ok_def next_object_def)

lemma store_ok_update:
  "store_ok vm \<Longrightarrow> dom (objects vm') \<subseteq> insert o1 (dom (objects vm)) \<Longrightarrow> store_put vm' = store_put vm \<Longrightarrow> store_ok vm'"
  by (auto simp: store_ok_def intro: finite_subset)

abbreviation vm_exception :: "'w vm \<Rightarrow> php_exn option" where
  "vm_exception vm \<equiv> EG_exception (core vm)"

definition vm_throw :: "exn_class \<Rightarrow> string \<Rightarrow> 'w vm \<Rightarrow> 'w vm" where
  "vm_throw ce msg vm = vm\<lparr>core := zend_throw ce msg (core vm)\<rparr>"

text \<open>\<open>fu_from_zobj\<close>: the record behind a handle.  The engine calls a handler or a method on instances of
  the class only; for any other handle the value below is not used.\<close>

definition fu_from_zobj :: "'w vm \<Rightarrow> nat \<Rightarrow> fu_obj" where
  "fu_from_zobj vm o1 = (case objects vm o1 of Some (Uuid u) \<Rightarrow> u | _ \<Rightarrow> \<lparr>obj_b = replicate 16 0, obj_str = None\<rparr>)"

text \<open>A value that is an instance of the class.\<close>

definition native :: "'w vm \<Rightarrow> zval \<Rightarrow> fu_obj option" where
  "native vm z =
     (case z of
        IS_OBJECT o1 \<Rightarrow> (case objects vm o1 of Some (Uuid u) \<Rightarrow> Some u | _ \<Rightarrow> None)
      | _ \<Rightarrow> None)"

definition set_obj :: "nat \<Rightarrow> fu_obj \<Rightarrow> 'w vm \<Rightarrow> 'w vm" where
  "set_obj o1 u vm = vm\<lparr>objects := (objects vm)(o1 \<mapsto> Uuid u)\<rparr>"

subsection \<open>Object handlers\<close>

definition fu_create :: "'w vm \<Rightarrow> nat \<times> 'w vm" where
  "fu_create vm =
     (let o1 = next_object vm
      in (o1, set_obj o1 \<lparr>obj_b = replicate 16 0, obj_str = None\<rparr> (vm\<lparr>puts := puts vm + 1\<rparr>)))"

definition fu_free :: "nat \<Rightarrow> 'w vm \<Rightarrow> 'w vm" where
  "fu_free o1 vm = vm\<lparr>objects := (objects vm)(o1 := None)\<rparr>"

definition fu_clone :: "nat \<Rightarrow> 'w vm \<Rightarrow> nat \<times> 'w vm" where
  "fu_clone o1 vm =
     (let src = fu_from_zobj vm o1
      in case fu_create vm of
           (no, vm) \<Rightarrow> (no, set_obj no ((fu_from_zobj vm no)\<lparr>obj_b := obj_b src\<rparr>) vm))"

text \<open>\<open>None\<close> is \<open>ZEND_UNCOMPARABLE\<close>.\<close>

definition fu_compare :: "'w vm \<Rightarrow> zval \<Rightarrow> zval \<Rightarrow> int option" where
  "fu_compare vm a c =
     (case (native vm a, native vm c) of
        (Some u, Some v) \<Rightarrow>
          (let r = memcmp (obj_b u) (obj_b v)
           in Some (if r < 0 then - 1 else if r > 0 then 1 else 0))
      | _ \<Rightarrow> None)"

definition fu_str :: "fu_simd \<Rightarrow> nat \<Rightarrow> 'w vm \<Rightarrow> byte list \<times> 'w vm" where
  "fu_str h o1 vm =
     (let u = fu_from_zobj vm o1
      in case obj_str u of
           Some str \<Rightarrow> (str, vm)
         | None \<Rightarrow> (let str = fu_format36 h (obj_b u) in (str, set_obj o1 (u\<lparr>obj_str := Some str\<rparr>) vm)))"

text \<open>\<open>std\<close> is the engine's \<open>zend_std_cast_object_tostring\<close> for the other target types.\<close>

datatype cast_type = To_string | To_other nat

definition fu_cast :: "fu_simd \<Rightarrow> (nat \<Rightarrow> nat \<Rightarrow> 'w vm \<Rightarrow> (zend_result \<times> zval) \<times> 'w vm) \<Rightarrow> nat \<Rightarrow> cast_type \<Rightarrow> 'w vm \<Rightarrow>
    (zend_result \<times> zval) \<times> 'w vm" where
  "fu_cast h std o1 type vm =
     (case type of
        To_string \<Rightarrow> (case fu_str h o1 vm of (str, vm) \<Rightarrow> ((SUCCESS, IS_STRING str), vm))
      | To_other t \<Rightarrow> std o1 t vm)"

definition fu_get_debug_info :: "fu_simd \<Rightarrow> nat \<Rightarrow> 'w vm \<Rightarrow> zval \<times> 'w vm" where
  "fu_get_debug_info h o1 vm =
     (case fu_str h o1 vm of (str, vm) \<Rightarrow> (IS_ARRAY [(Key (lit ''uuid''), IS_STRING str)], vm))"

datatype prop_purpose = Purpose_var_export | Purpose_other nat

definition fu_get_properties_for :: "fu_simd \<Rightarrow> (nat \<Rightarrow> nat \<Rightarrow> 'w vm \<Rightarrow> zval \<times> 'w vm) \<Rightarrow> nat \<Rightarrow> prop_purpose \<Rightarrow> 'w vm \<Rightarrow>
    zval \<times> 'w vm" where
  "fu_get_properties_for h std o1 purpose vm =
     (case purpose of
        Purpose_var_export \<Rightarrow>
          (case fu_str h o1 vm of (str, vm) \<Rightarrow> (IS_ARRAY [(Key (lit ''uuid''), IS_STRING str)], vm))
      | Purpose_other p \<Rightarrow> std o1 p vm)"

definition fu_return_uuid :: "byte list \<Rightarrow> 'w vm \<Rightarrow> zval \<times> 'w vm" where
  "fu_return_uuid b vm =
     (if vm_exception vm \<noteq> None then (IS_NULL, vm)
      else (case fu_create vm of
              (o1, vm) \<Rightarrow> (IS_OBJECT o1, set_obj o1 ((fu_from_zobj vm o1)\<lparr>obj_b := b\<rparr>) vm)))"

subsection \<open>Classes, declared types and methods of the engine\<close>

text \<open>A declared type: a mask of built-in types, and possibly a class name (owned or, from PHP 8.3 on,
  literal) or a list of types, which is a union or an intersection.\<close>

datatype zend_type = Zend_type u32 type_rest
  and type_rest = No_class | Named "byte list" | Literal_name "byte list" | Type_list bool "zend_type list"

record zend_function =
  fn_id :: nat
  required_num_args :: nat
  fn_public :: bool
  fn_abstract :: bool
  fn_static :: bool
  has_return_type :: bool
  return_type :: zend_type
  fn_scope :: "class_entry option"

text \<open>The engine's class table and calls.  \<open>call_method\<close> runs a method without arguments, \<open>get_string\<close> is
  \<open>zval_get_string\<close> on an object; either can run userland code and so change anything.\<close>

record 'w zend =
  fast_uuid_ce :: class_entry
  stringable_ce :: class_entry
  class_name :: "class_entry \<Rightarrow> byte list"
  class_parent :: "class_entry \<Rightarrow> class_entry option"
  instanceof_function :: "class_entry \<Rightarrow> class_entry \<Rightarrow> bool"
  lookup_class :: "byte list \<Rightarrow> class_entry option"
  strcasecmp :: "byte list \<Rightarrow> byte list \<Rightarrow> int"
  function_table :: "class_entry \<Rightarrow> byte list \<Rightarrow> zend_function option"
  MAY_BE_OBJECT :: u32
  call_method :: "zend_function \<Rightarrow> nat \<Rightarrow> 'w vm \<Rightarrow> zval \<times> 'w vm"
  get_string :: "nat \<Rightarrow> 'w vm \<Rightarrow> byte list \<times> 'w vm"

text \<open>The part of \<open>fu_type_may_return\<close> for a class name; \<open>owned\<close> is false for a literal name.\<close>

definition fu_name_may_return :: "'w zend \<Rightarrow> bool \<Rightarrow> byte list \<Rightarrow> class_entry option \<Rightarrow> class_entry option \<Rightarrow> bool" where
  "fu_name_may_return Z owned name_str scope required_class =
     (case required_class of
        None \<Rightarrow> False
      | Some req \<Rightarrow>
          if length name_str = length (class_name Z req) \<and> strcasecmp Z name_str (class_name Z req) = 0 then True
          else
            (let candidate =
               (if owned \<and> (name_str = lit ''self'' \<or> name_str = lit ''static'') then scope
                else if owned \<and> name_str = lit ''parent'' then
                  (case scope of Some c \<Rightarrow> class_parent Z c | None \<Rightarrow> None)
                else lookup_class Z name_str)
             in case candidate of
                  None \<Rightarrow> False
                | Some c \<Rightarrow> instanceof_function Z req c \<or> instanceof_function Z c req))"

text \<open>The second function is the loop over a list, with its early returns.\<close>

fun fu_type_may_return :: "'w zend \<Rightarrow> zend_type \<Rightarrow> class_entry option \<Rightarrow> u32 \<Rightarrow> class_entry option \<Rightarrow> bool"
  and fu_type_parts :: "'w zend \<Rightarrow> bool \<Rightarrow> zend_type list \<Rightarrow> class_entry option \<Rightarrow> u32 \<Rightarrow> class_entry option \<Rightarrow> bool" where
  "fu_type_may_return Z (Zend_type pure_mask rest) scope allowed_types required_class =
     (if pure_mask AND allowed_types \<noteq> 0 then True
      else (case rest of
              Type_list intersection parts \<Rightarrow>
                fu_type_parts Z intersection parts scope allowed_types required_class
            | No_class \<Rightarrow> False
            | Named n \<Rightarrow> fu_name_may_return Z True n scope required_class
            | Literal_name n \<Rightarrow> fu_name_may_return Z False n scope required_class))"
| "fu_type_parts Z intersection [] scope allowed_types required_class = intersection"
| "fu_type_parts Z intersection (part # parts) scope allowed_types required_class =
     (let compatible = fu_type_may_return Z part scope allowed_types required_class
      in if intersection then
           (if \<not> compatible then False else fu_type_parts Z intersection parts scope allowed_types required_class)
         else if compatible then True
         else fu_type_parts Z intersection parts scope allowed_types required_class)"

definition fu_method_may_return :: "'w zend \<Rightarrow> zend_function \<Rightarrow> u32 \<Rightarrow> class_entry option \<Rightarrow> bool" where
  "fu_method_may_return Z method allowed_types required_class =
     (if \<not> has_return_type method then True
      else fu_type_may_return Z (return_type method) (fn_scope method) allowed_types required_class)"

definition fu_find_zero_arg_method :: "'w zend \<Rightarrow> class_entry \<Rightarrow> byte list \<Rightarrow> u32 \<Rightarrow> class_entry option \<Rightarrow>
    zend_function option" where
  "fu_find_zero_arg_method Z ce name allowed_return_types required_class =
     (case function_table Z ce name of
        None \<Rightarrow> None
      | Some method \<Rightarrow>
          if required_num_args method = 0 \<and> fn_public method \<and> \<not> fn_abstract method \<and> \<not> fn_static method \<and>
             fu_method_may_return Z method allowed_return_types required_class
          then Some method else None)"

text \<open>The tail of the object case: anything stringable is parsed from its text.\<close>

definition resolve_stringable :: "('w, 'm, 's) build \<Rightarrow> 'w zend \<Rightarrow> class_entry \<Rightarrow> nat \<Rightarrow> 'w vm \<Rightarrow>
    byte list option \<times> 'w vm" where
  "resolve_stringable B Z ce o1 vm =
     (if instanceof_function Z ce (stringable_ce Z) then
        (case get_string Z o1 vm of
           (str, vm) \<Rightarrow> if vm_exception vm \<noteq> None then (None, vm) else (fu_parse (strncase B) str, vm))
      else (None, vm))"

definition fu_resolve_uuid :: "('w, 'm, 's) build \<Rightarrow> 'w zend \<Rightarrow> zval \<Rightarrow> 'w vm \<Rightarrow> byte list option \<times> 'w vm" where
  "fu_resolve_uuid B Z z vm =
     (case z of
        IS_OBJECT o1 \<Rightarrow>
          (case objects vm o1 of
             Some (Uuid u) \<Rightarrow> (Some (obj_b u), vm)
           | Some (Other ce) \<Rightarrow>
               (case fu_find_zero_arg_method Z ce (lit ''getcore'') (MAY_BE_OBJECT Z) (Some (fast_uuid_ce Z)) of
                  Some fn \<Rightarrow>
                    (case call_method Z fn o1 vm of
                       (ret, vm) \<Rightarrow>
                         (case native vm ret of
                            Some u \<Rightarrow>
                              if vm_exception vm = None then (Some (obj_b u), vm) else (None, vm)
                          | None \<Rightarrow>
                              if vm_exception vm \<noteq> None then (None, vm)
                              else resolve_stringable B Z ce o1 vm))
                | None \<Rightarrow> resolve_stringable B Z ce o1 vm)
           | None \<Rightarrow> (None, vm))
      | IS_STRING str \<Rightarrow> (fu_parse (strncase B) str, vm)
      | _ \<Rightarrow> (None, vm))"

subsection \<open>Instance methods\<close>

definition Uuid_toString :: "fu_simd \<Rightarrow> nat \<Rightarrow> 'w vm \<Rightarrow> zval \<times> 'w vm" where
  "Uuid_toString h this vm = (case fu_str h this vm of (str, vm) \<Rightarrow> (IS_STRING str, vm))"

definition Uuid_getBytes :: "nat \<Rightarrow> 'w vm \<Rightarrow> zval \<times> 'w vm" where
  "Uuid_getBytes this vm = (IS_STRING (obj_b (fu_from_zobj vm this)), vm)"

definition Uuid_getHex :: "fu_simd \<Rightarrow> nat \<Rightarrow> 'w vm \<Rightarrow> zval \<times> 'w vm" where
  "Uuid_getHex h this vm = (IS_STRING (fu_hex32 h (obj_b (fu_from_zobj vm this))), vm)"

definition Uuid_getUrn :: "fu_simd \<Rightarrow> nat \<Rightarrow> 'w vm \<Rightarrow> zval \<times> 'w vm" where
  "Uuid_getUrn h this vm = (IS_STRING (lit ''urn:uuid:'' @ fu_format36 h (obj_b (fu_from_zobj vm this))), vm)"

definition Uuid_getInteger :: "nat \<Rightarrow> 'w vm \<Rightarrow> zval \<times> 'w vm" where
  "Uuid_getInteger this vm = (IS_STRING (fu_to_decimal (obj_b (fu_from_zobj vm this))), vm)"

definition Uuid_getTimestampMillis :: "nat \<Rightarrow> 'w vm \<Rightarrow> zval \<times> 'w vm" where
  "Uuid_getTimestampMillis this vm =
     (case fu_decode_time (obj_b (fu_from_zobj vm this)) of
        None \<Rightarrow> (IS_NULL, vm_throw UnsupportedOperationException ''UUID has no embedded timestamp'' vm)
      | Some (secs, micros) \<Rightarrow>
          (let millis = secs * 1000 + uint (micros div 1000)
           in if \<not> zend_long_range millis
              then (IS_NULL, vm_throw UnsupportedOperationException
                      ''UUID timestamp cannot be represented as an integer on this PHP build'' vm)
              else (IS_LONG millis, vm)))"

definition Uuid_equals :: "('w, 'm, 's) build \<Rightarrow> 'w zend \<Rightarrow> nat \<Rightarrow> zval \<Rightarrow> 'w vm \<Rightarrow> zval \<times> 'w vm" where
  "Uuid_equals B Z this z vm =
     (case fu_resolve_uuid B Z z vm of
        (None, vm) \<Rightarrow> if vm_exception vm \<noteq> None then (IS_NULL, vm) else (IS_BOOL False, vm)
      | (Some b, vm) \<Rightarrow> (IS_BOOL (memcmp (obj_b (fu_from_zobj vm this)) b = 0), vm))"

definition Uuid_compareTo :: "('w, 'm, 's) build \<Rightarrow> 'w zend \<Rightarrow> nat \<Rightarrow> zval \<Rightarrow> 'w vm \<Rightarrow> zval \<times> 'w vm" where
  "Uuid_compareTo B Z this z vm =
     (case fu_resolve_uuid B Z z vm of
        (None, vm) \<Rightarrow>
          if vm_exception vm \<noteq> None then (IS_NULL, vm)
          else (IS_NULL, vm_throw InvalidArgumentException ''Not comparable'' vm)
      | (Some b, vm) \<Rightarrow>
          (let r = memcmp (obj_b (fu_from_zobj vm this)) b
           in (IS_LONG (if r < 0 then - 1 else if r > 0 then 1 else 0), vm)))"

definition Uuid_jsonSerialize :: "fu_simd \<Rightarrow> nat \<Rightarrow> 'w vm \<Rightarrow> zval \<times> 'w vm" where
  "Uuid_jsonSerialize h this vm = (case fu_str h this vm of (str, vm) \<Rightarrow> (IS_STRING str, vm))"

definition Uuid_serialize :: "nat \<Rightarrow> 'w vm \<Rightarrow> zval \<times> 'w vm" where
  "Uuid_serialize this vm = (IS_ARRAY [(Index 0, IS_STRING (obj_b (fu_from_zobj vm this)))], vm)"

text \<open>The argument is an array, given by its entries.\<close>

definition Uuid_unserialize :: "nat \<Rightarrow> (array_key \<times> zval) list \<Rightarrow> 'w vm \<Rightarrow> zval \<times> 'w vm" where
  "Uuid_unserialize this data vm =
     (case map_of data (Index 0) of
        Some (IS_STRING zb) \<Rightarrow>
          if length zb \<noteq> 16
          then (IS_NULL, vm_throw InvalidArgumentException ''Invalid serialized UUID payload'' vm)
          else (IS_NULL, set_obj this ((fu_from_zobj vm this)\<lparr>obj_str := None, obj_b := zb\<rparr>) vm)
      | _ \<Rightarrow> (IS_NULL, vm_throw InvalidArgumentException ''Invalid serialized UUID payload'' vm))"

definition Uuid_set_state :: "('w, 'm, 's) build \<Rightarrow> (array_key \<times> zval) list \<Rightarrow> 'w vm \<Rightarrow> zval \<times> 'w vm" where
  "Uuid_set_state B data vm =
     (case (case map_of data (Key (lit ''uuid'')) of
              Some (IS_STRING zs) \<Rightarrow> fu_parse (strncase B) zs
            | _ \<Rightarrow> None) of
        None \<Rightarrow> (IS_NULL, vm_throw InvalidArgumentException
                   (''Invalid __set_state payload; expected ['' @ CHR 0x27 # ''uuid'' @ CHR 0x27 # '' => <uuid string>]'') vm)
      | Some b \<Rightarrow> fu_return_uuid b vm)"

definition Uuid_construct :: "'w vm \<Rightarrow> zval \<times> 'w vm" where
  "Uuid_construct vm = (IS_NULL, vm_throw InvalidArgumentException (''Use FastUuid'' @ CHR 0x5C # ''Uuid::uuid* / from* factories'') vm)"

subsection \<open>The invariant of the store\<close>

text \<open>Every instance has 16 bytes and its text cache, when filled, holds the canonical text of exactly
  those bytes; and the handle the store gives next is free.\<close>

definition uuid_ok :: "fu_simd \<Rightarrow> fu_obj \<Rightarrow> bool" where
  "uuid_ok h u \<longleftrightarrow> length (obj_b u) = 16 \<and> (obj_str u = None \<or> obj_str u = Some (fu_format36 h (obj_b u)))"

definition vm_inv :: "fu_simd \<Rightarrow> 'w vm \<Rightarrow> bool" where
  "vm_inv h vm \<longleftrightarrow> fu_inv (core vm) \<and> (\<forall>o1 u. objects vm o1 = Some (Uuid u) \<longrightarrow> uuid_ok h u) \<and>
     store_ok vm"

definition is_uuid :: "'w vm \<Rightarrow> nat \<Rightarrow> bool" where
  "is_uuid vm o1 \<longleftrightarrow> (\<exists>u. objects vm o1 = Some (Uuid u))"

abbreviation bytes_of :: "'w vm \<Rightarrow> nat \<Rightarrow> byte list" where
  "bytes_of vm o1 \<equiv> obj_b (fu_from_zobj vm o1)"

lemma native_object [simp]: "native vm (IS_OBJECT o1) = (if is_uuid vm o1 then Some (fu_from_zobj vm o1) else None)"
  by (auto simp: native_def fu_from_zobj_def is_uuid_def split: option.splits zobj.splits)

lemma native_SomeD: "native vm z = Some u \<Longrightarrow> \<exists>o1. z = IS_OBJECT o1 \<and> objects vm o1 = Some (Uuid u)"
  by (auto simp: native_def split: zval.splits option.splits zobj.splits)

lemma is_uuid_object: "is_uuid vm o1 \<Longrightarrow> objects vm o1 = Some (Uuid (fu_from_zobj vm o1))"
  by (auto simp: is_uuid_def fu_from_zobj_def)

lemma set_obj_simps [simp]:
  "objects (set_obj o1 u vm) = (objects vm)(o1 \<mapsto> Uuid u)" "core (set_obj o1 u vm) = core vm"
  "puts (set_obj o1 u vm) = puts vm" "store_put (set_obj o1 u vm) = store_put vm"
  "fu_from_zobj (set_obj o1 u vm) o2 = (if o2 = o1 then u else fu_from_zobj vm o2)"
  "is_uuid (set_obj o1 u vm) o2 \<longleftrightarrow> o2 = o1 \<or> is_uuid vm o2"
  by (auto simp: set_obj_def fu_from_zobj_def is_uuid_def)

lemma set_obj_twice [simp]: "set_obj o1 u (set_obj o1 v vm) = set_obj o1 u vm"
  by (simp add: set_obj_def)

lemma vm_throw_simps [simp]:
  "objects (vm_throw ce msg vm) = objects vm" "next_object (vm_throw ce msg vm) = next_object vm"
  "puts (vm_throw ce msg vm) = puts vm" "store_put (vm_throw ce msg vm) = store_put vm"
  "core (vm_throw ce msg vm) = zend_throw ce msg (core vm)" "fu_from_zobj (vm_throw ce msg vm) o1 = fu_from_zobj vm o1"
  by (simp_all add: vm_throw_def fu_from_zobj_def next_object_def)

lemma store_ok_simps [simp]:
  "store_ok (vm_throw ce msg vm) \<longleftrightarrow> store_ok vm" "store_ok (vm\<lparr>core := s\<rparr>) \<longleftrightarrow> store_ok vm"
  "store_ok (vm\<lparr>puts := n\<rparr>) \<longleftrightarrow> store_ok vm" "store_ok (set_obj o1 u vm) \<longleftrightarrow> store_ok vm"
  by (simp_all add: store_ok_def)

lemma vm_inv_store: "vm_inv h vm \<Longrightarrow> store_ok vm"
  by (simp add: vm_inv_def)

lemma vm_inv_core: "vm_inv h vm \<Longrightarrow> fu_inv (core vm)"
  by (simp add: vm_inv_def)

lemma vm_inv_uuid: "vm_inv h vm \<Longrightarrow> is_uuid vm o1 \<Longrightarrow> uuid_ok h (fu_from_zobj vm o1)"
  using is_uuid_object [of vm o1] by (auto simp: vm_inv_def)

lemma vm_inv_from_zobj: "vm_inv h vm \<Longrightarrow> uuid_ok h (fu_from_zobj vm o1)"
proof (cases "is_uuid vm o1")
  case False
  then have "fu_from_zobj vm o1 = \<lparr>obj_b = replicate 16 0, obj_str = None\<rparr>"
    by (auto simp: fu_from_zobj_def is_uuid_def split: option.splits zobj.splits)
  then show ?thesis by (simp add: uuid_ok_def)
qed (rule vm_inv_uuid)

lemma vm_inv_bytes [simp]: "vm_inv h vm \<Longrightarrow> length (bytes_of vm o1) = 16"
  using vm_inv_from_zobj by (auto simp: uuid_ok_def)

lemma vm_inv_set_obj:
  "vm_inv h vm \<Longrightarrow> uuid_ok h u \<Longrightarrow> vm_inv h (set_obj o1 u vm)"
  by (auto simp: vm_inv_def)

lemma vm_inv_throw [simp]: "vm_inv h (vm_throw ce msg vm) \<longleftrightarrow> vm_inv h vm"
  by (simp add: vm_inv_def fu_inv_def zend_throw_def)

lemma vm_inv_fresh: "vm_inv h vm \<Longrightarrow> \<not> is_uuid vm (next_object vm)"
  by (simp add: vm_inv_def is_uuid_def)

lemma vm_inv_handle: "vm_inv h vm \<Longrightarrow> is_uuid vm o1 \<Longrightarrow> o1 \<noteq> next_object vm"
  using vm_inv_fresh by blast

lemma vm_inv_core_update: "vm_inv h vm \<Longrightarrow> fu_inv s \<Longrightarrow> vm_inv h (vm\<lparr>core := s\<rparr>)"
  by (simp add: vm_inv_def)

subsection \<open>The handlers keep it\<close>

lemma fu_create_eq:
  "fu_create vm = (next_object vm, set_obj (next_object vm) \<lparr>obj_b = replicate 16 0, obj_str = None\<rparr>
     (vm\<lparr>puts := Suc (puts vm)\<rparr>))"
  by (simp add: fu_create_def Let_def)

lemma vm_inv_next: "vm_inv h vm \<Longrightarrow> vm_inv h (vm\<lparr>puts := Suc (puts vm)\<rparr>)"
  by (simp add: vm_inv_def)

lemma vm_inv_new:
  "vm_inv h vm \<Longrightarrow> uuid_ok h u \<Longrightarrow> vm_inv h (set_obj (next_object vm) u (vm\<lparr>puts := Suc (puts vm)\<rparr>))"
  by (rule vm_inv_set_obj [OF vm_inv_next])

lemma fu_return_uuid_eq:
  "vm_exception vm = None \<Longrightarrow> fu_return_uuid b vm =
     (IS_OBJECT (next_object vm), set_obj (next_object vm) \<lparr>obj_b = b, obj_str = None\<rparr>
        (vm\<lparr>puts := Suc (puts vm)\<rparr>))"
  by (simp add: fu_return_uuid_def fu_create_eq)

lemma fu_clone_eq:
  "fu_clone o1 vm = (next_object vm, set_obj (next_object vm) \<lparr>obj_b = bytes_of vm o1, obj_str = None\<rparr>
     (vm\<lparr>puts := Suc (puts vm)\<rparr>))"
  by (simp add: fu_clone_def fu_create_eq)

lemma uuid_ok_new [simp]: "uuid_ok h \<lparr>obj_b = b, obj_str = None\<rparr> \<longleftrightarrow> length b = 16"
  by (simp add: uuid_ok_def)

lemma fu_return_uuid_inv: "vm_inv h vm \<Longrightarrow> length b = 16 \<Longrightarrow> vm_inv h (snd (fu_return_uuid b vm))"
  by (cases "vm_exception vm") (simp add: fu_return_uuid_eq vm_inv_new, simp add: fu_return_uuid_def)

lemma fu_clone_inv: "vm_inv h vm \<Longrightarrow> vm_inv h (snd (fu_clone o1 vm))"
  by (simp add: fu_clone_eq vm_inv_new)

lemma fu_free_inv: "vm_inv h vm \<Longrightarrow> vm_inv h (fu_free o1 vm)"
  by (simp add: fu_free_def vm_inv_def store_ok_def)

text \<open>\<open>fu_str\<close> returns the canonical text of the current bytes and changes nothing but the cache.\<close>

lemma fu_str_cases:
  assumes "vm_inv h vm" and "is_uuid vm o1"
  obtains vm' where "fu_str h o1 vm = (fu_format36 h (bytes_of vm o1), vm')" "vm_inv h vm'" "core vm' = core vm"
    "store_ok vm'" "\<And>o2. bytes_of vm' o2 = bytes_of vm o2" "\<And>o2. is_uuid vm' o2 \<longleftrightarrow> is_uuid vm o2"
    "\<And>o2. o2 \<noteq> o1 \<Longrightarrow> objects vm' o2 = objects vm o2"
proof (cases "obj_str (fu_from_zobj vm o1)")
  case None
  show thesis
  proof (rule that)
    show "fu_str h o1 vm = (fu_format36 h (bytes_of vm o1),
        set_obj o1 ((fu_from_zobj vm o1)\<lparr>obj_str := Some (fu_format36 h (bytes_of vm o1))\<rparr>) vm)"
      by (simp add: fu_str_def Let_def None)
    show "vm_inv h (set_obj o1 ((fu_from_zobj vm o1)\<lparr>obj_str := Some (fu_format36 h (bytes_of vm o1))\<rparr>) vm)"
      using vm_inv_set_obj [OF assms(1)] assms(1) by (simp add: uuid_ok_def)
  qed (use assms(2) vm_inv_store [OF assms(1)] in auto)
next
  case (Some str)
  then have "str = fu_format36 h (bytes_of vm o1)" using vm_inv_uuid [OF assms] by (simp add: uuid_ok_def)
  with Some show thesis by (intro that [of vm]) (simp_all add: fu_str_def assms(1) vm_inv_store [OF assms(1)])
qed

subsection \<open>Order and equality\<close>

lemma native_bytes: "vm_inv h vm \<Longrightarrow> native vm z = Some u \<Longrightarrow> length (obj_b u) = 16"
  by (auto dest!: native_SomeD simp: vm_inv_def uuid_ok_def)

lemma sgn_memcmp:
  "length x = length y \<Longrightarrow> (if memcmp x y < 0 then - 1 else if 0 < memcmp x y then 1 else 0) = sgn (int (be_nat x) - int (be_nat y))"
  by (simp add: memcmp_be_nat)

text \<open>C18: comparing two instances is the total order of the 128-bit numbers they denote, the same order
  as that of their canonical texts, and \<open>compareTo\<close> and \<open>equals\<close> agree with the comparison operator; a
  comparison with anything that is not an instance is uncomparable.\<close>

theorem fu_compare_order:
  assumes "vm_inv h vm" and "is_uuid vm this" and "is_uuid vm other"
  shows "fu_compare vm (IS_OBJECT this) (IS_OBJECT other)
      = Some (sgn (int (be_nat (bytes_of vm this)) - int (be_nat (bytes_of vm other)))) \<and>
    sgn (memcmp (fu_format36 h (bytes_of vm this)) (fu_format36 h (bytes_of vm other)))
      = sgn (int (be_nat (bytes_of vm this)) - int (be_nat (bytes_of vm other))) \<and>
    Uuid_compareTo B Z this (IS_OBJECT other) vm
      = (IS_LONG (sgn (int (be_nat (bytes_of vm this)) - int (be_nat (bytes_of vm other)))), vm) \<and>
    Uuid_equals B Z this (IS_OBJECT other) vm = (IS_BOOL (bytes_of vm this = bytes_of vm other), vm) \<and>
    (native vm z = None \<longrightarrow> fu_compare vm (IS_OBJECT this) z = None \<and> fu_compare vm z (IS_OBJECT this) = None)"
proof -
  have r: "fu_resolve_uuid B Z (IS_OBJECT other) vm = (Some (bytes_of vm other), vm)"
    using is_uuid_object [OF assms(3)] by (simp add: fu_resolve_uuid_def)
  have len: "length (bytes_of vm this) = length (bytes_of vm other)" using assms(1) by simp
  have "sgn (memcmp x y) = (if memcmp x y < 0 then - 1 else if 0 < memcmp x y then 1 else 0)" for x y
    by (simp add: sgn_if)
  then show ?thesis
    using assms len by (simp add: fu_compare_def Let_def Uuid_compareTo_def Uuid_equals_def r sgn_memcmp
        fu_format36_memcmp memcmp_eq_0_iff split: option.splits)
qed

subsection \<open>Copies and round trips\<close>

text \<open>C17: \<open>__unserialize\<close> of what \<open>__serialize\<close> gave restores the bytes into any instance, also one that was
  used before: its text is that of the new bytes, not a stale cache, and no other object changes.  Any
  other payload throws and changes no object.\<close>

theorem Uuid_serialize_roundtrip:
  assumes "vm_inv h vm" and "is_uuid vm this" and "is_uuid vm other"
  shows "(\<exists>data vm'. Uuid_serialize this vm = (IS_ARRAY data, vm) \<and> Uuid_unserialize other data vm = (IS_NULL, vm') \<and>
      vm_inv h vm' \<and> core vm' = core vm \<and> bytes_of vm' other = bytes_of vm this \<and>
      fst (Uuid_toString h other vm') = IS_STRING (fu_format36 h (bytes_of vm this)) \<and>
      (\<forall>o2. o2 \<noteq> other \<longrightarrow> objects vm' o2 = objects vm o2)) \<and>
    ((\<nexists>b. map_of payload (Index 0) = Some (IS_STRING b) \<and> length b = 16) \<longrightarrow>
      Uuid_unserialize other payload vm
        = (IS_NULL, vm_throw InvalidArgumentException ''Invalid serialized UUID payload'' vm))"
proof
  let ?u = "\<lparr>obj_b = bytes_of vm this, obj_str = None\<rparr>"
  let ?vm = "set_obj other ?u vm"
  have e: "(fu_from_zobj vm other)\<lparr>obj_str := None, obj_b := bytes_of vm this\<rparr> = ?u"
    by (cases "fu_from_zobj vm other") simp
  have inv: "vm_inv h ?vm" using vm_inv_set_obj [OF assms(1)] assms(1) by simp
  have shown: "fst (Uuid_toString h other ?vm) = IS_STRING (fu_format36 h (bytes_of vm this))"
    by (simp add: Uuid_toString_def fu_str_def Let_def)
  have "Uuid_unserialize other [(Index 0, IS_STRING (bytes_of vm this))] vm = (IS_NULL, ?vm)"
    using assms(1) by (simp add: Uuid_unserialize_def e)
  with inv shown show "\<exists>data vm'. Uuid_serialize this vm = (IS_ARRAY data, vm) \<and> Uuid_unserialize other data vm = (IS_NULL, vm') \<and>
      vm_inv h vm' \<and> core vm' = core vm \<and> bytes_of vm' other = bytes_of vm this \<and>
      fst (Uuid_toString h other vm') = IS_STRING (fu_format36 h (bytes_of vm this)) \<and>
      (\<forall>o2. o2 \<noteq> other \<longrightarrow> objects vm' o2 = objects vm o2)"
    by (intro exI [of _ "[(Index 0, IS_STRING (bytes_of vm this))]"] exI [of _ ?vm]) (simp add: Uuid_serialize_def)
qed (auto simp: Uuid_unserialize_def split: option.splits zval.splits)

text \<open>\<open>__set_state\<close> of what \<open>var_export\<close> shows makes a new instance with the same bytes.\<close>

theorem Uuid_set_state_roundtrip:
  assumes "vm_inv h vm" and "is_uuid vm this" and "vm_exception vm = None"
  shows "\<exists>data vm1 o2 vm2. fu_get_properties_for h std this Purpose_var_export vm = (IS_ARRAY data, vm1) \<and>
    Uuid_set_state B data vm1 = (IS_OBJECT o2, vm2) \<and> vm_inv h vm2 \<and> \<not> is_uuid vm o2 \<and> is_uuid vm2 o2 \<and>
    bytes_of vm2 o2 = bytes_of vm this \<and> bytes_of vm2 this = bytes_of vm this"
proof (rule fu_str_cases [OF assms(1,2)])
  fix vm1 assume s: "fu_str h this vm = (fu_format36 h (bytes_of vm this), vm1)" "vm_inv h vm1" "core vm1 = core vm"
    "\<And>o2. bytes_of vm1 o2 = bytes_of vm o2" "\<And>o2. is_uuid vm1 o2 \<longleftrightarrow> is_uuid vm o2"
  let ?data = "[(Key (lit ''uuid''), IS_STRING (fu_format36 h (bytes_of vm this)))]"
  let ?vm2 = "set_obj (next_object vm1) \<lparr>obj_b = bytes_of vm this, obj_str = None\<rparr> (vm1\<lparr>puts := Suc (puts vm1)\<rparr>)"
  have new: "\<not> is_uuid vm (next_object vm1)" using vm_inv_fresh [OF s(2)] s(5) by simp
  then have "this \<noteq> next_object vm1" using assms(2) by blast
  moreover have "Uuid_set_state B ?data vm1 = (IS_OBJECT (next_object vm1), ?vm2)"
    using assms(1,3) s(3) by (simp add: Uuid_set_state_def fu_return_uuid_eq)
  moreover have "vm_inv h ?vm2" using vm_inv_new [OF s(2), of "\<lparr>obj_b = bytes_of vm this, obj_str = None\<rparr>"] assms(1) by simp
  ultimately show ?thesis
    using s new
    by (intro exI [of _ ?data] exI [of _ vm1] exI [of _ "next_object vm1"] exI [of _ ?vm2])
       (simp add: fu_get_properties_for_def, simp add: fu_from_zobj_def)
qed

text \<open>A clone is a new instance with the same bytes, and from then on the two are independent:
  overwriting either through \<open>__unserialize\<close> leaves the bytes and the text of the other.\<close>

theorem fu_clone_independent:
  assumes "vm_inv h vm" and "is_uuid vm o1" and "fu_clone o1 vm = (o2, vm1)"
  shows "vm_inv h vm1 \<and> \<not> is_uuid vm o2 \<and> is_uuid vm1 o2 \<and> bytes_of vm1 o2 = bytes_of vm o1 \<and>
    objects vm1 o1 = objects vm o1 \<and>
    bytes_of (snd (Uuid_unserialize o2 payload vm1)) o1 = bytes_of vm o1 \<and>
    fst (Uuid_toString h o1 (snd (Uuid_unserialize o2 payload vm1))) = fst (Uuid_toString h o1 vm) \<and>
    bytes_of (snd (Uuid_unserialize o1 payload vm1)) o2 = bytes_of vm o1"
proof -
  have c: "o2 = next_object vm" "vm1 = set_obj o2 \<lparr>obj_b = bytes_of vm o1, obj_str = None\<rparr>
      (vm\<lparr>puts := Suc (puts vm)\<rparr>)"
    using assms(3) by (auto simp: fu_clone_eq)
  have ne: "o1 \<noteq> o2" using vm_inv_handle [OF assms(1,2)] c(1) by simp
  have keep: "fu_from_zobj (snd (Uuid_unserialize p payload vm1)) q = fu_from_zobj vm1 q" if "p \<noteq> q" for p q
    using that by (auto simp: Uuid_unserialize_def split: option.splits zval.splits)
  have z: "fu_from_zobj vm1 o1 = fu_from_zobj vm o1" "fu_from_zobj vm1 o2 = \<lparr>obj_b = bytes_of vm o1, obj_str = None\<rparr>"
    using ne unfolding c(2) by (simp_all add: fu_from_zobj_def)
  have t: "fst (Uuid_toString h o1 v) = fst (Uuid_toString h o1 w)" if "fu_from_zobj v o1 = fu_from_zobj w o1" for v w
    using that by (simp add: Uuid_toString_def fu_str_def Let_def split: option.splits)
  have "vm_inv h vm1" using fu_clone_inv [OF assms(1), of o1] assms(3) by simp
  moreover have "objects vm1 o1 = objects vm o1" "is_uuid vm1 o2" using ne unfolding c(2) by simp_all
  ultimately show ?thesis
    using vm_inv_fresh [OF assms(1)] c(1) keep [OF ne] keep [OF ne [symmetric]] z t by simp
qed

subsection \<open>Resolving an argument\<close>

text \<open>Userland can reach the extension through its interface only, so a call into it keeps the
  invariant.\<close>

definition zend_ok :: "fu_simd \<Rightarrow> 'w zend \<Rightarrow> bool" where
  "zend_ok h Z \<longleftrightarrow>
     (\<forall>fn o1 vm. vm_inv h vm \<longrightarrow> vm_inv h (snd (call_method Z fn o1 vm))) \<and>
     (\<forall>o1 vm. vm_inv h vm \<longrightarrow> vm_inv h (snd (get_string Z o1 vm)))"

lemma zend_okD:
  "zend_ok h Z \<Longrightarrow> vm_inv h vm \<Longrightarrow> call_method Z fn o1 vm = (ret, vm1) \<Longrightarrow> vm_inv h vm1"
  "zend_ok h Z \<Longrightarrow> vm_inv h vm \<Longrightarrow> get_string Z o1 vm = (str, vm1) \<Longrightarrow> vm_inv h vm1"
  unfolding zend_ok_def by (metis snd_conv)+

lemma resolve_stringable_props:
  assumes "vm_inv h vm" and "zend_ok h Z" and "resolve_stringable B Z ce o1 vm = (r, vm')"
    and "vm_exception vm = None"
  shows "vm_inv h vm' \<and> (\<forall>b. r = Some b \<longrightarrow> length b = 16 \<and> vm_exception vm' = None)"
  using assms by (auto simp: resolve_stringable_def dest: zend_okD(2) fu_parse_length split: if_splits prod.splits)

lemma fu_resolve_uuid_props:
  assumes "vm_inv h vm" and "zend_ok h Z" and "vm_exception vm = None" and "fu_resolve_uuid B Z z vm = (r, vm')"
  shows "vm_inv h vm' \<and> (\<forall>b. r = Some b \<longrightarrow> length b = 16 \<and> vm_exception vm' = None)"
proof -
  have obj: ?thesis if z: "z = IS_OBJECT o1" and ce: "objects vm o1 = Some (Other ce)"
    and fn: "fu_find_zero_arg_method Z ce (lit ''getcore'') (MAY_BE_OBJECT Z) (Some (fast_uuid_ce Z)) = Some fn" for o1 ce fn
  proof -
    obtain ret vm1 where c: "call_method Z fn o1 vm = (ret, vm1)" by (cases "call_method Z fn o1 vm")
    note i = zend_okD(1) [OF assms(2,1) c]
    show ?thesis
    proof (cases "native vm1 ret")
      case None
      show ?thesis
      proof (cases "vm_exception vm1")
        case n: None
        with None have "resolve_stringable B Z ce o1 vm1 = (r, vm')"
          using assms(4) by (simp add: fu_resolve_uuid_def z ce fn c)
        from resolve_stringable_props [OF i assms(2) this n] show ?thesis .
      qed (use None i assms(4) in \<open>simp add: fu_resolve_uuid_def z ce fn c\<close>)
    next
      case (Some u)
      with i assms(4) native_bytes [OF i Some] show ?thesis
        by (auto simp: fu_resolve_uuid_def z ce fn c split: if_splits)
    qed
  qed
  show ?thesis
  proof (cases z)
    case (IS_OBJECT o1)
    show ?thesis
    proof (cases "objects vm o1")
      case (Some zo)
      show ?thesis
      proof (cases zo)
        case (Other ce)
        show ?thesis
        proof (cases "fu_find_zero_arg_method Z ce (lit ''getcore'') (MAY_BE_OBJECT Z) (Some (fast_uuid_ce Z))")
          case None
          then have "resolve_stringable B Z ce o1 vm = (r, vm')"
            using assms(4) by (simp add: fu_resolve_uuid_def IS_OBJECT Some Other)
          from resolve_stringable_props [OF assms(1,2) this assms(3)] show ?thesis .
        qed (use obj IS_OBJECT Some Other in simp)
      qed (use assms IS_OBJECT Some in \<open>auto simp: fu_resolve_uuid_def vm_inv_def uuid_ok_def\<close>)
    qed (use assms IS_OBJECT in \<open>auto simp: fu_resolve_uuid_def\<close>)
  qed (use assms in \<open>auto simp: fu_resolve_uuid_def fu_parse_length\<close>)
qed

text \<open>\<open>getCore\<close> gave no instance and threw nothing (or there is no such method), and left the machine in \<open>vm1\<close>: the
  only way to the object's text.\<close>

definition no_core :: "'w zend \<Rightarrow> nat \<Rightarrow> class_entry \<Rightarrow> 'w vm \<Rightarrow> 'w vm \<Rightarrow> bool" where
  "no_core Z o1 ce vm vm1 \<longleftrightarrow>
     (case fu_find_zero_arg_method Z ce (lit ''getcore'') (MAY_BE_OBJECT Z) (Some (fast_uuid_ce Z)) of
        None \<Rightarrow> vm1 = vm
      | Some fn \<Rightarrow> \<exists>ret. call_method Z fn o1 vm = (ret, vm1) \<and> vm_exception vm1 = None \<and> native vm1 ret = None)"

text \<open>C16: resolving an argument keeps the invariant and yields 16 bytes with nothing thrown, or nothing; an
  instance resolves to its own bytes; a string is parsed; a wrapper whose \<open>getCore\<close> returns an instance resolves to that
  instance's bytes, whatever its text says; any other object resolves to what its text parses to if it is
  Stringable, and to nothing if not; and nothing else resolves.  An exception thrown by either of the two calls into
  userland, \<open>getCore\<close> and \<open>__toString\<close>, is never swallowed: the outcome is nothing and the machine is as the call left it,
  with that exception pending.\<close>

theorem fu_resolve_uuid_result:
  assumes "vm_inv h vm" and "zend_ok h Z" and "vm_exception vm = None" and "fu_resolve_uuid B Z z vm = (r, vm')"
  shows "vm_inv h vm' \<and> (\<forall>b. r = Some b \<longrightarrow> length b = 16 \<and> vm_exception vm' = None) \<and>
    (\<forall>u. native vm z = Some u \<longrightarrow> r = Some (obj_b u) \<and> vm' = vm) \<and>
    (\<forall>str. z = IS_STRING str \<longrightarrow> r = fu_parse (strncase B) str \<and> vm' = vm) \<and>
    (\<forall>o1 ce fn ret vm1. z = IS_OBJECT o1 \<and> objects vm o1 = Some (Other ce) \<and>
       fu_find_zero_arg_method Z ce (lit ''getcore'') (MAY_BE_OBJECT Z) (Some (fast_uuid_ce Z)) = Some fn \<and>
       call_method Z fn o1 vm = (ret, vm1) \<longrightarrow>
       (if vm_exception vm1 \<noteq> None then r = None \<and> vm' = vm1
        else native vm1 ret \<noteq> None \<longrightarrow> r = Some (obj_b (the (native vm1 ret))) \<and> vm' = vm1)) \<and>
    (\<forall>o1 ce vm1 str vm2. z = IS_OBJECT o1 \<and> objects vm o1 = Some (Other ce) \<and> no_core Z o1 ce vm vm1 \<and>
       get_string Z o1 vm1 = (str, vm2) \<longrightarrow>
       (if \<not> instanceof_function Z ce (stringable_ce Z) then r = None \<and> vm' = vm1
        else if vm_exception vm2 \<noteq> None then r = None \<and> vm' = vm2
        else r = fu_parse (strncase B) str \<and> vm' = vm2)) \<and>
    ((\<nexists>o1. z = IS_OBJECT o1) \<and> (\<nexists>str. z = IS_STRING str) \<longrightarrow> r = None \<and> vm' = vm)"
proof (intro conjI allI impI)
  show "vm_inv h vm'" "\<And>b. r = Some b \<Longrightarrow> length b = 16" "\<And>b. r = Some b \<Longrightarrow> vm_exception vm' = None"
    using fu_resolve_uuid_props [OF assms] by blast+
  show "r = Some (obj_b u)" "vm' = vm" if "native vm z = Some u" for u
    using native_SomeD [OF that] assms(4) by (auto simp: fu_resolve_uuid_def)
  show "r = fu_parse (strncase B) str" "vm' = vm" if "z = IS_STRING str" for str
    using that assms(4) by (auto simp: fu_resolve_uuid_def)
  fix o1 ce vm1 str vm2
  assume a: "z = IS_OBJECT o1 \<and> objects vm o1 = Some (Other ce) \<and> no_core Z o1 ce vm vm1 \<and> get_string Z o1 vm1 = (str, vm2)"
  then have "fu_resolve_uuid B Z z vm = resolve_stringable B Z ce o1 vm1"
    using assms(3) by (auto simp: fu_resolve_uuid_def no_core_def split: option.splits)
  then show "if \<not> instanceof_function Z ce (stringable_ce Z) then r = None \<and> vm' = vm1
      else if vm_exception vm2 \<noteq> None then r = None \<and> vm' = vm2 else r = fu_parse (strncase B) str \<and> vm' = vm2"
    using a assms(4) by (auto simp: resolve_stringable_def split: if_splits)
qed (use assms(4) in \<open>auto simp: fu_resolve_uuid_def split: option.splits zval.splits\<close>)

subsection \<open>Declared return types\<close>

text \<open>The class a name in a declaration denotes.\<close>

definition named_class :: "'w zend \<Rightarrow> bool \<Rightarrow> byte list \<Rightarrow> class_entry option \<Rightarrow> class_entry option" where
  "named_class Z owned n scope =
     (if owned \<and> (n = lit ''self'' \<or> n = lit ''static'') then scope
      else if owned \<and> n = lit ''parent'' then Option.bind scope (class_parent Z)
      else lookup_class Z n)"

text \<open>Whether a value of class \<open>ce\<close> satisfies a declared type: the language's rule.\<close>

fun type_admits :: "'w zend \<Rightarrow> class_entry \<Rightarrow> class_entry option \<Rightarrow> zend_type \<Rightarrow> bool" where
  "type_admits Z ce scope (Zend_type m No_class) \<longleftrightarrow> m AND MAY_BE_OBJECT Z \<noteq> 0"
| "type_admits Z ce scope (Zend_type m (Named n)) \<longleftrightarrow> m AND MAY_BE_OBJECT Z \<noteq> 0 \<or>
     (\<exists>c \<in> set_option (named_class Z True n scope). instanceof_function Z ce c)"
| "type_admits Z ce scope (Zend_type m (Literal_name n)) \<longleftrightarrow> m AND MAY_BE_OBJECT Z \<noteq> 0 \<or>
     (\<exists>c \<in> set_option (named_class Z False n scope). instanceof_function Z ce c)"
| "type_admits Z ce scope (Zend_type m (Type_list intersection parts)) \<longleftrightarrow> m AND MAY_BE_OBJECT Z \<noteq> 0 \<or>
     (if intersection then \<forall>t \<in> set parts. type_admits Z ce scope t else \<exists>t \<in> set parts. type_admits Z ce scope t)"

text \<open>What the engine guarantees of a final class: it is an instance of itself, nothing else is an
  instance of it, and a name that matches its own denotes it.\<close>

definition final_class :: "'w zend \<Rightarrow> class_entry \<Rightarrow> bool" where
  "final_class Z req \<longleftrightarrow> instanceof_function Z req req \<and> (\<forall>c. instanceof_function Z c req \<longrightarrow> c = req) \<and>
     (\<forall>owned n scope. length n = length (class_name Z req) \<and> strcasecmp Z n (class_name Z req) = 0 \<longrightarrow>
        named_class Z owned n scope = Some req)"

lemma fu_name_may_return_eq:
  "fu_name_may_return Z owned n scope (Some req) =
     (if length n = length (class_name Z req) \<and> strcasecmp Z n (class_name Z req) = 0 then True
      else (case named_class Z owned n scope of
              None \<Rightarrow> False
            | Some c \<Rightarrow> instanceof_function Z req c \<or> instanceof_function Z c req))"
proof -
  have e: "(case scope of None \<Rightarrow> None | Some c \<Rightarrow> class_parent Z c) = Option.bind scope (class_parent Z)"
    by (cases scope) simp_all
  show ?thesis unfolding fu_name_may_return_def named_class_def Let_def e option.case by (rule refl)
qed

lemma fu_name_may_return_iff:
  assumes "final_class Z req"
  shows "fu_name_may_return Z owned n scope (Some req) \<longleftrightarrow>
    (\<exists>c \<in> set_option (named_class Z owned n scope). instanceof_function Z req c)"
proof (cases "length n = length (class_name Z req) \<and> strcasecmp Z n (class_name Z req) = 0")
  case True
  then have "named_class Z owned n scope = Some req" "instanceof_function Z req req"
    using assms unfolding final_class_def by blast+
  with True show ?thesis by (simp add: fu_name_may_return_def)
next
  case False
  have "instanceof_function Z c req \<Longrightarrow> instanceof_function Z req c" for c
    using assms by (auto simp: final_class_def)
  then show ?thesis
    unfolding fu_name_may_return_eq if_not_P [OF False] by (auto split: option.splits)
qed

lemma may_return_iff:
  assumes "final_class Z req"
  shows "fu_type_may_return Z t scope (MAY_BE_OBJECT Z) (Some req) \<longleftrightarrow> type_admits Z req scope t"
    and "fu_type_parts Z intersection parts scope (MAY_BE_OBJECT Z) (Some req) \<longleftrightarrow>
      (if intersection then \<forall>t \<in> set parts. type_admits Z req scope t else \<exists>t \<in> set parts. type_admits Z req scope t)"
proof -
  have "final_class Z req \<Longrightarrow> allowed = MAY_BE_OBJECT Z \<Longrightarrow> required = Some req \<Longrightarrow>
      fu_type_may_return Z t scope allowed required \<longleftrightarrow> type_admits Z req scope t"
    and "final_class Z req \<Longrightarrow> allowed = MAY_BE_OBJECT Z \<Longrightarrow> required = Some req \<Longrightarrow>
      fu_type_parts Z intersection parts scope allowed required \<longleftrightarrow>
      (if intersection then \<forall>t \<in> set parts. type_admits Z req scope t else \<exists>t \<in> set parts. type_admits Z req scope t)"
    for allowed required
  proof (induction Z t scope allowed required and Z intersection parts scope allowed required
      rule: fu_type_may_return_fu_type_parts.induct)
    case (1 Z pure_mask rest scope allowed required)
    then show ?case by (cases rest) (simp_all add: fu_name_may_return_iff)
  qed simp_all
  with assms show "fu_type_may_return Z t scope (MAY_BE_OBJECT Z) (Some req) \<longleftrightarrow> type_admits Z req scope t"
    "fu_type_parts Z intersection parts scope (MAY_BE_OBJECT Z) (Some req) \<longleftrightarrow>
      (if intersection then \<forall>t \<in> set parts. type_admits Z req scope t else \<exists>t \<in> set parts. type_admits Z req scope t)"
    by blast+
qed

text \<open>C31: for a required class that is final, the check of a method's declared type is exact: it says yes
  exactly when the declaration admits a value of that class, through unions, intersections, \<open>self\<close>,
  \<open>parent\<close> and names in any case.  A method declared to return something else is never called.\<close>

theorem fu_type_may_return_exact:
  assumes "final_class Z req"
  shows "(fu_type_may_return Z t scope (MAY_BE_OBJECT Z) (Some req) \<longleftrightarrow> type_admits Z req scope t) \<and>
    (fu_find_zero_arg_method Z ce name (MAY_BE_OBJECT Z) (Some req) = Some fn \<longrightarrow>
       function_table Z ce name = Some fn \<and> required_num_args fn = 0 \<and> fn_public fn \<and> \<not> fn_static fn \<and>
       (has_return_type fn \<longrightarrow> type_admits Z req (fn_scope fn) (return_type fn)))"
  using may_return_iff(1) [OF assms]
  by (auto simp: fu_find_zero_arg_method_def fu_method_may_return_def split: option.splits if_splits)

definition uuid_class_name :: "byte list" where
  "uuid_class_name = lit (''FastUuid'' @ CHR 0x5C # ''Uuid'')"

lemma uuid_class_name_facts:
  "length uuid_class_name = 13" "map ascii_lower (lit ''Stringable'') = lit ''stringable''"
  "lit ''stringable'' \<noteq> map ascii_lower uuid_class_name"
  by code_simp+

text \<open>A class table for the examples: the extension's class, \<open>Stringable\<close> and a wrapper class whose
  \<open>getCore\<close> returns the instance with handle 0.\<close>

definition sample_zend :: "nat zend" where
  "sample_zend =
     \<lparr>fast_uuid_ce = 0, stringable_ce = 1,
      class_name = (\<lambda>c. if c = 0 then uuid_class_name else if c = 1 then lit ''Stringable'' else lit ''Wrapper''),
      class_parent = (\<lambda>c. None), instanceof_function = (\<lambda>c d. c = d \<or> d = 1),
      lookup_class = (\<lambda>n. if map ascii_lower n = map ascii_lower uuid_class_name then Some 0
         else if map ascii_lower n = lit ''stringable'' then Some 1 else None),
      strcasecmp = (\<lambda>a b. if map ascii_lower a = map ascii_lower b then 0 else 1),
      function_table = (\<lambda>c n. if c = 2 \<and> n = lit ''getcore'' then Some
         \<lparr>fn_id = 0, required_num_args = 0, fn_public = True, fn_abstract = False, fn_static = False,
          has_return_type = True, return_type = Zend_type 2 (Named uuid_class_name), fn_scope = Some 2\<rparr>
         else None),
      MAY_BE_OBJECT = 256, call_method = (\<lambda>fn o1 vm. (IS_OBJECT 0, vm)), get_string = (\<lambda>o1 vm. ([], vm))\<rparr>"

lemma sample_final: "final_class sample_zend 0"
proof -
  have "n \<notin> {lit ''self'', lit ''static'', lit ''parent''}" if "length n = length uuid_class_name" for n
    using that by (auto simp: uuid_class_name_facts)
  then show ?thesis
    unfolding final_class_def named_class_def sample_zend_def by (auto split: if_splits)
qed

lemma sample_zend_ok: "zend_ok h sample_zend"
  by (simp add: zend_ok_def sample_zend_def)

theorem fu_type_may_return_exact_witness:
  "type_admits sample_zend 0 None (Zend_type 2 (Type_list False [Zend_type 4 No_class, Zend_type 0 (Literal_name (lit ''Stringable''))])) \<and>
   fu_type_may_return sample_zend (Zend_type 2 (Type_list False [Zend_type 4 No_class, Zend_type 0 (Literal_name (lit ''Stringable''))]))
     None (MAY_BE_OBJECT sample_zend) (Some 0)"
proof -
  have "type_admits sample_zend 0 None (Zend_type 2 (Type_list False [Zend_type 4 No_class, Zend_type 0 (Literal_name (lit ''Stringable''))]))"
    by (simp add: sample_zend_def named_class_def uuid_class_name_facts)
  with fu_type_may_return_exact [OF sample_final,
      of "Zend_type 2 (Type_list False [Zend_type 4 No_class, Zend_type 0 (Literal_name (lit ''Stringable''))])" None]
  show ?thesis by blast
qed

subsection \<open>Examples\<close>

text \<open>A store with one instance (handle 0, bytes 1 to 16) and one wrapper (handle 1), whose next handle is the least
  above all that live: a freed handle can come back.\<close>

definition sample_put :: "nat \<Rightarrow> (nat \<Rightarrow> zobj option) \<Rightarrow> nat" where
  "sample_put n obs = (if dom obs = {} then 0 else Suc (Max (dom obs)))"

lemma sample_put_free: "finite (dom obs) \<Longrightarrow> obs (sample_put n obs) = None"
proof (rule ccontr)
  assume "finite (dom obs)" and "obs (sample_put n obs) \<noteq> None"
  then have "sample_put n obs \<in> dom obs" by blast
  then have "dom obs \<noteq> {}" "sample_put n obs \<le> Max (dom obs)" using \<open>finite (dom obs)\<close> by auto
  then show False by (simp add: sample_put_def)
qed

definition sample_vm :: "nat vm" where
  "sample_vm =
     \<lparr>core = fu_boot 5,
      objects = [0 \<mapsto> Uuid \<lparr>obj_b = [1, 2, 3, 4, 5, 6, 7, 8, 9, 10, 11, 12, 13, 14, 15, 16], obj_str = None\<rparr>, 1 \<mapsto> Other 2],
      store_put = sample_put, puts = 2\<rparr>"

lemma sample_store: "store_ok sample_vm" "next_object sample_vm = 2"
  by (simp_all add: store_ok_def next_object_def sample_vm_def sample_put_free) (simp add: sample_put_def)

lemma sample_vm_inv: "vm_inv h sample_vm" "is_uuid sample_vm 0" "vm_exception sample_vm = None"
  using fu_inv_boot [of "5 :: nat"] sample_store(1)
  by (auto simp: vm_inv_def sample_vm_def uuid_ok_def is_uuid_def fu_boot_def globals.extend_def fu_ginit_def)

theorem fu_compare_order_witness:
  "fu_compare sample_vm (IS_OBJECT 0) (IS_OBJECT 0) = Some 0 \<and> fu_compare sample_vm (IS_OBJECT 0) (IS_LONG 5) = None"
  using fu_compare_order [OF sample_vm_inv(1,2,2), where z = "IS_LONG 5" and h = FU_NO_SIMD and B = sample_build and Z = sample_zend] by (simp add: native_def)

theorem Uuid_serialize_roundtrip_witness:
  "Uuid_unserialize 0 [(Index 0, IS_LONG 3)] sample_vm
     = (IS_NULL, vm_throw InvalidArgumentException ''Invalid serialized UUID payload'' sample_vm)"
  using Uuid_serialize_roundtrip [OF sample_vm_inv(1,2,2), where payload = "[(Index 0, IS_LONG 3)]"] by simp

theorem Uuid_set_state_roundtrip_witness:
  "\<exists>data vm1 o2 vm2. fu_get_properties_for FU_NO_SIMD (\<lambda>o1 p vm. (IS_NULL, vm)) 0 Purpose_var_export sample_vm = (IS_ARRAY data, vm1) \<and>
     Uuid_set_state sample_build data vm1 = (IS_OBJECT o2, vm2) \<and> bytes_of vm2 o2 = bytes_of sample_vm 0"
  using Uuid_set_state_roundtrip [OF sample_vm_inv, where std = "\<lambda>o1 p vm. (IS_NULL, vm)" and B = sample_build and h = FU_NO_SIMD] by blast

theorem fu_clone_independent_witness:
  "bytes_of (snd (Uuid_unserialize 2 [(Index 0, IS_STRING (replicate 16 7))] (snd (fu_clone 0 sample_vm)))) 0 = bytes_of sample_vm 0"
proof -
  have "fu_clone 0 sample_vm = (2, snd (fu_clone 0 sample_vm))" by (simp add: fu_clone_eq sample_store)
  from fu_clone_independent [OF sample_vm_inv(1,2) this] show ?thesis by blast
qed

theorem fu_resolve_uuid_result_witness:
  "fu_resolve_uuid sample_build sample_zend (IS_OBJECT 1) sample_vm
     = (Some [1, 2, 3, 4, 5, 6, 7, 8, 9, 10, 11, 12, 13, 14, 15, 16], sample_vm)"
proof -
  obtain r vm' where r: "fu_resolve_uuid sample_build sample_zend (IS_OBJECT 1) sample_vm = (r, vm')"
    by (cases "fu_resolve_uuid sample_build sample_zend (IS_OBJECT 1) sample_vm")
  have ob: "objects sample_vm 1 = Some (Other 2)" by (simp add: sample_vm_def)
  have "fu_name_may_return sample_zend True (uuid_class_name) (Some 2) (Some 0)"
    by (simp add: fu_name_may_return_def sample_zend_def)
  then have "\<exists>fn. fu_find_zero_arg_method sample_zend 2 (lit ''getcore'') (MAY_BE_OBJECT sample_zend) (Some (fast_uuid_ce sample_zend)) = Some fn"
    by (simp add: fu_find_zero_arg_method_def fu_method_may_return_def sample_zend_def)
  moreover have "call_method sample_zend fn 1 sample_vm = (IS_OBJECT 0, sample_vm)" for fn by (simp add: sample_zend_def)
  moreover have "native sample_vm (IS_OBJECT 0) = Some \<lparr>obj_b = [1, 2, 3, 4, 5, 6, 7, 8, 9, 10, 11, 12, 13, 14, 15, 16], obj_str = None\<rparr>"
    by (simp add: native_def sample_vm_def)
  ultimately show ?thesis
    using fu_resolve_uuid_result [OF sample_vm_inv(1) sample_zend_ok sample_vm_inv(3) r] ob sample_vm_inv(3) r
    by auto
qed

end
