(* ===== verification/Fu_Date.thy ===== *)
theory Fu_Date
  imports Fu_Object
begin

section \<open>Dates in and out\<close>

text \<open>
  The bridge to PHP's date objects: reading seconds and microseconds off a \<open>DateTimeInterface\<close>
  (\<open>fu_dt_secs_micros\<close>), UUIDs at such a time (\<open>fu_v7_at_datetime\<close>, the core of \<open>fromDateTime\<close>), and
  building a \<open>DateTimeImmutable\<close> from a decoded timestamp (\<open>fu_make_datetime\<close>, \<open>getDateTime\<close>).  ext/date
  is not part of the repository: \<open>date_api\<close> holds the calls the code makes into it.
\<close>

text \<open>\<open>timelib_cache\<close> is \<open>sse\<close> and \<open>us\<close> of the object's time when it is present and up to date;
  \<open>init_from_ts\<close> is \<open>php_date_instantiate\<close> of the immutable class followed, when it gave an object and
  nothing was thrown, by \<open>php_date_initialize_from_ts_long\<close>: the value and the time it then holds.
  \<open>php84\<close> says which body of \<open>fu_make_datetime\<close> is compiled in.\<close>

record 'w date_api =
  date_ce :: class_entry
  date_immutable_ce :: class_entry
  date_interface_ce :: class_entry
  timelib_cache :: "nat \<Rightarrow> 'w vm \<Rightarrow> (int \<times> int) option"
  getTimestamp :: "nat \<Rightarrow> 'w vm \<Rightarrow> zend_result \<times> zval \<times> 'w vm"
  format_u :: "nat \<Rightarrow> 'w vm \<Rightarrow> zend_result \<times> zval \<times> 'w vm"
  createFromFormat :: "byte list \<Rightarrow> 'w vm \<Rightarrow> zend_result \<times> zval \<times> 'w vm"
  init_from_ts :: "int \<Rightarrow> int \<Rightarrow> 'w vm \<Rightarrow> zval \<times> (int \<times> int) option \<times> 'w vm"
  php84 :: bool

subsection \<open>Reading a date\<close>

text \<open>The loop over the six digits, with its early failure.\<close>

fun fu_micros_loop :: "u32 \<Rightarrow> byte list \<Rightarrow> u32 option" where
  "fu_micros_loop m [] = Some m"
| "fu_micros_loop m (c # mv) =
     (if c < of_char CHR ''0'' \<or> of_char CHR ''9'' < c then None
      else fu_micros_loop (m * 10 + (ucast c - 48)) mv)"

text \<open>Class of a handle; the engine passes date objects only.\<close>

definition obj_ce :: "'w zend \<Rightarrow> 'w vm \<Rightarrow> nat \<Rightarrow> class_entry" where
  "obj_ce Z vm o1 = (case objects vm o1 of Some (Other ce) \<Rightarrow> ce | _ \<Rightarrow> fast_uuid_ce Z)"

definition fu_dt_secs_micros :: "'w zend \<Rightarrow> 'w date_api \<Rightarrow> nat \<Rightarrow> 'w vm \<Rightarrow> (int \<times> u32) option \<times> 'w vm" where
  "fu_dt_secs_micros Z D dtobj vm =
     (case (if obj_ce Z vm dtobj = date_immutable_ce D \<or> obj_ce Z vm dtobj = date_ce D
            then timelib_cache D dtobj vm else None) of
        Some (sse, us) \<Rightarrow> (Some (sse, word_of_int us), vm)
      | None \<Rightarrow>
          (case getTimestamp D dtobj vm of
             (cr, ret, vm) \<Rightarrow>
               if cr \<noteq> SUCCESS \<or> vm_exception vm \<noteq> None then
                 (None, if vm_exception vm = None
                        then vm_throw UnsupportedOperationException ''DateTime getTimestamp() failed'' vm else vm)
               else (case ret of
                       IS_LONG secs \<Rightarrow>
                         (case format_u D dtobj vm of
                            (cr, ret, vm) \<Rightarrow>
                              if cr \<noteq> SUCCESS \<or> vm_exception vm \<noteq> None then
                                (None, if vm_exception vm = None
                                       then vm_throw UnsupportedOperationException
                                              (''DateTime format('' @ CHR 0x22 # ''u'' @ CHR 0x22 # '') failed'') vm
                                       else vm)
                              else (case (case ret of IS_STRING mv \<Rightarrow> if length mv \<noteq> 6 then None else fu_micros_loop 0 mv
                                          | _ \<Rightarrow> None) of
                                      None \<Rightarrow>
                                        (None, vm_throw InvalidArgumentException
                                           (''DateTime format('' @ CHR 0x22 # ''u'' @ CHR 0x22 # '') must return six decimal digits'') vm)
                                    | Some m \<Rightarrow> (Some (secs, m), vm)))
                     | _ \<Rightarrow> (None, vm_throw InvalidArgumentException ''DateTime getTimestamp() must return an int'' vm))))"

subsection \<open>UUIDs at a given date\<close>

text \<open>A generator of the module run inside the machine.\<close>

definition on_core :: "('w st \<Rightarrow> 'a \<times> 'w st) \<Rightarrow> 'w vm \<Rightarrow> 'a \<times> 'w vm" where
  "on_core f vm = (case f (core vm) of (r, s) \<Rightarrow> (r, vm\<lparr>core := s\<rparr>))"

definition fu_v7_at_datetime :: "('w, 'm, 's) build \<Rightarrow> 'w zend \<Rightarrow> 'w date_api \<Rightarrow> nat \<Rightarrow> 'w vm \<Rightarrow>
    byte list option \<times> 'w vm" where
  "fu_v7_at_datetime B Z D dtobj vm =
     (case fu_dt_secs_micros Z D dtobj vm of
        (None, vm) \<Rightarrow> (None, vm)
      | (Some (sec, micros), vm) \<Rightarrow>
          if sec < 0
          then (None, vm_throw InvalidArgumentException ''uuid7 does not support dates before 1970-01-01'' vm)
          else if sec > 281474976710
          then (None, vm_throw InvalidArgumentException ''uuid7 timestamp out of range (max ~year 10889)'' vm)
          else
            (let ms = word_of_int sec * 1000 + ucast micros div 1000 :: u64
             in if FU_MS48_MAX < ms
                then (None, vm_throw InvalidArgumentException ''uuid7 timestamp out of range (max ~year 10889)'' vm)
                else (let sub = (ucast (micros mod 1000) * 4096) div 1000 :: u64
                      in on_core (fu_gen_v7_at (plat B) ms sub) vm)))"

text \<open>The part of \<open>fromDateTime\<close> after its arguments are checked: the two range checks and the layout.\<close>

definition v1_at :: "('w, 'm, 's) build \<Rightarrow> int \<Rightarrow> u32 \<Rightarrow> byte list option \<Rightarrow> int \<Rightarrow> 'w vm \<Rightarrow> byte list option \<times> 'w vm" where
  "v1_at B secs micros np cseq vm =
     (if secs < - 200000000000 \<or> secs > 200000000000
      then (None, vm_throw InvalidArgumentException ''DateTime out of range for a v1 UUID timestamp'' vm)
      else
        (let g = secs * 10000000 + uint micros * 10 + uint FU_GREG_UNIX_EPOCH
         in if g < 0 \<or> push_bit 60 1 - 1 < (word_of_int g :: u64)
            then (None, vm_throw InvalidArgumentException
                    ''DateTime out of range for a v1 UUID timestamp (1582-10-15 .. ~5236)'' vm)
            else on_core (fu_lay_v1 (plat B) (word_of_int g) np cseq) vm))"

text \<open>An argument that is a string, an integer or null: \<open>(str, long, is_null)\<close>; an integer or null:
  \<open>(long, is_null)\<close>.\<close>

type_synonym str_or_long = "byte list option \<times> int \<times> bool"
type_synonym long_or_null = "int \<times> bool"

definition node_clockseq :: "str_or_long \<Rightarrow> long_or_null \<Rightarrow> 'w st \<Rightarrow> (byte list option \<times> int) option \<times> 'w st" where
  "node_clockseq node clockseq s =
     (case fu_node_arg (fst node) (fst (snd node)) (snd (snd node)) s of
        (None, s) \<Rightarrow> (None, s)
      | (Some np, s) \<Rightarrow>
          (case fu_clockseq_arg (fst clockseq) (snd clockseq) s of
             (None, s) \<Rightarrow> (None, s)
           | (Some cseq, s) \<Rightarrow> (Some (np, cseq), s)))"

text \<open>A factory's last step: \<open>RETURN_THROWS\<close> on failure, a new object otherwise.\<close>

definition return_or_throw :: "byte list option \<times> 'w vm \<Rightarrow> zval \<times> 'w vm" where
  "return_or_throw r = (case r of (None, vm) \<Rightarrow> (IS_NULL, vm) | (Some b, vm) \<Rightarrow> fu_return_uuid b vm)"

definition Uuid_fromDateTime :: "('w, 'm, 's) build \<Rightarrow> 'w zend \<Rightarrow> 'w date_api \<Rightarrow> nat \<Rightarrow> str_or_long \<Rightarrow> long_or_null \<Rightarrow>
    'w vm \<Rightarrow> zval \<times> 'w vm" where
  "Uuid_fromDateTime B Z D dtobj node clockseq vm =
     (case fu_dt_secs_micros Z D dtobj vm of
        (None, vm) \<Rightarrow> (IS_NULL, vm)
      | (Some (secs, micros), vm) \<Rightarrow>
          (case on_core (node_clockseq node clockseq) vm of
             (None, vm) \<Rightarrow> (IS_NULL, vm)
           | (Some (np, cseq), vm) \<Rightarrow> return_or_throw (v1_at B secs micros np cseq vm)))"

subsection \<open>Building a date\<close>

text \<open>\<open>%lld.%06u\<close>.\<close>

definition fmt_lld :: "int \<Rightarrow> byte list" where
  "fmt_lld n = (if n < 0 then of_char CHR ''-'' # dec_string (nat (- n)) else dec_string (nat n))"

definition fmt_06u :: "nat \<Rightarrow> byte list" where
  "fmt_06u n = replicate (6 - length (dec_string n)) (of_char CHR ''0'') @ dec_string n"

definition secs_micros_text :: "int \<Rightarrow> u32 \<Rightarrow> byte list" where
  "secs_micros_text secs micros = fmt_lld secs @ of_char CHR ''.'' # fmt_06u (unat micros)"

definition is_object :: "zval \<Rightarrow> bool" where
  "is_object z = (case z of IS_OBJECT _ \<Rightarrow> True | _ \<Rightarrow> False)"

definition fu_make_datetime_from_string :: "'w date_api \<Rightarrow> int \<Rightarrow> u32 \<Rightarrow> 'w vm \<Rightarrow> zval option \<times> 'w vm" where
  "fu_make_datetime_from_string D secs micros vm =
     (case createFromFormat D (secs_micros_text secs micros) vm of
        (cr, ret, vm) \<Rightarrow>
          if cr = SUCCESS \<and> is_object ret then (Some ret, vm)
          else (None, if vm_exception vm = None
                      then vm_throw UnsupportedOperationException ''Could not build DateTimeImmutable from UUID timestamp'' vm
                      else vm))"

definition fu_make_datetime :: "'w date_api \<Rightarrow> int \<Rightarrow> u32 \<Rightarrow> 'w vm \<Rightarrow> zval option \<times> 'w vm" where
  "fu_make_datetime D secs micros vm =
     (if php84 D \<and> zend_long_range secs then
        (case init_from_ts D secs (uint micros) vm of
           (tmp, time, vm) \<Rightarrow>
             if vm_exception vm = None \<and> is_object tmp \<and> time = Some (secs, uint micros) then (Some tmp, vm)
             else fu_make_datetime_from_string D secs micros vm)
      else fu_make_datetime_from_string D secs micros vm)"

definition Uuid_getDateTime :: "'w date_api \<Rightarrow> nat \<Rightarrow> 'w vm \<Rightarrow> zval \<times> 'w vm" where
  "Uuid_getDateTime D this vm =
     (case fu_decode_time (obj_b (fu_from_zobj vm this)) of
        None \<Rightarrow> (IS_NULL, vm_throw UnsupportedOperationException ''UUID has no embedded timestamp'' vm)
      | Some (secs, micros) \<Rightarrow>
          (case fu_make_datetime D secs micros vm of
             (None, vm) \<Rightarrow> (IS_NULL, vm)
           | (Some rv, vm) \<Rightarrow> (rv, vm)))"

subsection \<open>What reading a date accepts\<close>

lemma ucast_digit: "is_digit c \<Longrightarrow> (ucast c - 48 :: u32) = of_nat (unat c - 48)"
  by (simp add: is_digit_def of_nat_diff)

lemma fu_micros_loop_eq:
  "fu_micros_loop m mv = (if list_all is_digit mv then Some (m * 10 ^ length mv + of_nat (dec_val mv)) else None)"
proof (induction mv arbitrary: m)
  case Nil
  show ?case by (simp add: dec_val_def)
next
  case (Cons c mv)
  have n: "c < of_char CHR ''0'' \<or> of_char CHR ''9'' < c \<longleftrightarrow> \<not> is_digit c" using not_is_digit [of c] by simp
  show ?case
  proof (cases "is_digit c")
    case True
    define d where "d = unat c - 48"
    have "(m * 10 + (ucast c - 48)) * 10 ^ length mv + of_nat (dec_val mv)
        = m * 10 ^ length (c # mv) + of_nat (dec_val (c # mv))"
      unfolding ucast_digit [OF True] dec_val_Cons d_def [symmetric] by (simp add: distrib_right mult.assoc add.assoc)
    with True show ?thesis by (simp only: fu_micros_loop.simps Cons.IH n list.pred_inject(2) if_False not_True_eq_False simp_thms)
  qed (use not_is_digit [of c] in auto)
qed

lemma six_digits: "length mv = 6 \<Longrightarrow> list_all is_digit mv \<Longrightarrow> dec_val mv < 1000000"
  using dec_val_less [of mv] by simp

lemma dt_secs_micros_iff:
  "(fu_dt_secs_micros Z D dtobj vm = (Some (secs, micros), vm') \<longleftrightarrow>
      (if obj_ce Z vm dtobj \<in> {date_immutable_ce D, date_ce D} \<and> timelib_cache D dtobj vm \<noteq> None
       then \<exists>us. timelib_cache D dtobj vm = Some (secs, us) \<and> micros = word_of_int us \<and> vm' = vm
       else \<exists>vm1 mv. getTimestamp D dtobj vm = (SUCCESS, IS_LONG secs, vm1) \<and> vm_exception vm1 = None \<and>
              format_u D dtobj vm1 = (SUCCESS, IS_STRING mv, vm') \<and> vm_exception vm' = None \<and>
              length mv = 6 \<and> list_all is_digit mv \<and> unat micros = dec_val mv \<and> dec_val mv < 1000000)) \<and>
    (fst (fu_dt_secs_micros Z D dtobj vm) = None \<longrightarrow> vm_exception (snd (fu_dt_secs_micros Z D dtobj vm)) \<noteq> None)"
proof (cases "obj_ce Z vm dtobj \<in> {date_immutable_ce D, date_ce D} \<and> timelib_cache D dtobj vm \<noteq> None")
  case True
  then show ?thesis by (auto simp: fu_dt_secs_micros_def)
next
  case False
  then have "obj_ce Z vm dtobj \<in> {date_immutable_ce D, date_ce D} \<Longrightarrow> timelib_cache D dtobj vm = None" by blast
  then have c: "(if obj_ce Z vm dtobj = date_immutable_ce D \<or> obj_ce Z vm dtobj = date_ce D
      then timelib_cache D dtobj vm else None) = None" by simp
  obtain cr ret vm1 where t: "getTimestamp D dtobj vm = (cr, ret, vm1)" by (cases "getTimestamp D dtobj vm")
  obtain cr2 ret2 vm2 where f: "format_u D dtobj vm1 = (cr2, ret2, vm2)" by (cases "format_u D dtobj vm1")
  define r where "r = (case ret2 of IS_STRING mv \<Rightarrow> if length mv \<noteq> 6 then None else fu_micros_loop 0 mv | _ \<Rightarrow> None)"
  have d: "fu_dt_secs_micros Z D dtobj vm =
    (if cr \<noteq> SUCCESS \<or> vm_exception vm1 \<noteq> None then
       (None, if vm_exception vm1 = None
              then vm_throw UnsupportedOperationException ''DateTime getTimestamp() failed'' vm1 else vm1)
     else (case ret of
             IS_LONG secs \<Rightarrow>
               if cr2 \<noteq> SUCCESS \<or> vm_exception vm2 \<noteq> None then
                 (None, if vm_exception vm2 = None
                        then vm_throw UnsupportedOperationException
                               (''DateTime format('' @ CHR 0x22 # ''u'' @ CHR 0x22 # '') failed'') vm2
                        else vm2)
               else (case r of
                       None \<Rightarrow> (None, vm_throw InvalidArgumentException
                          (''DateTime format('' @ CHR 0x22 # ''u'' @ CHR 0x22 # '') must return six decimal digits'') vm2)
                     | Some m \<Rightarrow> (Some (secs, m), vm2))
           | _ \<Rightarrow> (None, vm_throw InvalidArgumentException ''DateTime getTimestamp() must return an int'' vm1)))"
    by (simp only: fu_dt_secs_micros_def c option.case t f prod.case r_def)
  have r: "r = Some m \<longleftrightarrow> (\<exists>mv. ret2 = IS_STRING mv \<and> length mv = 6 \<and> list_all is_digit mv \<and> unat m = dec_val mv \<and>
      dec_val mv < 1000000)" for m
  proof -
    have u: "of_nat n = m \<longleftrightarrow> unat m = n" if "n < 1000000" for n
      using that of_nat_inverse [of n m] by auto
    show ?thesis unfolding r_def using u six_digits by (auto simp: fu_micros_loop_eq split: zval.splits)
  qed
  have thr: "vm_exception (vm_throw ce msg v) \<noteq> None" for ce msg and v :: "'a vm" by (simp add: zend_throw_def)
  have ok: "fu_dt_secs_micros Z D dtobj vm = (Some (secs, micros), vm') \<longleftrightarrow>
      cr = SUCCESS \<and> vm_exception vm1 = None \<and> ret = IS_LONG secs \<and> cr2 = SUCCESS \<and> vm_exception vm2 = None \<and>
      r = Some micros \<and> vm2 = vm'"
    unfolding d by (cases ret; cases r) auto
  have "fst (fu_dt_secs_micros Z D dtobj vm) = None \<longrightarrow> vm_exception (snd (fu_dt_secs_micros Z D dtobj vm)) \<noteq> None"
    unfolding d using thr by (cases ret; cases r) auto
  then show ?thesis unfolding ok if_not_P [OF False] r t by (auto simp: f)
qed

text \<open>C32: reading a date succeeds exactly when its class is a built-in one with an up-to-date time (then no
  method of it is called) or \<open>getTimestamp\<close> gives an integer and \<open>format("u")\<close> gives exactly six decimal
  digits, none of them throwing; the microseconds are then the value of those digits, below a million, so
  nothing carries into the seconds.  Every failure leaves an exception pending.\<close>

theorem fu_dt_secs_micros_iff:
  "(fu_dt_secs_micros Z D dtobj vm = (Some (secs, micros), vm') \<longleftrightarrow>
      (if obj_ce Z vm dtobj \<in> {date_immutable_ce D, date_ce D} \<and> timelib_cache D dtobj vm \<noteq> None
       then \<exists>us. timelib_cache D dtobj vm = Some (secs, us) \<and> micros = word_of_int us \<and> vm' = vm
       else \<exists>vm1 mv. getTimestamp D dtobj vm = (SUCCESS, IS_LONG secs, vm1) \<and> vm_exception vm1 = None \<and>
              format_u D dtobj vm1 = (SUCCESS, IS_STRING mv, vm') \<and> vm_exception vm' = None \<and>
              length mv = 6 \<and> list_all is_digit mv \<and> unat micros = dec_val mv \<and> dec_val mv < 1000000)) \<and>
    (fst (fu_dt_secs_micros Z D dtobj vm) = None \<longrightarrow> vm_exception (snd (fu_dt_secs_micros Z D dtobj vm)) \<noteq> None)"
  by (rule dt_secs_micros_iff)

subsection \<open>Timestamps survive the round trip\<close>

lemma FU_GREG_uint: "uint FU_GREG_UNIX_EPOCH = 122192928000000000"
  by (simp add: FU_GREG_UNIX_EPOCH_def)

lemma vm_inv_on_core: "vm_inv h vm \<Longrightarrow> f (core vm) = (r, s) \<Longrightarrow> fu_inv s \<Longrightarrow> vm_inv h (snd (on_core f vm))"
  by (simp add: on_core_def vm_inv_core_update)

lemma on_core_eq: "f (core vm) = (r, s) \<Longrightarrow> on_core f vm = (r, vm\<lparr>core := s\<rparr>)"
  by (simp add: on_core_def)

text \<open>The 100 ns count of a Unix time, and back.\<close>

lemma greg_of_unix:
  fixes secs m :: int
  assumes "0 \<le> m" and "m < 1000000" and "g = secs * 10000000 + m * 10 + 122192928000000000"
  shows "g div 10000000 - 12219292800 = secs" and "g mod 10000000 div 10 = m"
proof -
  have g: "g = m * 10 + 10000000 * (secs + 12219292800)" using assms(3) by simp
  have q: "(m * 10 + 10000000 * q) div 10000000 = q" "(m * 10 + 10000000 * q) mod 10000000 = m * 10" for q
    using assms(1,2) by simp_all
  show "g div 10000000 - 12219292800 = secs" "g mod 10000000 div 10 = m" unfolding g q by simp_all
qed

lemma v1_ticks_cap:
  assumes "(micros :: u32) < 1000000" and "\<not> (secs < - 200000000000 \<or> secs > 200000000000)"
  defines "g \<equiv> secs * 10000000 + uint micros * 10 + 122192928000000000"
  shows "g < 0 \<or> push_bit 60 1 - 1 < (word_of_int g :: u64) \<longleftrightarrow> \<not> (0 \<le> g \<and> g < 2 ^ 60)"
proof -
  have mask: "uint (push_bit 60 1 - 1 :: u64) = 2 ^ 60 - 1" by simp
  have p: "(2 :: int) ^ 63 = 9223372036854775808" by simp
  have "0 \<le> uint micros" "uint micros < 1000000" using assms(1) by (simp_all add: word_less_def)
  then have "zend_long_range g" using assms(2) unfolding zend_long_range_def g_def p by linarith
  from zend_long_cap [OF this, of "push_bit 60 1 - 1"] show ?thesis unfolding mask by auto
qed

lemma v1_ticks:
  assumes "(micros :: u32) < 1000000" and "int n = secs * 10000000 + uint micros * 10 + 122192928000000000"
  shows "int (n div 10000000) - 12219292800 = secs" and "of_nat (n mod 10000000 div 10) = micros"
proof -
  have um: "0 \<le> uint micros" "uint micros < 1000000" using assms(1) by (simp_all add: word_less_def)
  note gu = greg_of_unix [OF um assms(2)]
  show "int (n div 10000000) - 12219292800 = secs" using gu(1) by (simp add: zdiv_int)
  have "int (n mod 10000000 div 10) = uint micros" using gu(2) by (simp add: zdiv_int zmod_int)
  then show "of_nat (n mod 10000000 div 10) = micros" by (metis of_int_of_nat_eq word_of_int_uint)
qed

lemma v1_at_cases:
  assumes "vm_inv h vm" and "args_ok np cseq" and "micros < 1000000" and "v1_at B secs micros np cseq vm = (r, vm')"
  defines "g \<equiv> secs * 10000000 + uint micros * 10 + 122192928000000000"
  shows "vm_inv h vm' \<and>
    (if 0 \<le> g \<and> g < 2 ^ 60
     then (case r of Some b \<Rightarrow> rfc_uuid 1 b \<and> fu_decode_time b = Some (secs, micros) \<and> vm_exception vm' = vm_exception vm
           | None \<Rightarrow> (np = None \<or> cseq < 0) \<and> vm_exception vm' \<noteq> None)
     else r = None \<and> (\<exists>msg. vm' = vm_throw InvalidArgumentException msg vm))"
proof -
  have um: "0 \<le> uint micros" "uint micros < 1000000" using assms(3) by (simp_all add: word_less_def)
  note cap = v1_ticks_cap [OF assms(3), of secs, folded g_def]
  show ?thesis
  proof (cases "0 \<le> g \<and> g < 2 ^ 60")
    case True
    have p: "(2 :: int) ^ 60 = 1152921504606846976" by simp
    have s: "\<not> (secs < - 200000000000 \<or> secs > 200000000000)" using True um unfolding g_def p by linarith
    let ?w = "word_of_int g :: u64"
    have w: "uint ?w = g" using True by (simp add: uint_word_of_int)
    then have lt: "?w < 2 ^ 60" using True by (simp add: word_less_def)
    have wg: "int (unat ?w) = g" using w by simp
    note d = v1_ticks [OF assms(3) wg [unfolded g_def], folded g_def]
    have v: "v1_at B secs micros np cseq vm = on_core (fu_lay_v1 (plat B) ?w np cseq) vm"
      unfolding v1_at_def FU_GREG_uint Let_def g_def [symmetric] if_not_P [OF s] cap [OF s] using True by simp
    have a: "\<And>n. np = Some n \<Longrightarrow> length n = 6" "cseq < 16384" using assms(2) by (auto simp: args_ok_def)
    show ?thesis
    proof (rule fu_lay_clockseq_node_cases [where P = "plat B" and node = np and clockseq = cseq, OF vm_inv_core [OF assms(1)] a])
      fix n cs s' assume l: "fu_lay_clockseq_node (plat B) np cseq (core vm) = (Some (put_clockseq_node n cs), s')"
        "length n = 6" "fu_inv s'" "EG_exception s' = EG_exception (core vm)"
      have "r = Some (v1_head ?w @ put_clockseq_node n cs)" "vm' = vm\<lparr>core := s'\<rparr>"
        using assms(4) l(1) by (simp_all add: v on_core_def fu_lay_v1_eq)
      then show ?thesis
        using True vm_inv_core_update [OF assms(1) l(3)] l(2,4) decode_time_heads [OF lt l(2), of cs] d
          rfc_clockseq_tail [of "v1_head ?w" 1 n cs] version_v1_head(1) [OF lt] by simp
    next
      fix s' assume l: "fu_lay_clockseq_node (plat B) np cseq (core vm) = (None, s')" "cseq < 0 \<or> np = None"
        "fu_inv s'" "EG_exception s' \<noteq> None"
      have "r = None" "vm' = vm\<lparr>core := s'\<rparr>" using assms(4) l(1) by (simp_all add: v on_core_def fu_lay_v1_eq)
      then show ?thesis using True vm_inv_core_update [OF assms(1) l(3)] l(2,4) by auto
    qed
  next
    case False
    then have "\<exists>msg. v1_at B secs micros np cseq vm = (None, vm_throw InvalidArgumentException msg vm)"
      unfolding v1_at_def FU_GREG_uint Let_def g_def [symmetric] using cap by auto
    then show ?thesis using False assms(1,4) by auto
  qed
qed

lemma fu_parse_node_length: "fu_parse_node str lv = Some node \<Longrightarrow> length node = 6"
  by (auto simp: fu_parse_node_def Let_def dest: parse_hex_bytes_length split: option.splits if_splits)

text \<open>A node and a clock sequence that pass their checks can be laid out; a failed check only throws.\<close>

lemma node_clockseq_cases:
  obtains (ok) np cseq where "node_clockseq node clockseq s = (Some (np, cseq), s)" "args_ok np cseq" "- 1 \<le> cseq"
      "snd (snd node) \<longleftrightarrow> np = None" "snd clockseq \<longleftrightarrow> cseq = - 1"
    | (fail) msg where "node_clockseq node clockseq s = (None, zend_throw InvalidArgumentException msg s)"
proof (cases "node_clockseq node clockseq s")
  case (Pair r s')
  show thesis
  proof (cases r)
    case None
    then have "\<exists>msg. s' = zend_throw InvalidArgumentException msg s"
      using Pair by (auto simp: node_clockseq_def fu_node_arg_def fu_clockseq_arg_def split: if_splits option.splits)
    then show thesis using None Pair by (auto intro: fail)
  next
    case (Some x)
    then show thesis
      using Pair by (cases x, intro ok [of "fst x" "snd x"])
        (auto simp: node_clockseq_def fu_node_arg_def fu_clockseq_arg_def args_ok_def dest: fu_parse_node_length
          split: if_splits option.splits)
  qed
qed

lemma return_or_throw_inv:
  "vm_inv h vm \<Longrightarrow> (\<And>b. r = Some b \<Longrightarrow> length b = 16) \<Longrightarrow> vm_inv h (snd (return_or_throw (r, vm)))"
  by (auto simp: return_or_throw_def fu_return_uuid_inv split: option.splits)

text \<open>The new object a factory returned, and its bytes.\<close>

definition new_uuid :: "(byte list \<Rightarrow> bool) \<Rightarrow> zval \<Rightarrow> 'w vm \<Rightarrow> bool" where
  "new_uuid Q rv vm \<longleftrightarrow> (\<exists>o1 u. rv = IS_OBJECT o1 \<and> objects vm o1 = Some (Uuid u) \<and> obj_str u = None \<and> Q (obj_b u))"

lemma return_uuid_new:
  "vm_exception vm = None \<Longrightarrow> fu_return_uuid b vm = (rv, vm') \<Longrightarrow> Q b \<Longrightarrow> new_uuid Q rv vm' \<and> vm_exception vm' = None"
  by (auto simp: fu_return_uuid_eq new_uuid_def)

text \<open>C33: \<open>fromDateTime\<close> returns a version 1 UUID from which exactly the date's second and microsecond are
  read back, for every date from 1582-10-15 up to the last 60-bit timestamp, before and after 1970; a date
  outside throws and creates no object, and no arithmetic on the way wraps.\<close>

theorem Uuid_fromDateTime_roundtrip:
  assumes "fu_dt_secs_micros Z D dtobj vm = (Some (secs, micros), vm1)" and "micros < 1000000"
    and "vm_inv h vm1" and "vm_exception vm1 = None"
    and "Uuid_fromDateTime B Z D dtobj node clockseq vm = (rv, vm')"
  shows "vm_inv h vm' \<and>
    (vm_exception vm' = None \<longleftrightarrow> rv \<noteq> IS_NULL) \<and>
    (vm_exception vm' = None \<longrightarrow> new_uuid (\<lambda>b. rfc_uuid 1 b \<and> fu_decode_time b = Some (secs, micros)) rv vm') \<and>
    (secs * 10000000 + uint micros * 10 \<notin> {- 122192928000000000 ..< 2 ^ 60 - 122192928000000000} \<longrightarrow>
       rv = IS_NULL \<and> objects vm' = objects vm1) \<and>
    (secs * 10000000 + uint micros * 10 \<in> {- 122192928000000000 ..< 2 ^ 60 - 122192928000000000} \<and>
     on_core (node_clockseq node clockseq) vm1 = (Some (Some n, cseq), vm1) \<and> 0 \<le> cseq \<longrightarrow> rv \<noteq> IS_NULL)"
proof (rule node_clockseq_cases [of node clockseq "core vm1"])
  fix np cs assume n: "node_clockseq node clockseq (core vm1) = (Some (np, cs), core vm1)" "args_ok np cs"
  have nc: "on_core (node_clockseq node clockseq) vm1 = (Some (np, cs), vm1)" using n(1) by (simp add: on_core_def)
  obtain r vm2 where v: "v1_at B secs micros np cs vm1 = (r, vm2)" by (cases "v1_at B secs micros np cs vm1")
  have e: "return_or_throw (r, vm2) = (rv, vm')"
    using assms(5) by (simp add: Uuid_fromDateTime_def assms(1) nc v)
  let ?g = "secs * 10000000 + uint micros * 10 + 122192928000000000"
  note c = v1_at_cases [OF assms(3) n(2) assms(2) v]
  have inv: "vm_inv h vm'"
    using return_or_throw_inv [of h vm2 r] c e by (auto simp: rfc_uuid_length split: if_splits option.splits)
  have range: "secs * 10000000 + uint micros * 10 \<in> {- 122192928000000000 ..< 2 ^ 60 - 122192928000000000} \<longleftrightarrow>
      0 \<le> ?g \<and> ?g < 2 ^ 60" by auto
  show ?thesis
  proof (cases r)
    case None
    then have "rv = IS_NULL" "vm' = vm2" using e by (simp_all add: return_or_throw_def)
    then show ?thesis
      unfolding range nc using inv c None by (auto simp: zend_throw_def split: if_splits)
  next
    case (Some b)
    then have "fu_return_uuid b vm2 = (rv, vm')" using e by (simp add: return_or_throw_def)
    moreover have b: "0 \<le> ?g \<and> ?g < 2 ^ 60" "rfc_uuid 1 b" "fu_decode_time b = Some (secs, micros)" "vm_exception vm2 = None"
      using c Some assms(4) by (auto split: if_splits)
    ultimately show ?thesis
      unfolding range using inv return_uuid_new [of vm2 b rv vm' "\<lambda>b. rfc_uuid 1 b \<and> fu_decode_time b = Some (secs, micros)"]
      by (auto simp: fu_return_uuid_eq)
  qed
next
  fix msg assume n: "node_clockseq node clockseq (core vm1) = (None, zend_throw InvalidArgumentException msg (core vm1))"
  then have "rv = IS_NULL" "vm' = vm_throw InvalidArgumentException msg vm1"
    using assms(5) by (simp_all add: Uuid_fromDateTime_def assms(1) on_core_def vm_throw_def)
  then show ?thesis using assms(3) n by (auto simp: on_core_def zend_throw_def)
qed

lemma v7_at_ms:
  assumes "(micros :: u32) < 1000000" and "0 \<le> sec" and "sec \<le> 281474976710"
  shows "unat (word_of_int sec * 1000 + ucast micros div 1000 :: u64) = nat sec * 1000 + unat micros div 1000"
    and "(nat sec * 1000 + unat micros div 1000) div 1000 = nat sec"
    and "(nat sec * 1000 + unat micros div 1000) mod 1000 = unat micros div 1000"
proof -
  have um: "unat micros < 1000000" using assms(1) by (simp add: word_less_nat_alt)
  then have q: "unat micros div 1000 < 1000" by (simp add: less_mult_imp_div_less)
  then show "(nat sec * 1000 + unat micros div 1000) div 1000 = nat sec"
    and "(nat sec * 1000 + unat micros div 1000) mod 1000 = unat micros div 1000" by simp_all
  have "(ucast micros div 1000 :: u64) = of_nat (unat micros div 1000)"
    using um by (simp add: word_unat_eq_iff unat_div unsigned_ucast_eq take_bit_eq_mod unat_of_nat)
  moreover have "word_of_int sec = (of_nat (nat sec) :: u64)" using assms(2) by simp
  ultimately have "(word_of_int sec * 1000 + ucast micros div 1000 :: u64) = of_nat (nat sec * 1000 + unat micros div 1000)"
    by simp
  moreover have "nat sec * 1000 + unat micros div 1000 < 2 ^ 64" using assms(2,3) q by simp
  ultimately show "unat (word_of_int sec * 1000 + ucast micros div 1000 :: u64) = nat sec * 1000 + unat micros div 1000"
    by (simp only: unat_of_nat) simp
qed

lemma v7_at_datetime_facts:
  assumes "fu_dt_secs_micros Z D dtobj vm = (Some (sec, micros), vm1)" and "micros < 1000000" and "zend_long_range sec"
    and "vm_inv h vm1" and "vm_exception vm1 = None"
    and "fu_v7_at_datetime B Z D dtobj vm = (r, vm')"
  shows "vm_inv h vm' \<and>
    (if 0 \<le> sec \<and> sec * 1000 + int (unat micros div 1000) < 2 ^ 48
     then (case r of
             Some b \<Rightarrow> rfc_uuid 7 b \<and> vm_exception vm' = None \<and>
               fu_decode_time b = Some (sec, of_nat (unat micros div 1000 * 1000))
           | None \<Rightarrow> vm_exception vm' \<noteq> None)
     else r = None \<and> (\<exists>msg. vm' = vm_throw InvalidArgumentException msg vm1))"
proof (cases "0 \<le> sec \<and> sec \<le> 281474976710")
  case False
  have p: "(2 :: int) ^ 48 = 281474976710656" by simp
  have "\<not> (0 \<le> sec \<and> sec * 1000 + int (unat micros div 1000) < 2 ^ 48)" using False unfolding p by linarith
  moreover have "\<exists>msg. fu_v7_at_datetime B Z D dtobj vm = (None, vm_throw InvalidArgumentException msg vm1)"
    using False by (auto simp: fu_v7_at_datetime_def assms(1))
  ultimately show ?thesis using assms(4,6) by auto
next
  case True
  define n where "n = nat sec * 1000 + unat micros div 1000"
  define ms where "ms = (word_of_int sec * 1000 + ucast micros div 1000 :: u64)"
  note at_ms = v7_at_ms [OF assms(2) True [THEN conjunct1] True [THEN conjunct2]]
  have n: "int n = sec * 1000 + int (unat micros div 1000)" using True by (simp add: n_def)
  have ms: "unat ms = n" unfolding ms_def n_def by (rule at_ms(1))
  have cap: "FU_MS48_MAX < ms \<longleftrightarrow> \<not> n < 2 ^ 48" by (auto simp: word_less_nat_alt ms FU_MS48_MAX_def)
  have d: "fu_v7_at_datetime B Z D dtobj vm =
    (if FU_MS48_MAX < ms then (None, vm_throw InvalidArgumentException ''uuid7 timestamp out of range (max ~year 10889)'' vm1)
     else on_core (fu_gen_v7_at (plat B) ms ((ucast (micros mod 1000) * 4096) div 1000)) vm1)"
    using True by (simp add: fu_v7_at_datetime_def assms(1) ms_def Let_def)
  show ?thesis
  proof (cases "n < 2 ^ 48")
    case False
    moreover have "\<not> (sec * 1000 + int (unat micros div 1000) < 2 ^ 48)" unfolding n [symmetric] using False by simp
    ultimately show ?thesis using d assms(4,6) cap by auto
  next
    case lt: True
    have r: "on_core (fu_gen_v7_at (plat B) ms ((ucast (micros mod 1000) * 4096) div 1000)) vm1 = (r, vm')"
      using d assms(6) cap lt by simp
    have in_range: "0 \<le> sec \<and> sec * 1000 + int (unat micros div 1000) < 2 ^ 48" using True lt unfolding n [symmetric] by simp
    have m48: "ms < 2 ^ 48" using lt by (simp add: word_less_nat_alt ms)
    note dm = at_ms(2,3) [folded n_def]
    show ?thesis
    proof (rule fu_rand_u64_cases [OF vm_inv_core [OF assms(4)], of "plat B"])
      fix c s' assume g: "fu_rand_u64 (plat B) (core vm1) = (Some (of_nat (be_nat c)), s')" "fu_inv s'"
        "EG_exception s' = EG_exception (core vm1)"
      then have "r = Some (fu_lay_v7 ms ((ucast (micros mod 1000) * 4096) div 1000) (of_nat (be_nat c) AND FU_RANDB_MASK))"
        "vm' = vm1\<lparr>core := s'\<rparr>"
        using r by (simp_all add: on_core_def fu_gen_v7_at_def)
      moreover note decode_time_v7 [OF m48] v7_bytes_fields [OF m48]
      ultimately show ?thesis
        using True in_range g(2,3) vm_inv_core_update [OF assms(4) g(2)] assms(5) by (simp add: rfc_uuid_iff ms dm)
    next
      fix s' assume "fu_rand_u64 (plat B) (core vm1) = (None, s')" "fu_inv s'" "EG_exception s' \<noteq> None"
      then show ?thesis using r in_range vm_inv_core_update [OF assms(4)] by (auto simp: on_core_def fu_gen_v7_at_def)
    qed
  qed
qed

lemma v7_at_datetime_objects:
  "fu_dt_secs_micros Z D dtobj vm = (Some x, vm1) \<Longrightarrow> fu_v7_at_datetime B Z D dtobj vm = (r, vm') \<Longrightarrow> objects vm' = objects vm1"
  by (cases x) (auto simp: fu_v7_at_datetime_def on_core_def Let_def split: if_splits prod.splits)

text \<open>C34: \<open>uuid7\<close> at a date carries exactly the date's millisecond: the seconds are read back, and the
  microseconds rounded down to the millisecond; dates before 1970 or past the 48-bit field throw and leave
  everything else as it was.\<close>

theorem fu_v7_at_datetime_result:
  assumes "fu_dt_secs_micros Z D dtobj vm = (Some (sec, micros), vm1)" and "micros < 1000000" and "zend_long_range sec"
    and "vm_inv h vm1" and "vm_exception vm1 = None"
    and "fu_v7_at_datetime B Z D dtobj vm = (r, vm')"
  shows "vm_inv h vm' \<and>
    (if 0 \<le> sec \<and> sec * 1000 + int (unat micros div 1000) < 2 ^ 48
     then (case r of
             Some b \<Rightarrow> rfc_uuid 7 b \<and> vm_exception vm' = None \<and>
               fu_decode_time b = Some (sec, of_nat (unat micros div 1000 * 1000))
           | None \<Rightarrow> vm_exception vm' \<noteq> None)
     else r = None \<and> (\<exists>msg. vm' = vm_throw InvalidArgumentException msg vm1))"
  by (rule v7_at_datetime_facts [OF assms])

subsection \<open>Reading the time of a UUID\<close>

lemma div_steps: "(t div 10000000) * 1000 + t mod 10000000 div 10 div 1000 = t div (10000 :: nat)"
proof -
  have "t mod (10000 * 1000) = 10000 * (t div 10000 mod 1000) + t mod 10000" by (rule mod_mult2_eq)
  then have "t mod 10000000 div 10000 = t div 10000 mod 1000" by simp
  then show ?thesis
    using div_mult_mod_eq [of "t div 10000" 1000] by (simp add: div_mult2_eq [symmetric])
qed

text \<open>C35: \<open>getTimestampMillis\<close> is, for versions 1, 2 and 6, the 60-bit count of 100 ns since 1582 shifted to the Unix
  epoch and rounded down to the millisecond, and for version 7 its 48-bit field; the range check never
  fires with a 64-bit \<open>zend_long\<close>; every other UUID throws.\<close>

theorem Uuid_getTimestampMillis_exact:
  assumes "vm_inv h vm"
  shows "Uuid_getTimestampMillis this vm =
    (let b = bytes_of vm this; v = unat (b ! 6) div 16
     in if getVariant b = 2 \<and> v \<in> {1, 2, 6} then (IS_LONG (int (time60 b div 10000) - 12219292800000), vm)
        else if getVariant b = 2 \<and> v = 7 then (IS_LONG (int (be_nat (take 6 b))), vm)
        else (IS_NULL, vm_throw UnsupportedOperationException ''UUID has no embedded timestamp'' vm))"
proof -
  let ?b = "bytes_of vm this"
  have len: "length ?b = 16" using assms by simp
  have micros: "int (n div 10000000) * 1000 + uint (of_nat (n mod 10000000 div 10) div 1000 :: u32) = int (n div 10000)" for n
  proof -
    have "n mod 10000000 div 10 < 1000000" by (simp add: less_mult_imp_div_less)
    then have "unat (of_nat (n mod 10000000 div 10) :: u32) = n mod 10000000 div 10" by (intro of_nat_inverse [OF refl]) simp
    then have "uint (of_nat (n mod 10000000 div 10) div 1000 :: u32) = int (n mod 10000000 div 10 div 1000)"
      by (simp add: uint_nat unat_div del: of_nat_unat)
    then show ?thesis unfolding div_steps [symmetric] of_nat_add by simp
  qed
  have t60: "time60 ?b div 10000 < 2 ^ 60" by (rule le_less_trans [OF div_le_dividend time60_less [OF len]])
  have m48: "be_nat (take 6 ?b) < 2 ^ 48" using be_nat_less [of "take 6 ?b"] len by simp
  have m7: "int (m div 1000) * 1000 + uint (of_nat (m mod 1000 * 1000) div 1000 :: u32) = int m" for m
  proof -
    have "m mod 1000 * 1000 < 1000000" by simp
    then have "unat (of_nat (m mod 1000 * 1000) :: u32) = m mod 1000 * 1000" by (intro of_nat_inverse [OF refl]) simp
    then have "uint (of_nat (m mod 1000 * 1000) div 1000 :: u32) = int (m mod 1000)"
      by (simp add: uint_nat unat_div del: of_nat_unat of_nat_mult)
    then show ?thesis using div_mult_mod_eq [of m 1000] by linarith
  qed
  show ?thesis
    unfolding Uuid_getTimestampMillis_def fu_decode_time_eq [OF len] getVariant_rfc Let_def
    using micros [of "time60 ?b"] m7 [of "be_nat (take 6 ?b)"] t60 m48
    by (auto simp: zend_long_range_def left_diff_distrib)
qed

lemma dec_val_zeros: "dec_val (replicate k 48 @ s) = dec_val s"
  by (induction k) (simp_all add: dec_val_Cons)

lemma fmt_06u_facts:
  assumes "n < 1000000"
  shows "length (fmt_06u n) = 6" "dec_val (fmt_06u n) = n"
  using length_dec_string [of 6 n] assms by (simp_all add: fmt_06u_def dec_val_zeros)

lemma dec_string_inject: "dec_string a = dec_string b \<longleftrightarrow> a = b"
  by (metis dec_val_dec_string)

lemma dec_string_no_sign: "dec_string a \<noteq> 45 # s" "45 # s \<noteq> dec_string a"
proof -
  show "dec_string a \<noteq> 45 # s"
  proof
    assume "dec_string a = 45 # s"
    then have "list_all is_digit (45 # s)" using dec_string_props [of a] by simp
    then show False by (simp add: is_digit_def)
  qed
  then show "45 # s \<noteq> dec_string a" by (rule not_sym)
qed

lemma fmt_lld_inject: "fmt_lld a = fmt_lld b \<longleftrightarrow> a = b"
  by (cases "a < 0"; cases "b < 0") (auto simp: fmt_lld_def dec_string_inject dec_string_no_sign)

lemma secs_micros_text_inject:
  assumes "m < 1000000" and "m' < 1000000"
  shows "secs_micros_text s m = secs_micros_text s' m' \<longleftrightarrow> s = s' \<and> m = m'"
proof -
  have u: "unat m < 1000000" "unat m' < 1000000" using assms by (simp_all add: word_less_nat_alt)
  note f = fmt_06u_facts [OF u(1)] fmt_06u_facts [OF u(2)]
  have "m = m'" if "fmt_06u (unat m) = fmt_06u (unat m')"
    using arg_cong [OF that, of dec_val] unfolding f(2,4) by (simp only: word_unat_eq_iff)
  then have "fmt_06u (unat m) = fmt_06u (unat m') \<longleftrightarrow> m = m'" by blast
  moreover have "length (46 # fmt_06u (unat m)) = length (46 # fmt_06u (unat m'))" unfolding list.size f(1,3) ..
  ultimately show ?thesis by (simp add: secs_micros_text_def fmt_lld_inject)
qed

lemma make_from_string_result:
  "fu_make_datetime_from_string D s m vm = (r, vm') \<Longrightarrow> (case r of Some z \<Rightarrow> is_object z | None \<Rightarrow> vm_exception vm' \<noteq> None)"
  by (auto simp: fu_make_datetime_from_string_def zend_throw_def split: prod.splits if_splits)

lemma make_datetime_result:
  "fu_make_datetime D s m vm = (r, vm') \<Longrightarrow> (case r of Some z \<Rightarrow> is_object z | None \<Rightarrow> vm_exception vm' \<noteq> None)"
  by (auto simp: fu_make_datetime_def dest: make_from_string_result split: prod.splits if_splits)

text \<open>\<open>getDateTime\<close> either returns an object or has thrown; without a timestamp it throws; from PHP 8.4 on an
  object built directly is returned only if it holds exactly the decoded second and microsecond; and the
  text handed to \<open>createFromFormat\<close> otherwise determines both: different times give different texts.\<close>

theorem Uuid_getDateTime_exact:
  assumes "Uuid_getDateTime D this vm = (rv, vm')" and "m < 1000000" and "m' < 1000000"
  shows "(is_object rv \<or> vm_exception vm' \<noteq> None) \<and>
    (fu_decode_time (bytes_of vm this) = None \<longrightarrow>
       rv = IS_NULL \<and> vm' = vm_throw UnsupportedOperationException ''UUID has no embedded timestamp'' vm) \<and>
    (\<forall>secs micros tmp time vm1.
       fu_decode_time (bytes_of vm this) = Some (secs, micros) \<and> php84 D \<and> zend_long_range secs \<and>
       init_from_ts D secs (uint micros) vm = (tmp, time, vm1) \<and> vm_exception vm1 = None \<and> is_object tmp \<and>
       time = Some (secs, uint micros) \<longrightarrow> rv = tmp \<and> vm' = vm1) \<and>
    (secs_micros_text s m = secs_micros_text s' m' \<longleftrightarrow> s = s' \<and> m = m')"
proof (intro conjI)
  show "is_object rv \<or> vm_exception vm' \<noteq> None"
  proof (cases "fu_decode_time (bytes_of vm this)")
    case None
    then show ?thesis using assms(1) by (auto simp: Uuid_getDateTime_def zend_throw_def)
  next
    case (Some x)
    obtain r vm1 where m: "fu_make_datetime D (fst x) (snd x) vm = (r, vm1)" by (cases "fu_make_datetime D (fst x) (snd x) vm")
    with make_datetime_result [OF m] assms(1) Some show ?thesis
      by (cases x; cases r) (auto simp: Uuid_getDateTime_def)
  qed
  show "secs_micros_text s m = secs_micros_text s' m' \<longleftrightarrow> s = s' \<and> m = m'"
    by (rule secs_micros_text_inject [OF assms(2,3)])
qed (use assms(1) in \<open>auto simp: Uuid_getDateTime_def fu_make_datetime_def\<close>)

subsection \<open>Examples\<close>

text \<open>Class 2 is a date class whose objects hold a fixed time, and so does every date that is made; nothing else of
  ext/date works.\<close>

definition new_date :: "nat vm \<Rightarrow> zval \<times> nat vm" where
  "new_date vm = (IS_OBJECT (next_object vm),
     vm\<lparr>objects := (objects vm)(next_object vm \<mapsto> Other 3), puts := Suc (puts vm)\<rparr>)"

definition sample_date :: "nat date_api" where
  "sample_date =
     \<lparr>date_ce = 2, date_immutable_ce = 3, date_interface_ce = 4, timelib_cache = (\<lambda>o1 vm. Some (1700000000, 123456)),
      getTimestamp = (\<lambda>o1 vm. (FAILURE, IS_UNDEF, vm)), format_u = (\<lambda>o1 vm. (FAILURE, IS_UNDEF, vm)),
      createFromFormat = (\<lambda>t vm. (FAILURE, IS_UNDEF, vm)),
      init_from_ts = (\<lambda>s m vm. case new_date vm of (z, vm) \<Rightarrow> (z, Some (1700000000, 123456), vm)), php84 = True\<rparr>"

lemma sample_secs: "fu_dt_secs_micros sample_zend sample_date 1 sample_vm = (Some (1700000000, 123456), sample_vm)"
  by (simp add: fu_dt_secs_micros_def sample_date_def obj_ce_def sample_vm_def)

theorem fu_dt_secs_micros_iff_witness:
  "fu_dt_secs_micros sample_zend sample_date 1 sample_vm = (Some (1700000000, 123456), sample_vm) \<and>
   fst (fu_dt_secs_micros sample_zend (sample_date\<lparr>timelib_cache := (\<lambda>o1 vm. None)\<rparr>) 1 sample_vm) = None \<and>
   vm_exception (snd (fu_dt_secs_micros sample_zend (sample_date\<lparr>timelib_cache := (\<lambda>o1 vm. None)\<rparr>) 1 sample_vm)) \<noteq> None"
proof (intro conjI)
  let ?D = "sample_date\<lparr>timelib_cache := (\<lambda>o1 vm. None)\<rparr>"
  show "fu_dt_secs_micros sample_zend sample_date 1 sample_vm = (Some (1700000000, 123456), sample_vm)"
    using fu_dt_secs_micros_iff [of sample_zend sample_date 1 sample_vm 1700000000 123456 sample_vm]
    by (simp add: sample_date_def obj_ce_def sample_vm_def)
  show "fst (fu_dt_secs_micros sample_zend ?D 1 sample_vm) = None"
    by (simp add: fu_dt_secs_micros_def sample_date_def)
  then show "vm_exception (snd (fu_dt_secs_micros sample_zend ?D 1 sample_vm)) \<noteq> None"
    using fu_dt_secs_micros_iff [of sample_zend ?D 1 sample_vm] by blast
qed

theorem Uuid_fromDateTime_roundtrip_witness:
  "\<exists>rv vm'. Uuid_fromDateTime sample_build sample_zend sample_date 1 (None, 5, False) (7, False) sample_vm = (rv, vm') \<and>
     new_uuid (\<lambda>b. rfc_uuid 1 b \<and> fu_decode_time b = Some (1700000000, 123456)) rv vm'"
proof -
  obtain rv vm' where r: "Uuid_fromDateTime sample_build sample_zend sample_date 1 (None, 5, False) (7, False) sample_vm = (rv, vm')"
    by (cases "Uuid_fromDateTime sample_build sample_zend sample_date 1 (None, 5, False) (7, False) sample_vm")
  have "on_core (node_clockseq (None, 5, False) (7, False)) sample_vm
      = (Some (Some [0, 0, 0, 0, 0, 5], 7), sample_vm)"
    by (simp add: on_core_def node_clockseq_def fu_node_arg_def fu_clockseq_arg_def fu_parse_node_def FU_MS48_MAX_def Let_def upt_rec)
  from Uuid_fromDateTime_roundtrip [OF sample_secs _ sample_vm_inv(1,3) r, of FU_NO_SIMD "[0, 0, 0, 0, 0, 5]" 7] this r
  show ?thesis by auto
qed

theorem fu_v7_at_datetime_result_witness:
  "\<exists>r vm'. fu_v7_at_datetime sample_build sample_zend sample_date 1 sample_vm = (r, vm') \<and>
     (case r of Some b \<Rightarrow> fu_decode_time b = Some (1700000000, 123000) | None \<Rightarrow> vm_exception vm' \<noteq> None)"
proof -
  obtain r vm' where r: "fu_v7_at_datetime sample_build sample_zend sample_date 1 sample_vm = (r, vm')"
    by (cases "fu_v7_at_datetime sample_build sample_zend sample_date 1 sample_vm")
  from fu_v7_at_datetime_result [OF sample_secs _ _ sample_vm_inv(1,3) r] r
  show ?thesis by (auto simp: zend_long_range_def split: option.splits)
qed

theorem Uuid_getTimestampMillis_exact_witness:
  "Uuid_getTimestampMillis 0 sample_vm = (IS_NULL, vm_throw UnsupportedOperationException ''UUID has no embedded timestamp'' sample_vm)"
proof -
  have "bytes_of sample_vm 0 = [1, 2, 3, 4, 5, 6, 7, 8, 9, 10, 11, 12, 13, 14, 15, 16]" by (simp add: fu_from_zobj_def sample_vm_def)
  then show ?thesis
    using Uuid_getTimestampMillis_exact [OF sample_vm_inv(1), of 0] by (simp add: Let_def getVariant_ranges)
qed

theorem Uuid_getDateTime_exact_witness:
  "\<exists>rv vm'. Uuid_getDateTime sample_date 0 sample_vm = (rv, vm') \<and> (is_object rv \<or> vm_exception vm' \<noteq> None) \<and>
     secs_micros_text (- 1) 5 \<noteq> secs_micros_text 1 5"
proof -
  obtain rv vm' where r: "Uuid_getDateTime sample_date 0 sample_vm = (rv, vm')" by (cases "Uuid_getDateTime sample_date 0 sample_vm")
  from Uuid_getDateTime_exact [OF r, of 5 5 "- 1" 1] r show ?thesis by auto
qed

end
