(* ===== verification/Fu_Factory.thy ===== *)
theory Fu_Factory
  imports Fu_Date
begin

section \<open>The static factories\<close>

text \<open>
  The methods \<open>Uuid::uuid1\<close> \<dots> \<open>Uuid::fromDateTime\<close> after the engine has parsed their arguments: each
  checks its arguments in the code's order, runs a generator on the module state, and returns a new
  instance or \<open>IS_NULL\<close> with an exception pending.
\<close>

definition Uuid_uuid1 :: "('w, 'm, 's) build \<Rightarrow> str_or_long \<Rightarrow> long_or_null \<Rightarrow> 'w vm \<Rightarrow> zval \<times> 'w vm" where
  "Uuid_uuid1 B node clockseq vm =
     (case on_core (node_clockseq node clockseq) vm of
        (None, vm) \<Rightarrow> (IS_NULL, vm)
      | (Some (np, cseq), vm) \<Rightarrow> return_or_throw (on_core (fu_gen_v1_ex (plat B) np cseq) vm))"

definition Uuid_uuid2 :: "('w, 'm, 's) build \<Rightarrow> int \<Rightarrow> str_or_long \<Rightarrow> str_or_long \<Rightarrow> long_or_null \<Rightarrow> 'w vm \<Rightarrow> zval \<times> 'w vm" where
  "Uuid_uuid2 B local_domain id1 node clockseq vm =
     (if local_domain < 0 \<or> local_domain > 0xff
      then (IS_NULL, vm_throw InvalidArgumentException ''localDomain must be 0..255 (PERSON=0, GROUP=1, ORG=2)'' vm)
      else
        (case on_core (fu_local_id_arg (posix_ids B) local_domain (fst id1) (fst (snd id1)) (snd (snd id1))) vm of
           (None, vm) \<Rightarrow> (IS_NULL, vm)
         | (Some local_id, vm) \<Rightarrow>
             (case on_core (node_clockseq node clockseq) vm of
                (None, vm) \<Rightarrow> (IS_NULL, vm)
              | (Some (np, cseq), vm) \<Rightarrow>
                  (let monotonic = (\<not> snd (snd node) \<and> \<not> snd clockseq)
                   in return_or_throw
                        (on_core (fu_gen_v2 (plat B) local_id (word_of_int local_domain) np cseq monotonic) vm)))))"

text \<open>Versions 3 and 5: \<open>zns\<close> is the namespace, an object or a string.\<close>

definition Uuid_uuid3 :: "('w, 'm, 's) build \<Rightarrow> 'w zend \<Rightarrow> zval \<Rightarrow> byte list \<Rightarrow> 'w vm \<Rightarrow> zval \<times> 'w vm" where
  "Uuid_uuid3 B Z zns name vm =
     (case fu_resolve_uuid B Z zns vm of
        (None, vm) \<Rightarrow>
          (IS_NULL, if vm_exception vm = None then vm_throw InvalidArgumentException ''Invalid namespace'' vm else vm)
      | (Some ns, vm) \<Rightarrow>
          (case on_core (fu_gen_v3 (MD5 B) ns name) vm of
             (b, vm) \<Rightarrow> if vm_exception vm \<noteq> None then (IS_NULL, vm) else fu_return_uuid (the b) vm))"

definition Uuid_uuid4 :: "('w, 'm, 's) build \<Rightarrow> 'w vm \<Rightarrow> zval \<times> 'w vm" where
  "Uuid_uuid4 B vm = return_or_throw (on_core (fu_gen_v4 (plat B)) vm)"

definition Uuid_uuid5 :: "('w, 'm, 's) build \<Rightarrow> 'w zend \<Rightarrow> zval \<Rightarrow> byte list \<Rightarrow> 'w vm \<Rightarrow> zval \<times> 'w vm" where
  "Uuid_uuid5 B Z zns name vm =
     (case fu_resolve_uuid B Z zns vm of
        (None, vm) \<Rightarrow>
          (IS_NULL, if vm_exception vm = None then vm_throw InvalidArgumentException ''Invalid namespace'' vm else vm)
      | (Some ns, vm) \<Rightarrow>
          (case on_core (fu_gen_v5 (SHA1 B) ns name) vm of
             (b, vm) \<Rightarrow> if vm_exception vm \<noteq> None then (IS_NULL, vm) else fu_return_uuid (the b) vm))"

definition Uuid_uuid6 :: "('w, 'm, 's) build \<Rightarrow> str_or_long \<Rightarrow> long_or_null \<Rightarrow> 'w vm \<Rightarrow> zval \<times> 'w vm" where
  "Uuid_uuid6 B node clockseq vm =
     (case on_core (node_clockseq node clockseq) vm of
        (None, vm) \<Rightarrow> (IS_NULL, vm)
      | (Some (np, cseq), vm) \<Rightarrow> return_or_throw (on_core (fu_gen_v6_ex (plat B) np cseq) vm))"

text \<open>\<open>zend_argument_type_error\<close> throws PHP's \<open>TypeError\<close>.\<close>

definition vm_type_error :: "'w vm \<Rightarrow> 'w vm" where
  "vm_type_error vm = vm\<lparr>core := (core vm)\<lparr>EG_exception := Some (Foreign 0)\<rparr>\<rparr>"

text \<open>An omitted argument and null are the same.\<close>

definition Uuid_uuid7 :: "('w, 'm, 's) build \<Rightarrow> 'w zend \<Rightarrow> 'w date_api \<Rightarrow> zval \<Rightarrow> 'w vm \<Rightarrow> zval \<times> 'w vm" where
  "Uuid_uuid7 B Z D when_arg vm =
     (case when_arg of
        IS_NULL \<Rightarrow> return_or_throw (on_core (fu_gen_v7 (plat B)) vm)
      | IS_LONG ms \<Rightarrow> return_or_throw (on_core (fu_v7_at_ms (plat B) ms) vm)
      | IS_OBJECT o1 \<Rightarrow>
          if instanceof_function Z (obj_ce Z vm o1) (date_interface_ce D)
          then return_or_throw (fu_v7_at_datetime B Z D o1 vm)
          else (IS_NULL, vm_type_error vm)
      | _ \<Rightarrow> (IS_NULL, vm_type_error vm))"

definition Uuid_uuid8 :: "byte list \<Rightarrow> 'w vm \<Rightarrow> zval \<times> 'w vm" where
  "Uuid_uuid8 data vm =
     (if length data \<noteq> 16 then (IS_NULL, vm_throw InvalidArgumentException ''uuid8 requires 16 bytes'' vm)
      else fu_return_uuid (fu_gen_v8 data) vm)"

definition Uuid_fromString :: "('w, 'm, 's) build \<Rightarrow> byte list \<Rightarrow> 'w vm \<Rightarrow> zval \<times> 'w vm" where
  "Uuid_fromString B str vm =
     (case fu_parse (strncase B) str of
        None \<Rightarrow> (IS_NULL, vm_throw InvalidUuidStringException
                   (''Invalid UUID string (len='' @ map (\<lambda>c. char_of (unat c)) (dec_string (length str)) @ '')'') vm)
      | Some b \<Rightarrow> fu_return_uuid b vm)"

definition Uuid_fromBytes :: "byte list \<Rightarrow> 'w vm \<Rightarrow> zval \<times> 'w vm" where
  "Uuid_fromBytes str vm =
     (if length str \<noteq> 16 then (IS_NULL, vm_throw InvalidArgumentException ''UUID bytes must be 16 long'' vm)
      else fu_return_uuid str vm)"

definition Uuid_fromInteger :: "byte list \<Rightarrow> 'w vm \<Rightarrow> zval \<times> 'w vm" where
  "Uuid_fromInteger str vm =
     (case fu_from_decimal str of
        None \<Rightarrow> (IS_NULL, vm_throw InvalidArgumentException ''Invalid integer'' vm)
      | Some b \<Rightarrow> fu_return_uuid b vm)"

definition Uuid_isValid :: "('w, 'm, 's) build \<Rightarrow> byte list \<Rightarrow> 'w vm \<Rightarrow> zval \<times> 'w vm" where
  "Uuid_isValid B str vm = (IS_BOOL (fu_parse (strncase B) str \<noteq> None), vm)"

text \<open>The argument is a stringable object or a string.\<close>

definition Uuid_fromHexadecimal :: "('w, 'm, 's) build \<Rightarrow> 'w zend \<Rightarrow> nat + byte list \<Rightarrow> 'w vm \<Rightarrow> zval \<times> 'w vm" where
  "Uuid_fromHexadecimal B Z arg vm =
     (case (case arg of Inl o1 \<Rightarrow> get_string Z o1 vm | Inr str \<Rightarrow> (str, vm)) of
        (str, vm) \<Rightarrow>
          if (case arg of Inl _ \<Rightarrow> vm_exception vm \<noteq> None | Inr _ \<Rightarrow> False) then (IS_NULL, vm)
          else (case (if length str = 32 then fu_parse (strncase B) str else None) of
                  None \<Rightarrow> (IS_NULL, vm_throw InvalidUuidStringException
                             ''Invalid hexadecimal UUID (expect 32 hex chars)'' vm)
                | Some b \<Rightarrow> fu_return_uuid b vm))"

subsection \<open>What a factory returns\<close>

datatype factory =
  F_uuid1 str_or_long long_or_null | F_uuid2 int str_or_long str_or_long long_or_null | F_uuid3 zval "byte list" | F_uuid4 |
  F_uuid5 zval "byte list" | F_uuid6 str_or_long long_or_null | F_uuid7 zval | F_uuid8 "byte list" | F_fromString "byte list" |
  F_fromBytes "byte list" | F_fromInteger "byte list" | F_fromHexadecimal "nat + byte list" |
  F_fromDateTime nat str_or_long long_or_null

fun factory_run :: "('w, 'm, 's) build \<Rightarrow> 'w zend \<Rightarrow> 'w date_api \<Rightarrow> factory \<Rightarrow> 'w vm \<Rightarrow> zval \<times> 'w vm" where
  "factory_run B Z D (F_uuid1 node cs) = Uuid_uuid1 B node cs"
| "factory_run B Z D (F_uuid2 dm lid node cs) = Uuid_uuid2 B dm lid node cs"
| "factory_run B Z D (F_uuid3 zns name) = Uuid_uuid3 B Z zns name"
| "factory_run B Z D F_uuid4 = Uuid_uuid4 B"
| "factory_run B Z D (F_uuid5 zns name) = Uuid_uuid5 B Z zns name"
| "factory_run B Z D (F_uuid6 node cs) = Uuid_uuid6 B node cs"
| "factory_run B Z D (F_uuid7 w) = Uuid_uuid7 B Z D w"
| "factory_run B Z D (F_uuid8 data) = Uuid_uuid8 data"
| "factory_run B Z D (F_fromString str) = Uuid_fromString B str"
| "factory_run B Z D (F_fromBytes str) = Uuid_fromBytes str"
| "factory_run B Z D (F_fromInteger str) = Uuid_fromInteger str"
| "factory_run B Z D (F_fromHexadecimal arg) = Uuid_fromHexadecimal B Z arg"
| "factory_run B Z D (F_fromDateTime o1 node cs) = Uuid_fromDateTime B Z D o1 node cs"

text \<open>The arguments as the code sees them: the 16 bytes of a namespace, the text of a string or Stringable argument, and
  the second and microsecond of a date; and the machine as the userland code run to get at them left it.\<close>

abbreviation ns_bytes :: "('w, 'm, 's) build \<Rightarrow> 'w zend \<Rightarrow> 'w vm \<Rightarrow> zval \<Rightarrow> byte list option" where
  "ns_bytes B Z vm zns \<equiv> fst (fu_resolve_uuid B Z zns vm)"

definition arg_text :: "'w zend \<Rightarrow> 'w vm \<Rightarrow> nat + byte list \<Rightarrow> byte list" where
  "arg_text Z vm arg = (case arg of Inl o1 \<Rightarrow> fst (get_string Z o1 vm) | Inr str \<Rightarrow> str)"

abbreviation date_time :: "'w zend \<Rightarrow> 'w date_api \<Rightarrow> 'w vm \<Rightarrow> nat \<Rightarrow> (int \<times> u32) option" where
  "date_time Z D vm o1 \<equiv> fst (fu_dt_secs_micros Z D o1 vm)"

fun args_read :: "('w, 'm, 's) build \<Rightarrow> 'w zend \<Rightarrow> 'w date_api \<Rightarrow> factory \<Rightarrow> 'w vm \<Rightarrow> 'w vm" where
  "args_read B Z D (F_uuid3 zns name) vm = snd (fu_resolve_uuid B Z zns vm)"
| "args_read B Z D (F_uuid5 zns name) vm = snd (fu_resolve_uuid B Z zns vm)"
| "args_read B Z D (F_uuid7 (IS_OBJECT o1)) vm =
     (if instanceof_function Z (obj_ce Z vm o1) (date_interface_ce D) then snd (fu_dt_secs_micros Z D o1 vm) else vm)"
| "args_read B Z D (F_fromHexadecimal (Inl o1)) vm = snd (get_string Z o1 vm)"
| "args_read B Z D (F_fromDateTime o1 node cs) vm = snd (fu_dt_secs_micros Z D o1 vm)"
| "args_read B Z D f vm = vm"

text \<open>A name-based UUID has the bytes of the digest of namespace and name, but for the two that are stamped.\<close>

definition name_bytes :: "'c digest \<Rightarrow> byte list \<Rightarrow> byte list \<Rightarrow> byte list \<Rightarrow> bool" where
  "name_bytes dg ns name b \<longleftrightarrow>
     (\<forall>i < 16. i \<noteq> 6 \<and> i \<noteq> 8 \<longrightarrow> b ! i = Final dg (Update dg (Update dg (Init dg) ns) name) ! i)"

text \<open>What the bytes of the new instance are.\<close>

fun factory_bytes :: "('w, 'm, 's) build \<Rightarrow> 'w zend \<Rightarrow> 'w date_api \<Rightarrow> 'w vm \<Rightarrow> factory \<Rightarrow> byte list \<Rightarrow> bool" where
  "factory_bytes B Z D vm (F_uuid1 node cs) b = rfc_uuid 1 b"
| "factory_bytes B Z D vm (F_uuid2 dm lid node cs) b = rfc_uuid 2 b"
| "factory_bytes B Z D vm (F_uuid3 zns name) b =
     (rfc_uuid 3 b \<and> (\<exists>ns. ns_bytes B Z vm zns = Some ns \<and> name_bytes (MD5 B) ns name b))"
| "factory_bytes B Z D vm F_uuid4 b = rfc_uuid 4 b"
| "factory_bytes B Z D vm (F_uuid5 zns name) b =
     (rfc_uuid 5 b \<and> (\<exists>ns. ns_bytes B Z vm zns = Some ns \<and> name_bytes (SHA1 B) ns name b))"
| "factory_bytes B Z D vm (F_uuid6 node cs) b = rfc_uuid 6 b"
| "factory_bytes B Z D vm (F_uuid7 w) b =
     (rfc_uuid 7 b \<and>
      (case w of
         IS_LONG ms \<Rightarrow> int (be_nat (take 6 b)) = ms
       | IS_OBJECT o1 \<Rightarrow>
           (\<exists>secs micros. date_time Z D vm o1 = Some (secs, micros) \<and>
              uuid_time b = Some (secs, uint micros div 1000 * 1000))
       | _ \<Rightarrow> w = IS_NULL))"
| "factory_bytes B Z D vm (F_uuid8 data) b =
     (length data = 16 \<and> rfc_uuid 8 b \<and> (\<forall>i < 16. i \<noteq> 6 \<and> i \<noteq> 8 \<longrightarrow> b ! i = data ! i))"
| "factory_bytes B Z D vm (F_fromString str) b = (fu_parse (strncase B) str = Some b)"
| "factory_bytes B Z D vm (F_fromBytes str) b = (length b = 16 \<and> b = str)"
| "factory_bytes B Z D vm (F_fromInteger str) b = (length b = 16 \<and> canonical_decimal str \<and> dec_val str = be_nat b)"
| "factory_bytes B Z D vm (F_fromHexadecimal arg) b =
     (length (arg_text Z vm arg) = 32 \<and> fu_parse (strncase B) (arg_text Z vm arg) = Some b)"
| "factory_bytes B Z D vm (F_fromDateTime o1 node cs) b =
     (rfc_uuid 1 b \<and> (\<exists>secs micros. date_time Z D vm o1 = Some (secs, micros) \<and> uuid_time b = Some (secs, uint micros)))"

fun factory_args_ok :: "factory \<Rightarrow> bool" where
  "factory_args_ok (F_uuid7 (IS_LONG ms)) = zend_long_range ms"
| "factory_args_ok f = True"

text \<open>What ext/date is relied on for: its calls keep the invariant (userland overrides included), the
  microseconds of a date are below a million, and seconds are 64-bit.\<close>

definition date_ok :: "fu_simd \<Rightarrow> 'w date_api \<Rightarrow> bool" where
  "date_ok h D \<longleftrightarrow>
     (\<forall>o1 vm. vm_inv h vm \<longrightarrow> vm_inv h (snd (snd (getTimestamp D o1 vm))) \<and> vm_inv h (snd (snd (format_u D o1 vm)))) \<and>
     (\<forall>o1 vm secs. fst (snd (getTimestamp D o1 vm)) = IS_LONG secs \<longrightarrow> zend_long_range secs) \<and>
     (\<forall>o1 vm secs us. timelib_cache D o1 vm = Some (secs, us) \<longrightarrow> zend_long_range secs \<and> 0 \<le> us \<and> us < 1000000)"

text \<open>What a factory does to the store it found: it adds one instance, under a handle that was free, or nothing, and
  touches no object.\<close>

definition created :: "'w vm \<Rightarrow> zval \<Rightarrow> 'w vm \<Rightarrow> bool" where
  "created vm rv vm' \<longleftrightarrow>
     (if rv = IS_NULL then objects vm' = objects vm
      else \<exists>o1 u. rv = IS_OBJECT o1 \<and> objects vm o1 = None \<and> objects vm' = (objects vm)(o1 \<mapsto> Uuid u))"

definition factory_outcome :: "fu_simd \<Rightarrow> 'w vm \<Rightarrow> (byte list \<Rightarrow> bool) \<Rightarrow> zval \<times> 'w vm \<Rightarrow> bool" where
  "factory_outcome h vm Q r \<longleftrightarrow> vm_inv h (snd r) \<and> (vm_exception (snd r) = None \<longleftrightarrow> fst r \<noteq> IS_NULL) \<and>
     (fst r \<noteq> IS_NULL \<longrightarrow> new_uuid Q (fst r) (snd r)) \<and> created vm (fst r) (snd r)"

lemma outcome_throw [simp]:
  "factory_outcome h v0 Q (IS_NULL, vm) \<longleftrightarrow> vm_inv h vm \<and> vm_exception vm \<noteq> None \<and> objects vm = objects v0"
  by (auto simp: factory_outcome_def created_def)

lemma vm_throw_exception [simp]: "vm_exception (vm_throw ce msg vm) = Some (Exn ce msg)"
  by (simp add: zend_throw_def)

lemma vm_type_error_facts [simp]: "vm_inv h (vm_type_error vm) \<longleftrightarrow> vm_inv h vm" "vm_exception (vm_type_error vm) \<noteq> None"
  "objects (vm_type_error vm) = objects vm"
  by (simp_all add: vm_type_error_def vm_inv_def fu_inv_def)

lemma outcome_return:
  assumes "vm_inv h vm" and "vm_exception vm = None" and "length b = 16" and "Q b" and "objects vm = objects v0"
  shows "factory_outcome h v0 Q (fu_return_uuid b vm)"
proof -
  obtain rv vm' where r: "fu_return_uuid b vm = (rv, vm')" by (cases "fu_return_uuid b vm")
  have "vm_inv h vm'" using fu_return_uuid_inv [OF assms(1,3)] r by simp
  moreover have "new_uuid Q rv vm' \<and> vm_exception vm' = None" by (rule return_uuid_new [where Q = Q, OF assms(2) r assms(4)])
  moreover have "rv \<noteq> IS_NULL" using assms(2) r by (auto simp: fu_return_uuid_eq)
  moreover have "created v0 rv vm'"
    using r fu_return_uuid_eq [OF assms(2), of b] next_object_free [OF vm_inv_store [OF assms(1)]] assms(5)
    by (auto simp: created_def)
  ultimately show ?thesis by (simp add: factory_outcome_def r)
qed

context uuid_generator
begin

lemma factory:
  assumes "vm_inv h vm" and "vm_exception vm = None" and "valid i"
    and "\<And>b s s'. gen i s = (Some b, s') \<Longrightarrow> rfc_uuid ver b \<Longrightarrow> Q b"
  shows "factory_outcome h vm Q (return_or_throw (on_core (gen i) vm))"
proof (rule outcome_cases [OF vm_inv_core [OF assms(1)] assms(2,3)])
  fix b s' assume g: "gen i (core vm) = (Some b, s')" "rfc_uuid ver b" "fu_inv s'" "EG_exception s' = None"
  then have "factory_outcome h vm Q (fu_return_uuid b (vm\<lparr>core := s'\<rparr>))"
    using vm_inv_core_update [OF assms(1) g(3)] assms(4) [OF g(1)] by (intro outcome_return) (simp_all add: rfc_uuid_length)
  then show ?thesis by (simp add: return_or_throw_def on_core_def g(1))
next
  fix s' assume g: "gen i (core vm) = (None, s')" "fu_inv s'" "EG_exception s' \<noteq> None"
  then show ?thesis using vm_inv_core_update [OF assms(1) g(2)] by (simp add: return_or_throw_def on_core_def)
qed

end

lemma dt_secs_micros_props:
  assumes "date_ok h D" and "vm_inv h vm" and "vm_exception vm = None"
  obtains (ok) secs micros vm1 where "fu_dt_secs_micros Z D dtobj vm = (Some (secs, micros), vm1)" "micros < 1000000"
      "zend_long_range secs" "vm_inv h vm1" "vm_exception vm1 = None"
    | (fail) vm1 where "fu_dt_secs_micros Z D dtobj vm = (None, vm1)" "vm_inv h vm1" "vm_exception vm1 \<noteq> None"
proof -
  obtain cr ret vm1 where t: "getTimestamp D dtobj vm = (cr, ret, vm1)" by (cases "getTimestamp D dtobj vm")
  obtain cr2 ret2 vm2 where f: "format_u D dtobj vm1 = (cr2, ret2, vm2)" by (cases "format_u D dtobj vm1")
  have g: "vm_inv h (snd (snd (getTimestamp D dtobj v))) \<and> vm_inv h (snd (snd (format_u D dtobj v)))" if "vm_inv h v" for v
    using assms(1) that unfolding date_ok_def by blast
  have i1: "vm_inv h vm1" using g [OF assms(2)] t by simp
  have i2: "vm_inv h vm2" using g [OF i1] f by simp
  obtain r vm' where r: "fu_dt_secs_micros Z D dtobj vm = (r, vm')" by (cases "fu_dt_secs_micros Z D dtobj vm")
  note I = dt_secs_micros_iff [of Z D dtobj vm]
  show thesis
  proof (cases r)
    case None
    have "vm' \<in> {vm1, vm2} \<or> (\<exists>ce msg. vm' \<in> {vm_throw ce msg vm1, vm_throw ce msg vm2})"
      using r None unfolding fu_dt_secs_micros_def t by (auto simp: f split: option.splits if_splits zval.splits)
    then have "vm_inv h vm'" using i1 i2 by auto
    then show thesis using fail r None I [THEN conjunct2] by simp
  next
    case (Some x)
    obtain secs micros where x: "x = (secs, micros)" by (cases x)
    show thesis
    proof (cases "obj_ce Z vm dtobj \<in> {date_immutable_ce D, date_ce D} \<and> timelib_cache D dtobj vm \<noteq> None")
      case True
      then obtain us where us: "timelib_cache D dtobj vm = Some (secs, us)" "micros = word_of_int us" "vm' = vm"
        using I [THEN conjunct1, of secs micros vm'] r Some x by auto
      with assms(1) have "zend_long_range secs" "0 \<le> us" "us < 1000000" unfolding date_ok_def by blast+
      then show thesis using ok r Some x us assms(2,3) by (simp add: word_less_def uint_word_of_int)
    next
      case False
      then have "\<exists>vm1 mv. getTimestamp D dtobj vm = (SUCCESS, IS_LONG secs, vm1) \<and> vm_exception vm1 = None \<and>
              format_u D dtobj vm1 = (SUCCESS, IS_STRING mv, vm') \<and> vm_exception vm' = None \<and>
              length mv = 6 \<and> list_all is_digit mv \<and> unat micros = dec_val mv \<and> dec_val mv < 1000000"
        using I [THEN conjunct1, of secs micros vm'] r Some x unfolding if_not_P [OF False] by simp
      then have s: "ret = IS_LONG secs" "vm' = vm2" "vm_exception vm' = None" "unat micros < 1000000" using t f by auto
      have "zend_long_range secs" using assms(1) t s(1) unfolding date_ok_def by (metis fst_conv snd_conv)
      then show thesis using ok r Some x s i2 by (simp add: word_less_nat_alt)
    qed
  qed
qed

lemma name_based_outcome:
  assumes "vm_inv h vm" and "zend_ok h Z" and "vm_exception vm = None"
    and gen: "\<And>ns s. fu_inv s \<Longrightarrow> EG_exception s = None \<Longrightarrow> gen_outcome v (gen ns s)"
    and name: "\<And>ns s b s'. gen ns s = (Some b, s') \<Longrightarrow> name_bytes dg ns nm b"
  shows "factory_outcome h (snd (fu_resolve_uuid B Z zns vm))
      (\<lambda>b. rfc_uuid v b \<and> (\<exists>ns. ns_bytes B Z vm zns = Some ns \<and> name_bytes dg ns nm b))
    (case fu_resolve_uuid B Z zns vm of
       (None, vm) \<Rightarrow>
         (IS_NULL, if vm_exception vm = None then vm_throw InvalidArgumentException ''Invalid namespace'' vm else vm)
     | (Some ns, vm) \<Rightarrow>
         (case on_core (gen ns) vm of
            (b, vm) \<Rightarrow> if vm_exception vm \<noteq> None then (IS_NULL, vm) else fu_return_uuid (the b) vm))"
proof -
  obtain r vm1 where r: "fu_resolve_uuid B Z zns vm = (r, vm1)" by (cases "fu_resolve_uuid B Z zns vm")
  note p = fu_resolve_uuid_props [OF assms(1-3) r]
  show ?thesis
  proof (cases r)
    case None
    with p show ?thesis by (auto simp: r)
  next
    case (Some ns)
    obtain b s' where g: "gen ns (core vm1) = (b, s')" by (cases "gen ns (core vm1)")
    have o: "gen_outcome v (b, s')" using gen [of "core vm1" ns] p Some g vm_inv_core [of h vm1] by auto
    have c: "on_core (gen ns) vm1 = (b, vm1\<lparr>core := s'\<rparr>)" by (simp add: on_core_def g)
    have inv: "vm_inv h (vm1\<lparr>core := s'\<rparr>)"
      using p o by (intro vm_inv_core_update) (auto simp: gen_outcome_def)
    show ?thesis
    proof (cases b)
      case None
      then show ?thesis using o inv by (simp add: r Some c)
    next
      case (Some b1)
      with g have n: "name_bytes dg ns nm b1" by (auto intro: name)
      have "factory_outcome h vm1 (\<lambda>b. rfc_uuid v b \<and> (\<exists>ns. ns_bytes B Z vm zns = Some ns \<and> name_bytes dg ns nm b))
          (fu_return_uuid b1 (vm1\<lparr>core := s'\<rparr>))"
        using o inv n Some \<open>r = Some ns\<close> by (intro outcome_return) (auto dest: rfc_uuid_length simp: r)
      then show ?thesis using o Some \<open>r = Some ns\<close> by (simp add: r c)
    qed
  qed
qed

lemma node_clockseq_outcome:
  assumes "vm_inv h vm"
    and "\<And>np cseq. args_ok np cseq \<Longrightarrow> factory_outcome h vm Q (k np cseq vm)"
  shows "factory_outcome h vm Q
    (case on_core (node_clockseq node clockseq) vm of (None, vm) \<Rightarrow> (IS_NULL, vm) | (Some (np, cseq), vm) \<Rightarrow> k np cseq vm)"
proof (rule node_clockseq_cases [of node clockseq "core vm"])
  fix np cseq assume n: "node_clockseq node clockseq (core vm) = (Some (np, cseq), core vm)" "args_ok np cseq"
  have "on_core (node_clockseq node clockseq) vm = (Some (np, cseq), vm)" by (simp add: on_core_def n(1))
  then show ?thesis using assms(2) [OF n(2)] by simp
next
  fix msg assume n: "node_clockseq node clockseq (core vm) = (None, zend_throw InvalidArgumentException msg (core vm))"
  have "on_core (node_clockseq node clockseq) vm = (None, vm_throw InvalidArgumentException msg vm)"
    by (simp add: on_core_def n vm_throw_def)
  then show ?thesis using assms(1) by simp
qed

lemma uuid2_outcome:
  assumes "vm_inv h vm" and "vm_exception vm = None"
  shows "factory_outcome h vm (rfc_uuid 2) (Uuid_uuid2 B dm lid node cs vm)"
proof (cases "dm < 0 \<or> dm > 0xff")
  case True
  then show ?thesis using assms(1) by (auto simp: Uuid_uuid2_def)
next
  case False
  obtain r s where l: "fu_local_id_arg (posix_ids B) dm (fst lid) (fst (snd lid)) (snd (snd lid)) (core vm) = (r, s)"
    by (cases "fu_local_id_arg (posix_ids B) dm (fst lid) (fst (snd lid)) (snd (snd lid)) (core vm)")
  have s: "s = core vm \<and> r \<noteq> None \<or> r = None \<and> (\<exists>msg. s = zend_throw InvalidArgumentException msg (core vm))"
    using l by (auto simp: fu_local_id_arg_def Let_def split: if_splits option.splits prod.splits)
  note e = Uuid_uuid2_def on_core_eq [of "fu_local_id_arg (posix_ids B) dm (fst lid) (fst (snd lid)) (snd (snd lid))", OF l] if_not_P [OF False]
  show ?thesis
  proof (cases r)
    case None
    with s obtain msg where "vm\<lparr>core := s\<rparr> = vm_throw InvalidArgumentException msg vm" by (auto simp: vm_throw_def)
    then show ?thesis using assms(1) None by (simp add: e)
  next
    case (Some local_id)
    then have "vm\<lparr>core := s\<rparr> = vm" using s by simp
    then show ?thesis
      using Some v2_gen.factory [OF assms, where i = "(plat B, local_id, word_of_int dm, np, cseq, mon)" and Q = "rfc_uuid 2" for np cseq mon]
      by (simp only: e prod.case option.case Let_def)
         (rule node_clockseq_outcome [OF assms(1)], simp add: v2_call_def)
  qed
qed

lemma on_core_cong: "(\<And>s. f s = g s) \<Longrightarrow> on_core f vm = on_core g vm"
  by (simp add: on_core_def)

lemma v7_at_ms_outcome:
  assumes "vm_inv h vm" and "vm_exception vm = None" and "zend_long_range ms"
  shows "factory_outcome h vm (\<lambda>b. rfc_uuid 7 b \<and> int (be_nat (take 6 b)) = ms) (return_or_throw (on_core (fu_v7_at_ms P ms) vm))"
proof (rule fu_v7_at_ms_cases [OF assms(3), of P])
  assume m: "0 \<le> ms" "ms < 2 ^ 48" "fu_v7_at_ms P ms = v7_at_call (P, word_of_int ms, 0)" "word_of_int ms < (2 ^ 48 :: u64)"
  have "int (unat (word_of_int ms :: u64)) = ms" using m(1,2) by (simp add: unsigned_of_int take_bit_int_eq_self)
  then have "int (be_nat (take 6 b)) = ms" if "v7_at_call (P, word_of_int ms, 0) s = (Some b, s')" for b and s s' :: "'a st"
    using that v7_bytes_fields [OF m(4)] by (auto simp: v7_at_call_def fu_gen_v7_at_def split: prod.splits option.splits)
  then show ?thesis unfolding m(3) by (intro v7_at_gen.factory [OF assms(1,2)]) (use m(4) in simp_all)
next
  fix msg assume "fu_v7_at_ms P ms = (\<lambda>s. (None, zend_throw InvalidArgumentException msg s))"
  then show ?thesis using assms(1) by (simp add: return_or_throw_def on_core_def vm_throw_def [symmetric])
qed

lemma uuid_time_decode: "length b = 16 \<Longrightarrow> fu_decode_time b = Some (secs, micros) \<Longrightarrow> uuid_time b = Some (secs, uint micros)"
  using fu_decode_time_uuid_time [of b] by simp

lemma v7_at_datetime_outcome:
  assumes "vm_inv h vm" and "vm_exception vm = None" and "date_ok h D"
  shows "factory_outcome h (snd (fu_dt_secs_micros Z D dtobj vm)) (\<lambda>b. rfc_uuid 7 b \<and>
      (\<exists>secs micros. date_time Z D vm dtobj = Some (secs, micros) \<and> uuid_time b = Some (secs, uint micros div 1000 * 1000)))
    (return_or_throw (fu_v7_at_datetime B Z D dtobj vm))"
    (is "factory_outcome h _ ?Q _")
proof (rule dt_secs_micros_props [OF assms(3,1,2), of Z dtobj])
  fix secs micros vm1 assume d: "fu_dt_secs_micros Z D dtobj vm = (Some (secs, micros), vm1)" "micros < 1000000"
    "zend_long_range secs" "vm_inv h vm1" "vm_exception vm1 = None"
  obtain r vm' where r: "fu_v7_at_datetime B Z D dtobj vm = (r, vm')" by (cases "fu_v7_at_datetime B Z D dtobj vm")
  note p = v7_at_datetime_facts [OF d r]
  have o: "objects vm' = objects vm1" by (rule v7_at_datetime_objects [OF d(1) r])
  show ?thesis
  proof (cases r)
    case None
    then show ?thesis using p o r by (auto simp: return_or_throw_def d(1) split: if_splits)
  next
    case (Some b)
    have b: "rfc_uuid 7 b" "fu_decode_time b = Some (secs, of_nat (unat micros div 1000 * 1000))" "vm_exception vm' = None"
      using p Some by (auto split: if_splits)
    have "unat micros < 1000000" using d(2) by (simp add: word_less_nat_alt)
    then have "unat micros div 1000 * 1000 < 1000000" using div_times_less_eq_dividend [of "unat micros" 1000] by linarith
    from uint_of_nat_micros [OF this]
    have "uint (of_nat (unat micros div 1000 * 1000) :: u32) = int (unat micros) div 1000 * 1000"
      by (simp only: of_nat_mult zdiv_int of_nat_numeral)
    then have "uint (of_nat (unat micros div 1000 * 1000) :: u32) = uint micros div 1000 * 1000" by simp
    then have "?Q b" using uuid_time_decode [OF rfc_uuid_length [OF b(1)] b(2)] b(1) d(1) by simp
    then have "factory_outcome h vm1 ?Q (fu_return_uuid b vm')"
      using p b o rfc_uuid_length [OF b(1)] by (intro outcome_return) simp_all
    then show ?thesis by (simp add: return_or_throw_def r Some d(1))
  qed
next
  fix vm1 assume "fu_dt_secs_micros Z D dtobj vm = (None, vm1)" "vm_inv h vm1" "vm_exception vm1 \<noteq> None"
  then show ?thesis by (simp add: return_or_throw_def fu_v7_at_datetime_def)
qed

lemma fromDateTime_outcome:
  assumes "vm_inv h vm" and "vm_exception vm = None" and "date_ok h D"
  shows "factory_outcome h (snd (fu_dt_secs_micros Z D dtobj vm)) (\<lambda>b. rfc_uuid 1 b \<and>
      (\<exists>secs micros. date_time Z D vm dtobj = Some (secs, micros) \<and> uuid_time b = Some (secs, uint micros)))
    (Uuid_fromDateTime B Z D dtobj node cs vm)"
    (is "factory_outcome h _ ?Q _")
proof (rule dt_secs_micros_props [OF assms(3,1,2), of Z dtobj])
  fix secs micros vm1 assume d: "fu_dt_secs_micros Z D dtobj vm = (Some (secs, micros), vm1)" "micros < 1000000"
    "vm_inv h vm1" "vm_exception vm1 = None"
  show ?thesis
    unfolding Uuid_fromDateTime_def d(1) prod.case option.case snd_conv
  proof (rule node_clockseq_outcome [OF d(3)])
    fix np cseq assume a: "args_ok np cseq"
    obtain r vm' where r: "v1_at B secs micros np cseq vm1 = (r, vm')" by (cases "v1_at B secs micros np cseq vm1")
    note p = v1_at_cases [OF d(3) a d(2) r]
    have o: "objects vm' = objects vm1" using r by (auto simp: v1_at_def on_core_def Let_def split: if_splits prod.splits)
    show "factory_outcome h vm1 (\<lambda>b. rfc_uuid 1 b \<and> (\<exists>s m. fst (Some (secs, micros), vm1) = Some (s, m) \<and>
        uuid_time b = Some (s, uint m))) (return_or_throw (v1_at B secs micros np cseq vm1))"
    proof (cases r)
      case None
      then show ?thesis using p r o by (auto simp: return_or_throw_def split: if_splits)
    next
      case (Some b)
      have b: "rfc_uuid 1 b" "fu_decode_time b = Some (secs, micros)" "vm_exception vm' = None"
        using p Some d(4) by (auto split: if_splits)
      have "factory_outcome h vm1 (\<lambda>b. rfc_uuid 1 b \<and> (\<exists>s m. fst (Some (secs, micros), vm1) = Some (s, m) \<and>
          uuid_time b = Some (s, uint m))) (fu_return_uuid b vm')"
        using p b o rfc_uuid_length [OF b(1)] uuid_time_decode [OF rfc_uuid_length [OF b(1)] b(2)]
        by (intro outcome_return) simp_all
      then show ?thesis by (simp add: return_or_throw_def r Some)
    qed
  qed
next
  fix vm1 assume "fu_dt_secs_micros Z D dtobj vm = (None, vm1)" "vm_inv h vm1" "vm_exception vm1 \<noteq> None"
  then show ?thesis by (simp add: Uuid_fromDateTime_def)
qed

lemma uuid7_outcome:
  assumes "vm_inv h vm" and "vm_exception vm = None" and "date_ok h D" and "factory_args_ok (F_uuid7 w)"
  shows "factory_outcome h (args_read B Z D (F_uuid7 w) vm) (factory_bytes B Z D vm (F_uuid7 w)) (Uuid_uuid7 B Z D w vm)"
proof (cases w)
  case IS_NULL
  then show ?thesis
    using v7_gen.factory [OF assms(1,2), where i = "plat B" and Q = "factory_bytes B Z D vm (F_uuid7 w)"]
    by (simp add: Uuid_uuid7_def)
next
  case (IS_LONG ms)
  have "factory_bytes B Z D vm (F_uuid7 (IS_LONG ms)) = (\<lambda>b. rfc_uuid 7 b \<and> int (be_nat (take 6 b)) = ms)"
    by (simp add: fun_eq_iff)
  then show ?thesis
    using v7_at_ms_outcome [OF assms(1,2), of ms "plat B"] assms(4) by (simp add: IS_LONG Uuid_uuid7_def)
next
  case (IS_OBJECT o1)
  have "factory_bytes B Z D vm (F_uuid7 (IS_OBJECT o1)) = (\<lambda>b. rfc_uuid 7 b \<and>
      (\<exists>secs micros. date_time Z D vm o1 = Some (secs, micros) \<and> uuid_time b = Some (secs, uint micros div 1000 * 1000)))"
    by (simp add: fun_eq_iff)
  then show ?thesis
    using v7_at_datetime_outcome [OF assms(1-3), of Z o1 B] assms(1) by (simp add: IS_OBJECT Uuid_uuid7_def)
qed (use assms(1) in \<open>simp_all add: Uuid_uuid7_def\<close>)

lemma fromHexadecimal_outcome:
  assumes "vm_inv h vm" and "vm_exception vm = None" and "zend_ok h Z"
  shows "factory_outcome h (args_read B Z D (F_fromHexadecimal arg) vm) (factory_bytes B Z D vm (F_fromHexadecimal arg))
    (Uuid_fromHexadecimal B Z arg vm)"
proof -
  obtain str vm1 where g: "(case arg of Inl o1 \<Rightarrow> get_string Z o1 vm | Inr str \<Rightarrow> (str, vm)) = (str, vm1)"
    by (cases "(case arg of Inl o1 \<Rightarrow> get_string Z o1 vm | Inr str \<Rightarrow> (str, vm))")
  have inv: "vm_inv h vm1"
    using g assms(1) zend_okD(2) [OF assms(3,1)] by (cases arg) auto
  have e: "arg_text Z vm arg = str" "args_read B Z D (F_fromHexadecimal arg) vm = vm1"
    using g by (cases arg; simp add: arg_text_def)+
  show ?thesis
  proof (cases "vm_exception vm1")
    case None
    then have u: "Uuid_fromHexadecimal B Z arg vm
        = (case (if length str = 32 then fu_parse (strncase B) str else None) of
             None \<Rightarrow> (IS_NULL, vm_throw InvalidUuidStringException ''Invalid hexadecimal UUID (expect 32 hex chars)'' vm1)
           | Some b \<Rightarrow> fu_return_uuid b vm1)"
      unfolding Uuid_fromHexadecimal_def g by (cases arg) simp_all
    show ?thesis
      unfolding u e(2) using inv None by (auto simp: e(1) split: option.splits if_splits intro!: outcome_return dest: fu_parse_length)
  next
    case (Some x)
    moreover from this assms(2) g obtain o1 where "arg = Inl o1" by (cases arg) auto
    ultimately show ?thesis using e(2) unfolding Uuid_fromHexadecimal_def g by (simp add: inv)
  qed
qed

lemma factory_bytes_abs:
  "factory_bytes B Z D vm (F_uuid1 node cs) = rfc_uuid 1" "factory_bytes B Z D vm (F_uuid2 dm lid node cs) = rfc_uuid 2"
  "factory_bytes B Z D vm F_uuid4 = rfc_uuid 4" "factory_bytes B Z D vm (F_uuid6 node cs) = rfc_uuid 6"
  "factory_bytes B Z D vm (F_uuid3 zns name) =
     (\<lambda>b. rfc_uuid 3 b \<and> (\<exists>ns. ns_bytes B Z vm zns = Some ns \<and> name_bytes (MD5 B) ns name b))"
  "factory_bytes B Z D vm (F_uuid5 zns name) =
     (\<lambda>b. rfc_uuid 5 b \<and> (\<exists>ns. ns_bytes B Z vm zns = Some ns \<and> name_bytes (SHA1 B) ns name b))"
  "factory_bytes B Z D vm (F_fromDateTime o1 node cs) =
     (\<lambda>b. rfc_uuid 1 b \<and> (\<exists>secs micros. date_time Z D vm o1 = Some (secs, micros) \<and> uuid_time b = Some (secs, uint micros)))"
  by (simp_all add: fun_eq_iff)

lemma uuid1_uuid6_outcome:
  assumes "vm_inv h vm" and "vm_exception vm = None"
  shows "factory_outcome h vm (rfc_uuid 1) (Uuid_uuid1 B node cs vm)"
    and "factory_outcome h vm (rfc_uuid 6) (Uuid_uuid6 B node cs vm)"
proof -
  have v1: "factory_outcome h vm (rfc_uuid 1) (return_or_throw (on_core (fu_gen_v1_ex (plat B) np cseq) vm))" if "args_ok np cseq" for np cseq
    using v1_gen.factory [OF assms, where i = "(plat B, np, cseq)" and Q = "rfc_uuid 1"] that by (simp add: v1_call_def)
  have v6: "factory_outcome h vm (rfc_uuid 6) (return_or_throw (on_core (fu_gen_v6_ex (plat B) np cseq) vm))" if "args_ok np cseq" for np cseq
    using v6_gen.factory [OF assms, where i = "(plat B, np, cseq)" and Q = "rfc_uuid 6"] that by (simp add: v6_tick_def v6_valid_def)
  show "factory_outcome h vm (rfc_uuid 1) (Uuid_uuid1 B node cs vm)"
    unfolding Uuid_uuid1_def by (rule node_clockseq_outcome [OF assms(1)], rule v1)
  show "factory_outcome h vm (rfc_uuid 6) (Uuid_uuid6 B node cs vm)"
    unfolding Uuid_uuid6_def by (rule node_clockseq_outcome [OF assms(1)], rule v6)
qed

lemma set_ver_var_other: "i \<noteq> 6 \<Longrightarrow> i \<noteq> 8 \<Longrightarrow> fu_set_ver_var b ver ! i = b ! i"
  by (simp add: fu_set_ver_var_def)

lemma uuid3_uuid5_outcome:
  assumes "vm_inv h vm" and "vm_exception vm = None" and "build_ok B" and "zend_ok h Z"
  shows "factory_outcome h (args_read B Z D (F_uuid3 zns name) vm) (factory_bytes B Z D vm (F_uuid3 zns name)) (Uuid_uuid3 B Z zns name vm)"
    and "factory_outcome h (args_read B Z D (F_uuid5 zns name) vm) (factory_bytes B Z D vm (F_uuid5 zns name)) (Uuid_uuid5 B Z zns name vm)"
proof -
  have ok: "digest_ok 16 (MD5 B)" "digest_ok 20 (SHA1 B)" using assms(3) by (simp_all add: build_ok_def)
  have md5: "gen_outcome 3 (fu_gen_v3 (MD5 B) ns name s)" and sha1: "gen_outcome 5 (fu_gen_v5 (SHA1 B) ns name s)"
    if "fu_inv s" "EG_exception s = None" for ns and s :: "'a st"
    using ok v3_gen.outcome [OF that, of "(MD5 B, ns, name)"] v5_gen.outcome [OF that, of "(SHA1 B, ns, name)"]
    by (simp_all add: v3_call_def v5_call_def)
  have n3: "name_bytes (MD5 B) ns name b" if "fu_gen_v3 (MD5 B) ns name s = (Some b, s')" for ns b and s s' :: "'a st"
    using that digest_ok_two [OF ok(1), of ns name]
    by (auto simp: name_bytes_def set_ver_var_other fu_gen_v3_def fu_name_len_ok_def Let_def split: if_splits)
  have n5: "name_bytes (SHA1 B) ns name b" if "fu_gen_v5 (SHA1 B) ns name s = (Some b, s')" for ns b and s s' :: "'a st"
    using that digest_ok_two [OF ok(2), of ns name]
    by (auto simp: name_bytes_def set_ver_var_other fu_gen_v5_def fu_name_len_ok_def Let_def split: if_splits)
  show "factory_outcome h (args_read B Z D (F_uuid3 zns name) vm) (factory_bytes B Z D vm (F_uuid3 zns name)) (Uuid_uuid3 B Z zns name vm)"
    unfolding factory_bytes_abs args_read.simps Uuid_uuid3_def
    by (rule name_based_outcome [where gen = "\<lambda>ns. fu_gen_v3 (MD5 B) ns name", OF assms(1,4,2) md5 n3])
  show "factory_outcome h (args_read B Z D (F_uuid5 zns name) vm) (factory_bytes B Z D vm (F_uuid5 zns name)) (Uuid_uuid5 B Z zns name vm)"
    unfolding factory_bytes_abs args_read.simps Uuid_uuid5_def
    by (rule name_based_outcome [where gen = "\<lambda>ns. fu_gen_v5 (SHA1 B) ns name", OF assms(1,4,2) sha1 n5])
qed

lemma uuid8_outcome:
  assumes "vm_inv h vm" and "vm_exception vm = None"
  shows "factory_outcome h vm (factory_bytes B Z D vm (F_uuid8 data)) (Uuid_uuid8 data vm)"
proof (cases "length data = 16")
  case True
  then have "\<forall>i < 16. i \<noteq> 6 \<and> i \<noteq> 8 \<longrightarrow> fu_gen_v8 data ! i = data ! i"
    by (simp add: fu_gen_v8_def set_ver_var_other)
  then show ?thesis
    using True assms rfc_gen_v8 [OF True] rfc_uuid_length [OF rfc_gen_v8 [OF True]] by (simp add: Uuid_uuid8_def outcome_return)
qed (use assms(1) in \<open>simp add: Uuid_uuid8_def\<close>)

lemma factory_run_outcome:
  assumes "vm_inv h vm" and "vm_exception vm = None" and "build_ok B" and "zend_ok h Z" and "date_ok h D" and "factory_args_ok f"
  shows "factory_outcome h (args_read B Z D f vm) (factory_bytes B Z D vm f) (factory_run B Z D f vm)"
proof (cases f)
  case (F_uuid3 zns name)
  then show ?thesis using uuid3_uuid5_outcome(1) [OF assms(1-4)] by simp
next
  case (F_uuid5 zns name)
  then show ?thesis using uuid3_uuid5_outcome(2) [OF assms(1-4)] by simp
next
  case F_uuid4
  then show ?thesis
    using v4_gen.factory [OF assms(1,2), where i = "plat B" and Q = "rfc_uuid 4"] by (simp add: factory_bytes_abs Uuid_uuid4_def)
next
  case (F_uuid7 w)
  then show ?thesis using uuid7_outcome [OF assms(1,2,5)] assms(6) by simp
next
  case (F_uuid8 data)
  then show ?thesis using uuid8_outcome [OF assms(1,2)] by simp
next
  case (F_fromString str)
  then show ?thesis
    using assms(1,2) by (auto simp: Uuid_fromString_def intro!: outcome_return dest: fu_parse_length split: option.splits)
next
  case (F_fromBytes str)
  then show ?thesis using assms(1,2) by (auto simp: Uuid_fromBytes_def intro!: outcome_return)
next
  case (F_fromInteger str)
  then show ?thesis
    using assms(1,2) by (auto simp: Uuid_fromInteger_def from_decimal_value intro!: outcome_return split: option.splits)
next
  case (F_fromHexadecimal arg)
  then show ?thesis using fromHexadecimal_outcome [OF assms(1,2,4)] by simp
next
  case (F_fromDateTime o1 node cs)
  then show ?thesis
    unfolding F_fromDateTime factory_bytes_abs args_read.simps factory_run.simps by (intro fromDateTime_outcome [OF assms(1,2,5)])
qed (use uuid1_uuid6_outcome [OF assms(1,2)] uuid2_outcome [OF assms(1,2)] in \<open>simp_all add: factory_bytes_abs\<close>)

lemma static_outcome:
  assumes "vm_inv h vm" and "vm_exception vm = None" and "build_ok B" and "zend_ok h Z" and "date_ok h D"
    and "factory_args_ok f" and "factory_run B Z D f vm = (rv, vm')"
  shows "vm_inv h vm' \<and> (vm_exception vm' = None \<longleftrightarrow> rv \<noteq> IS_NULL) \<and>
    (rv \<noteq> IS_NULL \<longrightarrow> new_uuid (factory_bytes B Z D vm f) rv vm') \<and> created (args_read B Z D f vm) rv vm'"
  using factory_run_outcome [OF assms(1-6)] assms(7) by (simp add: factory_outcome_def)

text \<open>The factories that turn their argument into a UUID without a generator; they return one for every argument that
  denotes one.\<close>

fun converts :: "factory \<Rightarrow> bool" where
  "converts (F_uuid8 data) = True"
| "converts (F_fromString str) = True"
| "converts (F_fromBytes str) = True"
| "converts (F_fromInteger str) = True"
| "converts (F_fromHexadecimal arg) = True"
| "converts f = False"

lemma return_uuid_object: "vm_exception vm = None \<Longrightarrow> fst (fu_return_uuid b vm) \<noteq> IS_NULL"
  by (simp add: fu_return_uuid_eq)

lemma converts_all:
  assumes "converts f" and "vm_exception (args_read B Z D f vm) = None" and "factory_bytes B Z D vm f b"
  shows "fst (factory_run B Z D f vm) \<noteq> IS_NULL"
proof (cases f)
  case (F_fromHexadecimal arg)
  obtain str vm1 where g: "(case arg of Inl o1 \<Rightarrow> get_string Z o1 vm | Inr str \<Rightarrow> (str, vm)) = (str, vm1)"
    by (cases "(case arg of Inl o1 \<Rightarrow> get_string Z o1 vm | Inr str \<Rightarrow> (str, vm))")
  have e: "arg_text Z vm arg = str" "args_read B Z D (F_fromHexadecimal arg) vm = vm1"
    using g by (cases arg; simp add: arg_text_def)+
  then have "vm_exception vm1 = None" "length str = 32" "fu_parse (strncase B) str = Some b"
    using assms(2,3) by (simp_all add: F_fromHexadecimal)
  then have "fst (Uuid_fromHexadecimal B Z arg vm) \<noteq> IS_NULL"
    unfolding Uuid_fromHexadecimal_def g using return_uuid_object [of vm1 b] by (cases arg) simp_all
  then show ?thesis by (simp add: F_fromHexadecimal)
next
  case (F_fromInteger str)
  then have "fu_from_decimal str = Some b" using assms(3) from_decimal_value [of str b] by simp
  then show ?thesis using assms(2) by (simp add: F_fromInteger Uuid_fromInteger_def return_uuid_object)
qed (use assms in \<open>simp_all add: Uuid_uuid8_def Uuid_fromString_def Uuid_fromBytes_def return_uuid_object\<close>)

text \<open>C7: every static factory keeps the invariant of the store and of the globals and either returns an instance and throws
  nothing, or returns nothing and has thrown.  The instance is new: its handle named no object once the userland code
  run to read the arguments had returned, and from then on no other object changed.  Its bytes are what the factory
  promises: a UUID of its version and of the RFC variant, with the digest of the resolved namespace and the name
  (versions 3 and 5), the millisecond or the date given (version 7 and \<open>fromDateTime\<close>) or the caller's bytes
  (version 8) in it; or exactly the bytes the argument denotes as a UUID text, as 16 bytes, as a canonical
  decimal, or as 32 hex digits, \<open>fromHexadecimal\<close> taking a Stringable argument at its text; and these last factories
  return an instance for every argument that denotes one.\<close>

theorem factories_outcome:
  assumes "vm_inv h vm" and "vm_exception vm = None" and "build_ok B" and "zend_ok h Z" and "date_ok h D"
    and "factory_args_ok f" and "factory_run B Z D f vm = (rv, vm')"
  shows "vm_inv h vm' \<and> (vm_exception vm' = None \<longleftrightarrow> rv \<noteq> IS_NULL) \<and>
    (rv \<noteq> IS_NULL \<longrightarrow> new_uuid (factory_bytes B Z D vm f) rv vm') \<and> created (args_read B Z D f vm) rv vm' \<and>
    (converts f \<and> vm_exception (args_read B Z D f vm) = None \<and> (\<exists>b. factory_bytes B Z D vm f b) \<longrightarrow> rv \<noteq> IS_NULL)"
  using static_outcome [OF assms] converts_all [of f B Z D vm] assms(7) by auto

lemma sample_date_ok: "date_ok h sample_date"
  by (simp add: date_ok_def sample_date_def zend_long_range_def)

theorem factories_outcome_witness:
  "\<exists>rv vm'. Uuid_fromString sample_build (fu_format36 FU_NO_SIMD (replicate 16 7)) sample_vm = (rv, vm') \<and>
     vm_inv FU_NO_SIMD vm' \<and> new_uuid (\<lambda>b. b = replicate 16 7) rv vm'"
proof -
  let ?f = "F_fromString (fu_format36 FU_NO_SIMD (replicate 16 7))"
  obtain rv vm' where r: "factory_run sample_build sample_zend sample_date ?f sample_vm = (rv, vm')"
    by (cases "factory_run sample_build sample_zend sample_date ?f sample_vm")
  have "fu_parse (strncase sample_build) (fu_format36 FU_NO_SIMD (replicate 16 7)) = Some (replicate 16 7)"
    using fu_parse_format36 by (simp add: sample_build_def)
  then have e: "factory_bytes sample_build sample_zend sample_date sample_vm ?f = (\<lambda>b. b = replicate 16 7)"
    by (auto simp: fun_eq_iff)
  from factories_outcome [OF sample_vm_inv(1,3) sample_build_ok sample_zend_ok sample_date_ok _ r] r show ?thesis
    unfolding e using sample_vm_inv(3) by auto
qed

end
