(* ===== verification/Fu_Methods.thy ===== *)
theory Fu_Methods
  imports Fu_Factory
begin

section \<open>The methods of the class\<close>

text \<open>
  The remaining instance methods, the datatype of all calls on the class, and one theorem for the
  instance methods: each keeps the invariant, changes at most the text cache and the state userland
  can reach, and its result is what it denotes.
\<close>

definition Uuid_getVersion :: "nat \<Rightarrow> 'w vm \<Rightarrow> zval \<times> 'w vm" where
  "Uuid_getVersion this vm =
     (case getVersion (obj_b (fu_from_zobj vm this)) of None \<Rightarrow> (IS_NULL, vm) | Some v \<Rightarrow> (IS_LONG v, vm))"

definition Uuid_getVariant :: "nat \<Rightarrow> 'w vm \<Rightarrow> zval \<times> 'w vm" where
  "Uuid_getVariant this vm = (IS_LONG (getVariant (obj_b (fu_from_zobj vm this))), vm)"

definition Uuid_getFields :: "fu_simd \<Rightarrow> nat \<Rightarrow> 'w vm \<Rightarrow> zval \<times> 'w vm" where
  "Uuid_getFields h this vm =
     (IS_ARRAY (map (\<lambda>f. (Key (lit (fst f)), IS_STRING (snd f))) (getFields h (obj_b (fu_from_zobj vm this)))), vm)"

text \<open>A call on an instance, and a call on the class.\<close>

datatype meth =
  M_construct | M_toString | M_getBytes | M_getHex | M_getUrn | M_getVersion | M_getVariant | M_getInteger | M_getDateTime |
  M_getTimestampMillis | M_getFields | M_equals zval | M_compareTo zval | M_jsonSerialize | M_serialize |
  M_unserialize "(array_key \<times> zval) list"

datatype static = S_factory factory | S_isValid "byte list" | S_set_state "(array_key \<times> zval) list"

fun method_run :: "('w, 'm, 's) build \<Rightarrow> 'w zend \<Rightarrow> 'w date_api \<Rightarrow> nat \<Rightarrow> meth \<Rightarrow> 'w vm \<Rightarrow> zval \<times> 'w vm" where
  "method_run B Z D this M_construct = Uuid_construct"
| "method_run B Z D this M_toString = Uuid_toString (simd B) this"
| "method_run B Z D this M_getBytes = Uuid_getBytes this"
| "method_run B Z D this M_getHex = Uuid_getHex (simd B) this"
| "method_run B Z D this M_getUrn = Uuid_getUrn (simd B) this"
| "method_run B Z D this M_getVersion = Uuid_getVersion this"
| "method_run B Z D this M_getVariant = Uuid_getVariant this"
| "method_run B Z D this M_getInteger = Uuid_getInteger this"
| "method_run B Z D this M_getDateTime = Uuid_getDateTime D this"
| "method_run B Z D this M_getTimestampMillis = Uuid_getTimestampMillis this"
| "method_run B Z D this M_getFields = Uuid_getFields (simd B) this"
| "method_run B Z D this (M_equals z) = Uuid_equals B Z this z"
| "method_run B Z D this (M_compareTo z) = Uuid_compareTo B Z this z"
| "method_run B Z D this M_jsonSerialize = Uuid_jsonSerialize (simd B) this"
| "method_run B Z D this M_serialize = Uuid_serialize this"
| "method_run B Z D this (M_unserialize data) = Uuid_unserialize this data"

fun static_run :: "('w, 'm, 's) build \<Rightarrow> 'w zend \<Rightarrow> 'w date_api \<Rightarrow> static \<Rightarrow> 'w vm \<Rightarrow> zval \<times> 'w vm" where
  "static_run B Z D (S_factory f) = factory_run B Z D f"
| "static_run B Z D (S_isValid str) = Uuid_isValid B str"
| "static_run B Z D (S_set_state data) = Uuid_set_state B data"

subsection \<open>What an instance method does\<close>

text \<open>A value that is a \<open>DateTimeImmutable\<close> holding a second and a microsecond.\<close>

definition dated :: "'w date_api \<Rightarrow> 'w vm \<Rightarrow> zval \<Rightarrow> int \<times> int \<Rightarrow> bool" where
  "dated D vm z t \<longleftrightarrow>
     (\<exists>o1. z = IS_OBJECT o1 \<and> objects vm o1 = Some (Other (date_immutable_ce D)) \<and> timelib_cache D o1 vm = Some t)"

text \<open>What ext/date's constructors are relied on for: they keep the invariant; an object \<open>php_date_instantiate\<close> made of
  the immutable class is of that class and holds the time read back from it; and \<open>DateTimeImmutable::createFromFormat\<close>
  with \<open>U.u\<close> gives one that holds the second and microsecond its text spells.\<close>

definition date_make_ok :: "fu_simd \<Rightarrow> 'w date_api \<Rightarrow> bool" where
  "date_make_ok h D \<longleftrightarrow>
     (\<forall>secs us vm. vm_inv h vm \<longrightarrow>
        (case init_from_ts D secs us vm of (tmp, time, vm1) \<Rightarrow>
           vm_inv h vm1 \<and> (\<forall>t. vm_exception vm1 = None \<and> is_object tmp \<and> time = Some t \<longrightarrow> dated D vm1 tmp t))) \<and>
     (\<forall>str vm. vm_inv h vm \<longrightarrow>
        (case createFromFormat D str vm of (cr, ret, vm1) \<Rightarrow>
           vm_inv h vm1 \<and>
           (\<forall>secs us. str = secs_micros_text secs us \<and> us < 1000000 \<and> cr = SUCCESS \<and> is_object ret \<longrightarrow>
              dated D vm1 ret (secs, uint us))))"

lemma date_make_okD:
  assumes "date_make_ok h D" and "vm_inv h vm"
  shows "init_from_ts D secs us vm = (tmp, time, vm1) \<Longrightarrow> vm_inv h vm1"
    and "createFromFormat D str vm = (cr, ret, vm1) \<Longrightarrow> vm_inv h vm1"
    and "init_from_ts D secs us vm = (tmp, Some t, vm1) \<Longrightarrow> vm_exception vm1 = None \<Longrightarrow> is_object tmp \<Longrightarrow> dated D vm1 tmp t"
    and "createFromFormat D (secs_micros_text s m) vm = (SUCCESS, ret, vm1) \<Longrightarrow> m < 1000000 \<Longrightarrow> is_object ret \<Longrightarrow>
      dated D vm1 ret (s, uint m)"
proof -
  note i = assms(1) [unfolded date_make_ok_def, THEN conjunct1, THEN spec, THEN spec, THEN spec, THEN mp, OF assms(2), of secs us]
  have c: "case createFromFormat D str vm of (cr, ret, vm1) \<Rightarrow> vm_inv h vm1 \<and>
      (\<forall>secs us. str = secs_micros_text secs us \<and> us < 1000000 \<and> cr = SUCCESS \<and> is_object ret \<longrightarrow> dated D vm1 ret (secs, uint us))"
    for str
    by (rule assms(1) [unfolded date_make_ok_def, THEN conjunct2, THEN spec, THEN spec, THEN mp, OF assms(2)])
  show "init_from_ts D secs us vm = (tmp, time, vm1) \<Longrightarrow> vm_inv h vm1"
    "init_from_ts D secs us vm = (tmp, Some t, vm1) \<Longrightarrow> vm_exception vm1 = None \<Longrightarrow> is_object tmp \<Longrightarrow> dated D vm1 tmp t"
    using i by (cases t; auto)+
  show "createFromFormat D str vm = (cr, ret, vm1) \<Longrightarrow> vm_inv h vm1" using c [of str] by auto
  show "createFromFormat D (secs_micros_text s m) vm = (SUCCESS, ret, vm1) \<Longrightarrow> m < 1000000 \<Longrightarrow> is_object ret \<Longrightarrow>
      dated D vm1 ret (s, uint m)"
    using c [of "secs_micros_text s m"] by auto
qed

lemma make_datetime_inv:
  assumes "date_make_ok h D" and "vm_inv h vm" and "micros < 1000000" and "fu_make_datetime D secs micros vm = (r, vm')"
  shows "vm_inv h vm' \<and> (case r of None \<Rightarrow> vm_exception vm' \<noteq> None | Some z \<Rightarrow> dated D vm' z (secs, uint micros))"
proof -
  have s: "vm_inv h vm2 \<and> (case r2 of None \<Rightarrow> vm_exception vm2 \<noteq> None | Some z \<Rightarrow> dated D vm2 z (secs, uint micros))"
    if "vm_inv h vm1" "fu_make_datetime_from_string D secs micros vm1 = (r2, vm2)" for vm1 r2 vm2
    using that date_make_okD(2,4) [OF assms(1) that(1)] assms(3)
    by (auto simp: fu_make_datetime_from_string_def zend_throw_def split: prod.splits if_splits)
  show ?thesis
  proof (cases "php84 D \<and> zend_long_range secs")
    case True
    obtain tmp time vm1 where i: "init_from_ts D secs (uint micros) vm = (tmp, time, vm1)"
      by (cases "init_from_ts D secs (uint micros) vm")
    from date_make_okD(1) [OF assms(1,2) i] date_make_okD(3) [OF assms(1,2)] i show ?thesis
      using True assms(4) s [of vm1 r vm']
      by (cases "vm_exception vm1 = None \<and> is_object tmp \<and> time = Some (secs, uint micros)") (auto simp: fu_make_datetime_def)
  qed (use s [OF assms(2)] assms(4) in \<open>auto simp: fu_make_datetime_def\<close>)
qed

lemma uuid_time_range: "uuid_time b = Some (secs, us) \<Longrightarrow> 0 \<le> us \<and> us < 1000000"
  by (auto simp: uuid_time_def less_mult_imp_div_less split: if_splits)

lemma decode_time_micros: "length b = 16 \<Longrightarrow> fu_decode_time b = Some (secs, micros) \<Longrightarrow> micros < 1000000"
  using uuid_time_decode [of b] uuid_time_range [of b secs "uint micros"] by (simp add: word_less_def)

text \<open>The fields of a UUID by their offsets in the 16 bytes.\<close>

definition field_array :: "byte list \<Rightarrow> (array_key \<times> zval) list" where
  "field_array b =
     map (\<lambda>(name, first, n). (Key (lit name), IS_STRING (hex_spec (take n (drop first b)))))
       [(''time_low'', 0, 4), (''time_mid'', 4, 2), (''time_hi_and_version'', 6, 2),
        (''clock_seq_hi_and_reserved'', 8, 1), (''clock_seq_low'', 9, 1), (''node'', 10, 6)]"

lemma getFields_array:
  assumes "length b = 16"
  shows "map (\<lambda>f. (Key (lit (fst f)), IS_STRING (snd f))) (getFields h b) = field_array b"
  using assms slice_hex_spec [of 0 4 b] slice_hex_spec [of 4 2 b] slice_hex_spec [of 6 2 b] slice_hex_spec [of 8 1 b]
    slice_hex_spec [of 9 1 b] slice_hex_spec [of 10 6 b]
  by (simp add: getFields_def Let_def fu_hex32_spec field_array_def)

text \<open>The result of a method that threw nothing, in terms of the 16 bytes \<open>b\<close> of the instance, the bytes \<open>rb\<close> the
  argument resolves to, and the state the method leaves: octet 6 holds the version in its high half, octet 8 the
  variant in its top bits; texts are hex digits of the octets; the integer is the numeral of the 128-bit number.\<close>

fun method_result :: "'w date_api \<Rightarrow> 'w vm \<Rightarrow> nat \<Rightarrow> byte list \<Rightarrow> byte list option \<Rightarrow> meth \<Rightarrow> zval \<Rightarrow> bool" where
  "method_result D vm this b rb M_construct rv = False"
| "method_result D vm this b rb M_toString rv = (rv = IS_STRING (canonical_text b))"
| "method_result D vm this b rb M_getBytes rv = (rv = IS_STRING b)"
| "method_result D vm this b rb M_getHex rv = (rv = IS_STRING (hex_spec b))"
| "method_result D vm this b rb M_getUrn rv = (rv = IS_STRING (lit ''urn:uuid:'' @ canonical_text b))"
| "method_result D vm this b rb M_getVersion rv =
     (rv = (if unat (b ! 8) div 64 = 2 then IS_LONG (int (unat (b ! 6) div 16)) else IS_NULL))"
| "method_result D vm this b rb M_getVariant rv =
     (rv = IS_LONG (if unat (b ! 8) < 128 then 0 else if unat (b ! 8) < 192 then 2 else if unat (b ! 8) < 224 then 6 else 7))"
| "method_result D vm this b rb M_getInteger rv = (\<exists>t. rv = IS_STRING t \<and> canonical_decimal t \<and> dec_val t = be_nat b)"
| "method_result D vm this b rb M_getDateTime rv = (\<exists>t. uuid_time b = Some t \<and> dated D vm rv t)"
| "method_result D vm this b rb M_getTimestampMillis rv =
     (\<exists>secs us. uuid_time b = Some (secs, us) \<and> rv = IS_LONG (secs * 1000 + us div 1000))"
| "method_result D vm this b rb M_getFields rv = (rv = IS_ARRAY (field_array b))"
| "method_result D vm this b rb (M_equals z) rv = (rv = IS_BOOL (rb = Some b))"
| "method_result D vm this b rb (M_compareTo z) rv =
     (\<exists>ob. rb = Some ob \<and> rv = IS_LONG (sgn (int (be_nat b) - int (be_nat ob))))"
| "method_result D vm this b rb M_jsonSerialize rv = (rv = IS_STRING (canonical_text b))"
| "method_result D vm this b rb M_serialize rv = (rv = IS_ARRAY [(Index 0, IS_STRING b)])"
| "method_result D vm this b rb (M_unserialize data) rv =
     (rv = IS_NULL \<and> map_of data (Index 0) = Some (IS_STRING (bytes_of vm this)) \<and> length (bytes_of vm this) = 16)"

text \<open>The arguments of \<open>equals\<close> and \<open>compareTo\<close>, the two methods that can run userland code.\<close>

fun method_arg :: "meth \<Rightarrow> zval option" where
  "method_arg (M_equals z) = Some z"
| "method_arg (M_compareTo z) = Some z"
| "method_arg m = None"

lemma fu_str_method:
  assumes "vm_inv h vm" and "is_uuid vm this" and "(case fu_str h this vm of (str, vm) \<Rightarrow> (IS_STRING str, vm)) = (rv, vm')"
  shows "vm_inv h vm' \<and> is_uuid vm' this \<and> core vm' = core vm \<and> bytes_of vm' this = bytes_of vm this
    \<and> rv = IS_STRING (canonical_text (bytes_of vm this))"
  using assms(3) fu_format36_canonical [OF vm_inv_bytes [OF assms(1)], of h this]
  by (rule_tac fu_str_cases [OF assms(1,2)]) (use assms(2) in auto)

text \<open>The instance bytes a method works on: \<open>equals\<close> and \<open>compareTo\<close> read them after the argument has been
  resolved, so after any userland code has run.\<close>

definition method_bytes :: "meth \<Rightarrow> nat \<Rightarrow> 'w vm \<Rightarrow> 'w vm \<Rightarrow> byte list" where
  "method_bytes m this vm vm' = (if method_arg m = None then bytes_of vm this else bytes_of vm' this)"

definition method_outcome :: "('w, 'm, 's) build \<Rightarrow> 'w zend \<Rightarrow> 'w date_api \<Rightarrow> meth \<Rightarrow> nat \<Rightarrow> 'w vm \<Rightarrow> zval \<times> 'w vm \<Rightarrow> bool" where
  "method_outcome B Z D m this vm r =
     (vm_inv (simd B) (snd r) \<and>
      (vm_exception (snd r) = None \<longrightarrow>
         method_result D (snd r) this (method_bytes m this vm (snd r))
           (Option.bind (method_arg m) (\<lambda>z. fst (fu_resolve_uuid B Z z vm))) m (fst r)))"

lemma resolving_outcome:
  assumes "vm_inv (simd B) vm" and "vm_exception vm = None" and "zend_ok (simd B) Z"
  shows "method_outcome B Z D (M_equals z) this vm (Uuid_equals B Z this z vm)"
    and "method_outcome B Z D (M_compareTo z) this vm (Uuid_compareTo B Z this z vm)"
proof -
  obtain r vm1 where r: "fu_resolve_uuid B Z z vm = (r, vm1)" by (cases "fu_resolve_uuid B Z z vm")
  note p = fu_resolve_uuid_props [OF assms(1,3,2) r]
  have len: "length (bytes_of vm1 this) = length b" if "r = Some b" for b
    using p that vm_inv_bytes [of "simd B" vm1 this] by simp
  show "method_outcome B Z D (M_equals z) this vm (Uuid_equals B Z this z vm)"
    using p len by (cases r) (auto simp: method_outcome_def method_bytes_def Uuid_equals_def r memcmp_eq_0_iff)
  show "method_outcome B Z D (M_compareTo z) this vm (Uuid_compareTo B Z this z vm)"
    using p sgn_memcmp [OF len]
    by (cases r) (auto simp: method_outcome_def method_bytes_def Uuid_compareTo_def r Let_def zend_throw_def)
qed

lemma getDateTime_outcome:
  assumes "vm_inv (simd B) vm" and "date_make_ok (simd B) D"
  shows "method_outcome B Z D M_getDateTime this vm (Uuid_getDateTime D this vm)"
proof (cases "fu_decode_time (bytes_of vm this)")
  case None
  then show ?thesis using assms(1) by (simp add: method_outcome_def Uuid_getDateTime_def zend_throw_def)
next
  case (Some x)
  obtain secs micros where x: "x = (secs, micros)" by (cases x)
  obtain r vm1 where m: "fu_make_datetime D secs micros vm = (r, vm1)" by (cases "fu_make_datetime D secs micros vm")
  have len: "length (bytes_of vm this) = 16" using assms(1) by simp
  show ?thesis
    using make_datetime_inv [OF assms(2,1) decode_time_micros [OF len Some [unfolded x]] m]
      uuid_time_decode [OF len Some [unfolded x]] Some x m
    by (cases r) (auto simp: method_outcome_def method_bytes_def Uuid_getDateTime_def)
qed

lemma unserialize_outcome:
  assumes "vm_inv (simd B) vm" and "is_uuid vm this"
  shows "method_outcome B Z D (M_unserialize data) this vm (Uuid_unserialize this data vm)"
proof -
  have "vm_inv (simd B) (set_obj this ((fu_from_zobj vm this)\<lparr>obj_str := None, obj_b := zb\<rparr>) vm)" if "length zb = 16" for zb
    using vm_inv_set_obj [OF assms(1)] that by (simp add: uuid_ok_def)
  then show ?thesis
    using assms(1) by (auto simp: method_outcome_def Uuid_unserialize_def zend_throw_def split: option.splits zval.splits)
qed

lemma getTimestampMillis_outcome:
  assumes "vm_inv (simd B) vm"
  shows "method_outcome B Z D M_getTimestampMillis this vm (Uuid_getTimestampMillis this vm)"
  using assms uuid_time_decode [OF vm_inv_bytes [OF assms]]
  by (cases "fu_decode_time (bytes_of vm this)")
     (auto simp: method_outcome_def method_bytes_def Uuid_getTimestampMillis_def Let_def zend_throw_def uint_div split: if_splits)

lemma instance_outcome:
  assumes "vm_inv (simd B) vm" and "is_uuid vm this" and "vm_exception vm = None" and "zend_ok (simd B) Z"
    and "date_make_ok (simd B) D" and "method_run B Z D this m vm = (rv, vm')"
  shows "vm_inv (simd B) vm' \<and>
    (vm_exception vm' = None \<longrightarrow>
       method_result D vm' this (method_bytes m this vm vm')
         (Option.bind (method_arg m) (\<lambda>z. fst (fu_resolve_uuid B Z z vm))) m rv)"
proof -
  note s = fu_str_method [OF assms(1,2)]
  have "method_outcome B Z D m this vm (method_run B Z D this m vm)"
  proof (cases m)
    case M_toString
    obtain r v where r: "(case fu_str (simd B) this vm of (str, vm) \<Rightarrow> (IS_STRING str, vm)) = (r, v)"
      by (cases "(case fu_str (simd B) this vm of (str, vm) \<Rightarrow> (IS_STRING str, vm))")
    with s [OF r] show ?thesis by (simp add: M_toString method_outcome_def method_bytes_def Uuid_toString_def)
  next
    case M_jsonSerialize
    obtain r v where r: "(case fu_str (simd B) this vm of (str, vm) \<Rightarrow> (IS_STRING str, vm)) = (r, v)"
      by (cases "(case fu_str (simd B) this vm of (str, vm) \<Rightarrow> (IS_STRING str, vm))")
    with s [OF r] show ?thesis by (simp add: M_jsonSerialize method_outcome_def method_bytes_def Uuid_jsonSerialize_def)
  next
    case (M_equals z)
    with resolving_outcome(1) [OF assms(1,3,4)] show ?thesis by simp
  next
    case (M_compareTo z)
    with resolving_outcome(2) [OF assms(1,3,4)] show ?thesis by simp
  next
    case M_getDateTime
    with getDateTime_outcome [OF assms(1,5)] show ?thesis by simp
  next
    case M_getTimestampMillis
    with getTimestampMillis_outcome [OF assms(1)] show ?thesis by simp
  next
    case (M_unserialize data)
    with unserialize_outcome [OF assms(1,2)] show ?thesis by simp
  qed (use assms(1) in \<open>simp_all add: method_outcome_def method_bytes_def Uuid_construct_def Uuid_getBytes_def Uuid_getHex_def
         Uuid_getUrn_def Uuid_getVersion_def Uuid_getVariant_def Uuid_getInteger_def Uuid_getFields_def Uuid_serialize_def
         zend_throw_def fu_hex32_spec fu_format36_canonical getFields_array getVersion_eq [unfolded getVariant_rfc] getVariant_ranges
         fu_to_decimal_dec_string canonical_dec_string\<close>)
  then show ?thesis using assms(6) by (simp add: method_outcome_def)
qed

text \<open>The calls that throw nothing: only the constructor, which always does, and \<open>getDateTime\<close>, which depends on ext/date,
  are not among them.\<close>

fun never_throws :: "('w, 'm, 's) build \<Rightarrow> 'w zend \<Rightarrow> 'w vm \<Rightarrow> nat \<Rightarrow> meth \<Rightarrow> bool" where
  "never_throws B Z vm this M_construct = False"
| "never_throws B Z vm this M_getDateTime = False"
| "never_throws B Z vm this (M_equals z) = (vm_exception (snd (fu_resolve_uuid B Z z vm)) = None)"
| "never_throws B Z vm this (M_compareTo z) = (fst (fu_resolve_uuid B Z z vm) \<noteq> None)"
| "never_throws B Z vm this M_getTimestampMillis = (uuid_time (bytes_of vm this) \<noteq> None)"
| "never_throws B Z vm this (M_unserialize data) = (\<exists>zb. map_of data (Index 0) = Some (IS_STRING zb) \<and> length zb = 16)"
| "never_throws B Z vm this m = True"

lemma getTimestampMillis_answers:
  assumes "vm_inv h vm" and "uuid_time (bytes_of vm this) \<noteq> None"
  shows "snd (Uuid_getTimestampMillis this vm) = vm"
proof -
  let ?b = "bytes_of vm this"
  have len: "length ?b = 16" using assms(1) by simp
  obtain secs micros where d: "fu_decode_time ?b = Some (secs, micros)"
    using fu_decode_time_uuid_time [OF len] assms(2) by (cases "fu_decode_time ?b") auto
  have t: "uuid_time ?b = Some (secs, uint micros)" by (rule uuid_time_decode [OF len d])
  have "time60 ?b div 10000000 < 2 ^ 48" using time60_less [OF len] by (intro less_mult_imp_div_less) simp
  moreover have "be_nat (take 6 ?b) div 1000 < 2 ^ 48"
    by (rule le_less_trans [OF div_le_dividend]) (use be_nat_less [of "take 6 ?b"] len in simp)
  ultimately have "- 12219292800 \<le> secs" "secs < 2 ^ 48"
    using t by (auto simp: uuid_time_def split: if_splits)
  moreover have "0 \<le> uint micros div 1000" "uint micros div 1000 < 1000" using uuid_time_range [OF t] by linarith+
  ultimately have "zend_long_range (secs * 1000 + uint (micros div 1000))" by (simp add: zend_long_range_def uint_div)
  then show ?thesis by (simp add: Uuid_getTimestampMillis_def d)
qed

lemma resolving_answers:
  assumes "vm_inv (simd B) vm" and "vm_exception vm = None" and "zend_ok (simd B) Z"
  shows "vm_exception (snd (fu_resolve_uuid B Z z vm)) = None \<Longrightarrow> vm_exception (snd (Uuid_equals B Z this z vm)) = None"
    and "fst (fu_resolve_uuid B Z z vm) \<noteq> None \<Longrightarrow> vm_exception (snd (Uuid_compareTo B Z this z vm)) = None"
proof -
  obtain r vm1 where r: "fu_resolve_uuid B Z z vm = (r, vm1)" by (cases "fu_resolve_uuid B Z z vm")
  note p = fu_resolve_uuid_props [OF assms(1,3,2) r]
  show "vm_exception (snd (fu_resolve_uuid B Z z vm)) = None \<Longrightarrow> vm_exception (snd (Uuid_equals B Z this z vm)) = None"
    by (cases r) (simp_all add: Uuid_equals_def r)
  show "fst (fu_resolve_uuid B Z z vm) \<noteq> None \<Longrightarrow> vm_exception (snd (Uuid_compareTo B Z this z vm)) = None"
    using p by (cases r) (simp_all add: Uuid_compareTo_def r Let_def)
qed

lemma method_answers:
  assumes "vm_inv (simd B) vm" and "is_uuid vm this" and "vm_exception vm = None" and "zend_ok (simd B) Z"
    and "never_throws B Z vm this m"
  shows "vm_exception (snd (method_run B Z D this m vm)) = None"
proof -
  have str: "vm_exception vm1 = None" if "fu_str (simd B) this vm = (str, vm1)" for str vm1
    by (rule fu_str_cases [OF assms(1,2)]) (use that assms(3) in simp)
  show ?thesis
  proof (cases m)
    case (M_equals z)
    then show ?thesis using resolving_answers(1) [OF assms(1,3,4)] assms(5) by simp
  next
    case (M_compareTo z)
    then show ?thesis using resolving_answers(2) [OF assms(1,3,4)] assms(5) by simp
  qed (use assms getTimestampMillis_answers [OF assms(1), of this] in
      \<open>auto simp: Uuid_toString_def Uuid_getBytes_def Uuid_getHex_def Uuid_getUrn_def Uuid_getVersion_def Uuid_getVariant_def
         Uuid_getInteger_def Uuid_getFields_def Uuid_jsonSerialize_def Uuid_serialize_def Uuid_unserialize_def
         split: option.splits prod.splits intro: str\<close>)
qed

text \<open>C8: every instance method keeps the invariant of the store and of the globals, userland code in
  \<open>equals\<close> and \<open>compareTo\<close> and the date constructors included, and a call that throws nothing has returned
  what the method denotes: the canonical text, the bytes, the hex digits, the version, the variant, the
  decimal digits, the timestamp, the fields, or the order against what the argument resolves to, each said of the 16
  octets and the 128-bit number they denote; \<open>getDateTime\<close> has returned a \<open>DateTimeImmutable\<close> that holds exactly the
  second and microsecond in the UUID.  The accessors never throw, \<open>getTimestampMillis\<close> only without a timestamp, \<open>equals\<close> only if
  reading its argument threw, \<open>compareTo\<close> only if its argument resolves to nothing, and \<open>__unserialize\<close> takes every
  payload of 16 bytes.\<close>

theorem methods_outcome:
  assumes "vm_inv (simd B) vm" and "is_uuid vm this" and "vm_exception vm = None" and "zend_ok (simd B) Z"
    and "date_make_ok (simd B) D" and "method_run B Z D this m vm = (rv, vm')"
  shows "vm_inv (simd B) vm' \<and>
    (vm_exception vm' = None \<longrightarrow>
       method_result D vm' this (method_bytes m this vm vm')
         (Option.bind (method_arg m) (\<lambda>z. fst (fu_resolve_uuid B Z z vm))) m rv) \<and>
    (never_throws B Z vm this m \<longrightarrow> vm_exception vm' = None)"
  using instance_outcome [OF assms] method_answers [OF assms(1-4), of m D] assms(6) by simp

lemma sample_date_make_ok: "date_make_ok h sample_date"
proof -
  have new: "vm_inv h vm1 \<and> dated sample_date vm1 z (1700000000, 123456)" if "vm_inv h vm" "new_date vm = (z, vm1)" for vm vm1 z
  proof -
    have v: "z = IS_OBJECT (next_object vm)" "vm1 = vm\<lparr>objects := (objects vm)(next_object vm \<mapsto> Other 3), puts := Suc (puts vm)\<rparr>"
      using that(2) by (simp_all add: new_date_def)
    have "store_ok vm1" unfolding v(2) by (rule store_ok_update [OF vm_inv_store [OF that(1)]]) auto
    then show ?thesis using that(1) by (auto simp: v vm_inv_def dated_def sample_date_def)
  qed
  then show ?thesis by (auto simp: date_make_ok_def sample_date_def split: prod.splits)
qed

theorem methods_outcome_witness:
  "\<exists>rv vm'. method_run sample_build sample_zend sample_date 0 M_getUrn sample_vm = (rv, vm') \<and> vm_inv (simd sample_build) vm' \<and>
     vm_exception vm' = None \<and> rv = IS_STRING (lit ''urn:uuid:'' @ canonical_text (bytes_of sample_vm 0))"
proof -
  obtain rv vm' where r: "method_run sample_build sample_zend sample_date 0 M_getUrn sample_vm = (rv, vm')"
    by (cases "method_run sample_build sample_zend sample_date 0 M_getUrn sample_vm")
  have "vm_inv (simd sample_build) sample_vm" using sample_vm_inv(1) by (simp add: sample_build_def)
  from methods_outcome [OF this sample_vm_inv(2,3) sample_zend_ok sample_date_make_ok r] r show ?thesis
    by (simp add: method_bytes_def)
qed

end
