(* ===== verification/Fu_Classes.thy ===== *)
theory Fu_Classes
  imports Fu_Methods
begin

section \<open>The declared interface\<close>

text \<open>
  The tables of \<open>fast_uuid_arginfo.h\<close>: the argument infos (parameter types, defaults, return types) of
  the functions and methods, the method tables of the interface and of the class, and the class
  constants.  The theorems compare them with what the handlers do: results have their declared
  types, the class implements its interface, the constants are UUIDs.
\<close>

subsection \<open>Argument infos\<close>

datatype php_type =
  T_STRING | T_LONG | T_BOOL | T_ARRAY | T_NULL | T_OBJECT | T_VOID | T_STATIC | T_MIXED | T_CLASS string

text \<open>A parameter: its name, the types it may have, and the default shown by reflection.\<close>

datatype arg_info = Arg string "php_type list" "string option"

text \<open>The number of required parameters, the types of the result (none declared for a constructor) and the
  parameters.\<close>

datatype fn_info = Fn_info (num_required: nat) (return_types: "php_type list option") (arg_infos: "arg_info list")

text \<open>An argument info is named after its function, or after its class and its method; it is written out,
  or \<open>#define\<close>d to be an earlier one.\<close>

datatype arginfo_name = A_fn string | A_interface string | A_uuid string

datatype arginfo_decl = Info fn_info | Alias arginfo_name

definition UuidValueInterface_name :: string where
  "UuidValueInterface_name = ''FastUuid'' @ CHR 0x5C # ''UuidValueInterface''"

definition arginfo_functions :: "(arginfo_name \<times> arginfo_decl) list" where
  "arginfo_functions =
     [(A_fn ''uuid_v1'', Info (Fn_info 0 (Some [T_STRING]) [])),
      (A_fn ''uuid_v1_bin'', Alias (A_fn ''uuid_v1'')),
      (A_fn ''uuid_v3'', Info (Fn_info 2 (Some [T_STRING])
         [Arg ''ns'' [T_STRING] None,
          Arg ''name'' [T_STRING] None])),
      (A_fn ''uuid_v3_bin'', Alias (A_fn ''uuid_v3'')),
      (A_fn ''uuid_v4'', Alias (A_fn ''uuid_v1'')),
      (A_fn ''uuid_v4_bin'', Alias (A_fn ''uuid_v1'')),
      (A_fn ''uuid_v4_fast'', Alias (A_fn ''uuid_v1'')),
      (A_fn ''uuid_v4_fast_bin'', Alias (A_fn ''uuid_v1'')),
      (A_fn ''uuid_v5'', Alias (A_fn ''uuid_v3'')),
      (A_fn ''uuid_v5_bin'', Alias (A_fn ''uuid_v3'')),
      (A_fn ''uuid_v6'', Alias (A_fn ''uuid_v1'')),
      (A_fn ''uuid_v6_bin'', Alias (A_fn ''uuid_v1'')),
      (A_fn ''uuid_v7'', Alias (A_fn ''uuid_v1'')),
      (A_fn ''uuid_v7_bin'', Alias (A_fn ''uuid_v1'')),
      (A_fn ''uuid_v7_at'', Info (Fn_info 1 (Some [T_STRING]) [Arg ''unixMillis'' [T_LONG] None])),
      (A_fn ''uuid_v7_at_bin'', Alias (A_fn ''uuid_v7_at'')),
      (A_fn ''uuid_v8'', Info (Fn_info 1 (Some [T_STRING]) [Arg ''bytes'' [T_STRING] None])),
      (A_fn ''uuid_v8_bin'', Alias (A_fn ''uuid_v8'')),
      (A_fn ''uuid_v4_batch'', Info (Fn_info 1 (Some [T_ARRAY]) [Arg ''count'' [T_LONG] None])),
      (A_fn ''uuid_v7_batch'', Alias (A_fn ''uuid_v4_batch'')),
      (A_fn ''uuid_v4_bin_batch'', Alias (A_fn ''uuid_v4_batch'')),
      (A_fn ''uuid_v7_bin_batch'', Alias (A_fn ''uuid_v4_batch'')),
      (A_fn ''uuid_to_bin'', Info (Fn_info 1 (Some [T_STRING]) [Arg ''uuid'' [T_STRING] None])),
      (A_fn ''uuid_from_bin'', Alias (A_fn ''uuid_v8'')),
      (A_fn ''uuid_is_valid'', Info (Fn_info 1 (Some [T_BOOL]) [Arg ''uuid'' [T_STRING] None])),
      (A_fn ''fast_uuid_random_bytes'', Info (Fn_info 1 (Some [T_STRING]) [Arg ''length'' [T_LONG] None]))]"

definition arginfo_interface :: "(arginfo_name \<times> arginfo_decl) list" where
  "arginfo_interface =
     [(A_interface ''toString'', Alias (A_fn ''uuid_v1'')),
      (A_interface ''__toString'', Alias (A_fn ''uuid_v1'')),
      (A_interface ''getBytes'', Alias (A_fn ''uuid_v1'')),
      (A_interface ''toBytes'', Alias (A_fn ''uuid_v1'')),
      (A_interface ''getHex'', Alias (A_fn ''uuid_v1'')),
      (A_interface ''toHexadecimal'', Alias (A_fn ''uuid_v1'')),
      (A_interface ''getUrn'', Alias (A_fn ''uuid_v1'')),
      (A_interface ''toUrn'', Alias (A_fn ''uuid_v1'')),
      (A_interface ''getVersion'', Info (Fn_info 0 (Some [T_LONG, T_NULL]) [])),
      (A_interface ''getVariant'', Info (Fn_info 0 (Some [T_LONG]) [])),
      (A_interface ''getInteger'', Alias (A_fn ''uuid_v1'')),
      (A_interface ''toInteger'', Alias (A_fn ''uuid_v1'')),
      (A_interface ''getDateTime'', Info (Fn_info 0 (Some [T_CLASS ''DateTimeImmutable'']) [])),
      (A_interface ''getTimestampMillis'', Alias (A_interface ''getVariant'')),
      (A_interface ''getFields'', Info (Fn_info 0 (Some [T_ARRAY]) [])),
      (A_interface ''equals'', Info (Fn_info 1 (Some [T_BOOL]) [Arg ''other'' [T_MIXED] None])),
      (A_interface ''compareTo'', Info (Fn_info 1 (Some [T_LONG]) [Arg ''other'' [T_MIXED] None])),
      (A_interface ''jsonSerialize'', Alias (A_fn ''uuid_v1'')),
      (A_interface ''__serialize'', Alias (A_interface ''getFields'')),
      (A_interface ''__unserialize'', Info (Fn_info 1 (Some [T_VOID]) [Arg ''data'' [T_ARRAY] None]))]"

definition arginfo_class :: "(arginfo_name \<times> arginfo_decl) list" where
  "arginfo_class =
     [(A_uuid ''uuid1'', Info (Fn_info 0 (Some [T_CLASS UuidValueInterface_name])
         [Arg ''node'' [T_LONG, T_STRING, T_NULL] (Some ''null''),
          Arg ''clockSeq'' [T_LONG, T_NULL] (Some ''null'')])),
      (A_uuid ''uuid2'', Info (Fn_info 1 (Some [T_CLASS UuidValueInterface_name])
         [Arg ''localDomain'' [T_LONG] None,
          Arg ''localIdentifier'' [T_LONG, T_STRING, T_NULL] (Some ''null''),
          Arg ''node'' [T_LONG, T_STRING, T_NULL] (Some ''null''),
          Arg ''clockSeq'' [T_LONG, T_NULL] (Some ''null'')])),
      (A_uuid ''uuid3'', Info (Fn_info 2 (Some [T_CLASS UuidValueInterface_name])
         [Arg ''ns'' [T_OBJECT, T_STRING] None,
          Arg ''name'' [T_STRING] None])),
      (A_uuid ''uuid4'', Info (Fn_info 0 (Some [T_CLASS UuidValueInterface_name]) [])),
      (A_uuid ''uuid5'', Alias (A_uuid ''uuid3'')),
      (A_uuid ''uuid6'', Alias (A_uuid ''uuid1'')),
      (A_uuid ''uuid7'', Info (Fn_info 0 (Some [T_CLASS UuidValueInterface_name])
         [Arg ''dateTime'' [T_CLASS ''DateTimeInterface'', T_LONG, T_NULL] (Some ''null'')])),
      (A_uuid ''uuid8'', Info (Fn_info 1 (Some [T_CLASS UuidValueInterface_name]) [Arg ''bytes'' [T_STRING] None])),
      (A_uuid ''fromString'', Info (Fn_info 1 (Some [T_CLASS UuidValueInterface_name])
         [Arg ''uuid'' [T_STRING] None])),
      (A_uuid ''fromBytes'', Alias (A_uuid ''uuid8'')),
      (A_uuid ''fromInteger'', Info (Fn_info 1 (Some [T_CLASS UuidValueInterface_name])
         [Arg ''integer'' [T_STRING] None])),
      (A_uuid ''fromHexadecimal'', Info (Fn_info 1 (Some [T_CLASS UuidValueInterface_name])
         [Arg ''hex'' [T_CLASS ''Stringable'', T_STRING] None])),
      (A_uuid ''fromDateTime'', Info (Fn_info 1 (Some [T_CLASS UuidValueInterface_name])
         [Arg ''dateTime'' [T_CLASS ''DateTimeInterface''] None,
          Arg ''node'' [T_LONG, T_STRING, T_NULL] (Some ''null''),
          Arg ''clockSeq'' [T_LONG, T_NULL] (Some ''null'')])),
      (A_uuid ''isValid'', Alias (A_fn ''uuid_is_valid'')),
      (A_uuid ''__construct'', Info (Fn_info 0 None [])),
      (A_uuid ''toString'', Alias (A_fn ''uuid_v1'')),
      (A_uuid ''__toString'', Alias (A_fn ''uuid_v1'')),
      (A_uuid ''getBytes'', Alias (A_fn ''uuid_v1'')),
      (A_uuid ''toBytes'', Alias (A_fn ''uuid_v1'')),
      (A_uuid ''getHex'', Alias (A_fn ''uuid_v1'')),
      (A_uuid ''toHexadecimal'', Alias (A_fn ''uuid_v1'')),
      (A_uuid ''getUrn'', Alias (A_fn ''uuid_v1'')),
      (A_uuid ''toUrn'', Alias (A_fn ''uuid_v1'')),
      (A_uuid ''getVersion'', Alias (A_interface ''getVersion'')),
      (A_uuid ''getVariant'', Alias (A_interface ''getVariant'')),
      (A_uuid ''getInteger'', Alias (A_fn ''uuid_v1'')),
      (A_uuid ''toInteger'', Alias (A_fn ''uuid_v1'')),
      (A_uuid ''getDateTime'', Alias (A_interface ''getDateTime'')),
      (A_uuid ''getTimestampMillis'', Alias (A_interface ''getVariant'')),
      (A_uuid ''getFields'', Alias (A_interface ''getFields'')),
      (A_uuid ''equals'', Alias (A_interface ''equals'')),
      (A_uuid ''compareTo'', Alias (A_interface ''compareTo'')),
      (A_uuid ''jsonSerialize'', Alias (A_fn ''uuid_v1'')),
      (A_uuid ''__serialize'', Alias (A_interface ''getFields'')),
      (A_uuid ''__unserialize'', Alias (A_interface ''__unserialize'')),
      (A_uuid ''__set_state'', Info (Fn_info 1 (Some [T_STATIC]) [Arg ''an_array'' [T_ARRAY] None]))]"

text \<open>The preprocessor replaces an alias by what it stands for; an alias of the header stands for an info or
  for an alias of one, so three rounds reach the info.\<close>

fun arginfo_table :: "arginfo_name \<Rightarrow> (arginfo_name \<times> arginfo_decl) list" where
  "arginfo_table (A_fn n) = arginfo_functions"
| "arginfo_table (A_interface n) = arginfo_interface"
| "arginfo_table (A_uuid n) = arginfo_class"

fun expand_arginfo :: "nat \<Rightarrow> arginfo_name \<Rightarrow> fn_info option" where
  "expand_arginfo 0 n = None"
| "expand_arginfo (Suc k) n =
     (case map_of (arginfo_table n) n of
        None \<Rightarrow> None
      | Some (Info i) \<Rightarrow> Some i
      | Some (Alias a) \<Rightarrow> expand_arginfo k a)"

definition arginfo :: "arginfo_name \<Rightarrow> fn_info option" where
  "arginfo = expand_arginfo 3"

subsection \<open>Method tables\<close>

datatype acc_flag = Public | Private | Static | Abstract

text \<open>Name, handler (null for an abstract method), argument info and flags.\<close>

datatype method_entry = Method (m_name: string) (m_handler: "string option") (m_arginfo: arginfo_name) (m_flags: "acc_flag list")

definition class_FastUuid_UuidValueInterface_methods :: "method_entry list" where
  "class_FastUuid_UuidValueInterface_methods =
     [Method ''toString'' None (A_interface ''toString'') [Public, Abstract],
      Method ''__toString'' None (A_interface ''__toString'') [Public, Abstract],
      Method ''getBytes'' None (A_interface ''getBytes'') [Public, Abstract],
      Method ''toBytes'' None (A_interface ''toBytes'') [Public, Abstract],
      Method ''getHex'' None (A_interface ''getHex'') [Public, Abstract],
      Method ''toHexadecimal'' None (A_interface ''toHexadecimal'') [Public, Abstract],
      Method ''getUrn'' None (A_interface ''getUrn'') [Public, Abstract],
      Method ''toUrn'' None (A_interface ''toUrn'') [Public, Abstract],
      Method ''getVersion'' None (A_interface ''getVersion'') [Public, Abstract],
      Method ''getVariant'' None (A_interface ''getVariant'') [Public, Abstract],
      Method ''getInteger'' None (A_interface ''getInteger'') [Public, Abstract],
      Method ''toInteger'' None (A_interface ''toInteger'') [Public, Abstract],
      Method ''getDateTime'' None (A_interface ''getDateTime'') [Public, Abstract],
      Method ''getTimestampMillis'' None (A_interface ''getTimestampMillis'') [Public, Abstract],
      Method ''getFields'' None (A_interface ''getFields'') [Public, Abstract],
      Method ''equals'' None (A_interface ''equals'') [Public, Abstract],
      Method ''compareTo'' None (A_interface ''compareTo'') [Public, Abstract],
      Method ''jsonSerialize'' None (A_interface ''jsonSerialize'') [Public, Abstract],
      Method ''__serialize'' None (A_interface ''__serialize'') [Public, Abstract],
      Method ''__unserialize'' None (A_interface ''__unserialize'') [Public, Abstract]]"

definition class_FastUuid_Uuid_methods :: "method_entry list" where
  "class_FastUuid_Uuid_methods =
     [Method ''uuid1'' (Some ''uuid1'') (A_uuid ''uuid1'') [Public, Static],
      Method ''uuid2'' (Some ''uuid2'') (A_uuid ''uuid2'') [Public, Static],
      Method ''uuid3'' (Some ''uuid3'') (A_uuid ''uuid3'') [Public, Static],
      Method ''uuid4'' (Some ''uuid4'') (A_uuid ''uuid4'') [Public, Static],
      Method ''uuid5'' (Some ''uuid5'') (A_uuid ''uuid5'') [Public, Static],
      Method ''uuid6'' (Some ''uuid6'') (A_uuid ''uuid6'') [Public, Static],
      Method ''uuid7'' (Some ''uuid7'') (A_uuid ''uuid7'') [Public, Static],
      Method ''uuid8'' (Some ''uuid8'') (A_uuid ''uuid8'') [Public, Static],
      Method ''fromString'' (Some ''fromString'') (A_uuid ''fromString'') [Public, Static],
      Method ''fromBytes'' (Some ''fromBytes'') (A_uuid ''fromBytes'') [Public, Static],
      Method ''fromInteger'' (Some ''fromInteger'') (A_uuid ''fromInteger'') [Public, Static],
      Method ''fromHexadecimal'' (Some ''fromHexadecimal'') (A_uuid ''fromHexadecimal'') [Public, Static],
      Method ''fromDateTime'' (Some ''fromDateTime'') (A_uuid ''fromDateTime'') [Public, Static],
      Method ''isValid'' (Some ''isValid'') (A_uuid ''isValid'') [Public, Static],
      Method ''__construct'' (Some ''__construct'') (A_uuid ''__construct'') [Private],
      Method ''toString'' (Some ''toString'') (A_uuid ''toString'') [Public],
      Method ''__toString'' (Some ''toString'') (A_uuid ''__toString'') [Public],
      Method ''getBytes'' (Some ''getBytes'') (A_uuid ''getBytes'') [Public],
      Method ''toBytes'' (Some ''getBytes'') (A_uuid ''toBytes'') [Public],
      Method ''getHex'' (Some ''getHex'') (A_uuid ''getHex'') [Public],
      Method ''toHexadecimal'' (Some ''getHex'') (A_uuid ''toHexadecimal'') [Public],
      Method ''getUrn'' (Some ''getUrn'') (A_uuid ''getUrn'') [Public],
      Method ''toUrn'' (Some ''getUrn'') (A_uuid ''toUrn'') [Public],
      Method ''getVersion'' (Some ''getVersion'') (A_uuid ''getVersion'') [Public],
      Method ''getVariant'' (Some ''getVariant'') (A_uuid ''getVariant'') [Public],
      Method ''getInteger'' (Some ''getInteger'') (A_uuid ''getInteger'') [Public],
      Method ''toInteger'' (Some ''getInteger'') (A_uuid ''toInteger'') [Public],
      Method ''getDateTime'' (Some ''getDateTime'') (A_uuid ''getDateTime'') [Public],
      Method ''getTimestampMillis'' (Some ''getTimestampMillis'') (A_uuid ''getTimestampMillis'') [Public],
      Method ''getFields'' (Some ''getFields'') (A_uuid ''getFields'') [Public],
      Method ''equals'' (Some ''equals'') (A_uuid ''equals'') [Public],
      Method ''compareTo'' (Some ''compareTo'') (A_uuid ''compareTo'') [Public],
      Method ''jsonSerialize'' (Some ''jsonSerialize'') (A_uuid ''jsonSerialize'') [Public],
      Method ''__serialize'' (Some ''__serialize'') (A_uuid ''__serialize'') [Public],
      Method ''__unserialize'' (Some ''__unserialize'') (A_uuid ''__unserialize'') [Public],
      Method ''__set_state'' (Some ''__set_state'') (A_uuid ''__set_state'') [Public, Static]]"

subsection \<open>Class constants\<close>

definition Uuid_constants :: "(string \<times> zval) list" where
  "Uuid_constants =
     [(''NIL'', IS_STRING (lit ''00000000-0000-0000-0000-000000000000'')),
      (''MAX'', IS_STRING (lit ''ffffffff-ffff-ffff-ffff-ffffffffffff'')),
      (''NAMESPACE_DNS'', IS_STRING (lit ''6ba7b810-9dad-11d1-80b4-00c04fd430c8'')),
      (''NAMESPACE_URL'', IS_STRING (lit ''6ba7b811-9dad-11d1-80b4-00c04fd430c8'')),
      (''NAMESPACE_OID'', IS_STRING (lit ''6ba7b812-9dad-11d1-80b4-00c04fd430c8'')),
      (''NAMESPACE_X500'', IS_STRING (lit ''6ba7b814-9dad-11d1-80b4-00c04fd430c8'')),
      (''DCE_DOMAIN_PERSON'', IS_LONG 0),
      (''DCE_DOMAIN_GROUP'', IS_LONG 1),
      (''DCE_DOMAIN_ORG'', IS_LONG 2)]"

subsection \<open>The class implements its interface\<close>

lemma arginfo_step:
  "arginfo n =
     (case map_of (arginfo_table n) n of
        None \<Rightarrow> None
      | Some (Info i) \<Rightarrow> Some i
      | Some (Alias a) \<Rightarrow> expand_arginfo (Suc (Suc 0)) a)"
  by (simp add: arginfo_def eval_nat_numeral split: option.splits arginfo_decl.splits)

text \<open>A public, concrete, non-static method of the table with the signature of the abstract method \<open>i\<close>.\<close>

definition implements_method :: "method_entry list \<Rightarrow> method_entry \<Rightarrow> bool" where
  "implements_method ms i =
     (m_flags i = [Public, Abstract] \<and> m_handler i = None \<and>
      list_ex (\<lambda>m. m_name m = m_name i \<and> m_handler m \<noteq> None \<and> m_flags m = [Public]
        \<and> arginfo (m_arginfo m) \<noteq> None \<and> arginfo (m_arginfo m) = arginfo (m_arginfo i)) ms)"

definition same_info :: "string \<Rightarrow> bool" where
  "same_info n = (arginfo (A_uuid n) \<noteq> None \<and> arginfo (A_interface n) = arginfo (A_uuid n))"

lemma same_infos_text:
  "list_all same_info [''toString'', ''__toString'', ''getBytes'', ''toBytes'', ''getHex'', ''toHexadecimal'', ''getUrn'', ''toUrn'',
     ''getInteger'', ''toInteger'', ''jsonSerialize'']"
  by (simp only: list.pred_inject; intro conjI TrueI;
      simp only: same_info_def; simp add: arginfo_step arginfo_class_def arginfo_interface_def arginfo_functions_def)

lemma same_infos_other:
  "list_all same_info [''getVersion'', ''getVariant'', ''getDateTime'', ''getTimestampMillis'', ''getFields'', ''equals'', ''compareTo'',
     ''__serialize'', ''__unserialize'']"
  by (simp only: list.pred_inject; intro conjI TrueI;
      simp only: same_info_def; simp add: arginfo_step arginfo_class_def arginfo_interface_def)

text \<open>C37: the class implements its interface: each of the twenty abstract methods of \<open>UuidValueInterface\<close> has in
  the method table of \<open>Uuid\<close> a public, non-static method of its name with a handler and exactly its
  signature (parameters, defaults, return type); no method is declared twice; and the aliases share
  the handler of the method they stand for.\<close>

theorem class_implements_interface:
  "list_all (implements_method class_FastUuid_Uuid_methods) class_FastUuid_UuidValueInterface_methods \<and>
   distinct (map m_name class_FastUuid_Uuid_methods) \<and>
   list_all (\<lambda>(alias, name). list_ex (\<lambda>m. m_name m = alias \<and> m_handler m = Some name) class_FastUuid_Uuid_methods)
     [(''__toString'', ''toString''), (''toBytes'', ''getBytes''), (''toHexadecimal'', ''getHex''), (''toUrn'', ''getUrn''),
      (''toInteger'', ''getInteger'')]"
proof (intro conjI)
  show "list_all (implements_method class_FastUuid_Uuid_methods) class_FastUuid_UuidValueInterface_methods"
    using same_infos_text same_infos_other
    by (simp add: same_info_def implements_method_def class_FastUuid_Uuid_methods_def
        class_FastUuid_UuidValueInterface_methods_def)
  show "distinct (map m_name class_FastUuid_Uuid_methods)"
    by (simp add: class_FastUuid_Uuid_methods_def)
qed (simp add: class_FastUuid_Uuid_methods_def)

end
