(* ===== verification/Fu_Types.thy ===== *)
theory Fu_Types
  imports Fu_Classes
begin

section \<open>Results have their declared types\<close>

text \<open>
  The engine trusts the argument infos of internal functions: it does not check what a handler
  returns.  Here every function, static method and instance method is compared with the table entry
  it is registered under.
\<close>

text \<open>The class of a live object, and whether a value is an instance of the class a name denotes in the engine's class
  table.\<close>

definition class_at :: "'w zend \<Rightarrow> 'w vm \<Rightarrow> nat \<Rightarrow> class_entry option" where
  "class_at Z vm o1 = map_option (\<lambda>zo. case zo of Uuid _ \<Rightarrow> fast_uuid_ce Z | Other ce \<Rightarrow> ce) (objects vm o1)"

definition is_instance :: "'w zend \<Rightarrow> 'w vm \<Rightarrow> zval \<Rightarrow> string \<Rightarrow> bool" where
  "is_instance Z vm v name \<longleftrightarrow>
     (\<exists>o1 ce req. v = IS_OBJECT o1 \<and> class_at Z vm o1 = Some ce \<and> lookup_class Z (lit name) = Some req \<and>
        instanceof_function Z ce req)"

text \<open>A value of a built-in type, or an instance of a class.\<close>

definition has_type :: "'w zend \<Rightarrow> 'w vm \<Rightarrow> zval \<Rightarrow> php_type \<Rightarrow> bool" where
  "has_type Z vm v t =
     (case t of
        T_STRING \<Rightarrow> (case v of IS_STRING _ \<Rightarrow> True | _ \<Rightarrow> False)
      | T_LONG \<Rightarrow> (case v of IS_LONG _ \<Rightarrow> True | _ \<Rightarrow> False)
      | T_BOOL \<Rightarrow> (case v of IS_BOOL _ \<Rightarrow> True | _ \<Rightarrow> False)
      | T_ARRAY \<Rightarrow> (case v of IS_ARRAY _ \<Rightarrow> True | _ \<Rightarrow> False)
      | T_NULL \<Rightarrow> v = IS_NULL
      | T_VOID \<Rightarrow> v = IS_NULL
      | T_OBJECT \<Rightarrow> is_object v
      | T_MIXED \<Rightarrow> v \<noteq> IS_UNDEF
      | T_STATIC \<Rightarrow> native vm v \<noteq> None
      | T_CLASS c \<Rightarrow> is_instance Z vm v c)"

definition has_one_of :: "'w zend \<Rightarrow> 'w vm \<Rightarrow> zval \<Rightarrow> php_type list \<Rightarrow> bool" where
  "has_one_of Z vm v ts = list_ex (has_type Z vm v) ts"

text \<open>A result has the declared type; nothing is declared for a constructor.\<close>

definition returns_declared :: "'w zend \<Rightarrow> 'w vm \<Rightarrow> arginfo_name \<Rightarrow> zval \<Rightarrow> bool" where
  "returns_declared Z vm n v =
     (case arginfo n of
        None \<Rightarrow> False
      | Some i \<Rightarrow> (case return_types i of None \<Rightarrow> True | Some ts \<Rightarrow> has_one_of Z vm v ts))"

subsection \<open>Functions\<close>

fun fn_name :: "fn_call \<Rightarrow> string" where
  "fn_name (Generate V1 bin) = (if bin then ''uuid_v1_bin'' else ''uuid_v1'')"
| "fn_name (Generate V4 bin) = (if bin then ''uuid_v4_bin'' else ''uuid_v4'')"
| "fn_name (Generate V4_fast bin) = (if bin then ''uuid_v4_fast_bin'' else ''uuid_v4_fast'')"
| "fn_name (Generate V6 bin) = (if bin then ''uuid_v6_bin'' else ''uuid_v6'')"
| "fn_name (Generate V7 bin) = (if bin then ''uuid_v7_bin'' else ''uuid_v7'')"
| "fn_name (V7_at ms bin) = (if bin then ''uuid_v7_at_bin'' else ''uuid_v7_at'')"
| "fn_name (V3 ns name bin) = (if bin then ''uuid_v3_bin'' else ''uuid_v3'')"
| "fn_name (V5 ns name bin) = (if bin then ''uuid_v5_bin'' else ''uuid_v5'')"
| "fn_name (V8 data bin) = (if bin then ''uuid_v8_bin'' else ''uuid_v8'')"
| "fn_name (V4_batch n bin) = (if bin then ''uuid_v4_bin_batch'' else ''uuid_v4_batch'')"
| "fn_name (V7_batch n bin) = (if bin then ''uuid_v7_bin_batch'' else ''uuid_v7_batch'')"
| "fn_name (To_bin str) = ''uuid_to_bin''"
| "fn_name (From_bin str) = ''uuid_from_bin''"
| "fn_name (Is_valid str) = ''uuid_is_valid''"
| "fn_name (Random n) = ''fast_uuid_random_bytes''"

text \<open>The arguments as the engine passes them.\<close>

fun fn_argv :: "fn_call \<Rightarrow> zval list" where
  "fn_argv (Generate g bin) = []"
| "fn_argv (V7_at ms bin) = [IS_LONG ms]"
| "fn_argv (V3 ns name bin) = [IS_STRING ns, IS_STRING name]"
| "fn_argv (V5 ns name bin) = [IS_STRING ns, IS_STRING name]"
| "fn_argv (V8 data bin) = [IS_STRING data]"
| "fn_argv (V4_batch n bin) = [IS_LONG n]"
| "fn_argv (V7_batch n bin) = [IS_LONG n]"
| "fn_argv (To_bin str) = [IS_STRING str]"
| "fn_argv (From_bin str) = [IS_STRING str]"
| "fn_argv (Is_valid str) = [IS_STRING str]"
| "fn_argv (Random n) = [IS_LONG n]"

definition accepts_args :: "'w zend \<Rightarrow> 'w vm \<Rightarrow> arginfo_name \<Rightarrow> zval list \<Rightarrow> bool" where
  "accepts_args Z vm n argv =
     (case arginfo n of
        None \<Rightarrow> False
      | Some i \<Rightarrow> num_required i = length argv \<and>
          list_all2 (\<lambda>v a. case a of Arg name ts d \<Rightarrow> has_one_of Z vm v ts) argv (arg_infos i))"

text \<open>The signature of each function.\<close>

fun fn_sig :: "fn_call \<Rightarrow> fn_info" where
  "fn_sig (Generate g bin) = Fn_info 0 (Some [T_STRING]) []"
| "fn_sig (V7_at ms bin) = Fn_info 1 (Some [T_STRING]) [Arg ''unixMillis'' [T_LONG] None]"
| "fn_sig (V3 ns name bin) = Fn_info 2 (Some [T_STRING]) [Arg ''ns'' [T_STRING] None, Arg ''name'' [T_STRING] None]"
| "fn_sig (V5 ns name bin) = Fn_info 2 (Some [T_STRING]) [Arg ''ns'' [T_STRING] None, Arg ''name'' [T_STRING] None]"
| "fn_sig (V8 data bin) = Fn_info 1 (Some [T_STRING]) [Arg ''bytes'' [T_STRING] None]"
| "fn_sig (V4_batch n bin) = Fn_info 1 (Some [T_ARRAY]) [Arg ''count'' [T_LONG] None]"
| "fn_sig (V7_batch n bin) = Fn_info 1 (Some [T_ARRAY]) [Arg ''count'' [T_LONG] None]"
| "fn_sig (To_bin str) = Fn_info 1 (Some [T_STRING]) [Arg ''uuid'' [T_STRING] None]"
| "fn_sig (From_bin str) = Fn_info 1 (Some [T_STRING]) [Arg ''bytes'' [T_STRING] None]"
| "fn_sig (Is_valid str) = Fn_info 1 (Some [T_BOOL]) [Arg ''uuid'' [T_STRING] None]"
| "fn_sig (Random n) = Fn_info 1 (Some [T_STRING]) [Arg ''length'' [T_LONG] None]"

lemma arginfo_fn: "arginfo (A_fn (fn_name c)) = Some (fn_sig c)"
proof (cases c)
  case (Generate g bin)
  then show ?thesis by (cases g; cases bin; simp add: arginfo_step arginfo_functions_def)
next
  case (V7_at ms bin)
  then show ?thesis by (cases bin; simp add: arginfo_step arginfo_functions_def)
next
  case (V3 ns name bin)
  then show ?thesis by (cases bin; simp add: arginfo_step arginfo_functions_def)
next
  case (V5 ns name bin)
  then show ?thesis by (cases bin; simp add: arginfo_step arginfo_functions_def)
next
  case (V8 data bin)
  then show ?thesis by (cases bin; simp add: arginfo_step arginfo_functions_def)
next
  case (V4_batch n bin)
  then show ?thesis by (cases bin; simp add: arginfo_step arginfo_functions_def)
next
  case (V7_batch n bin)
  then show ?thesis by (cases bin; simp add: arginfo_step arginfo_functions_def)
qed (simp_all add: arginfo_step arginfo_functions_def)

text \<open>Every function of the table accepts exactly the arguments its handler is modelled on, and a call
  that throws nothing returns a value of the declared type: the engine, which does not check the results of
  internal functions, never sees another.\<close>

theorem functions_typed:
  assumes "fu_inv (core vm)" and "vm_exception vm = None" and "build_ok B" and "fn_args_ok c"
    and "fn_run B c (core vm) = (rv, s')"
  shows "accepts_args Z vm (A_fn (fn_name c)) (fn_argv c) \<and>
    (EG_exception s' = None \<longrightarrow> returns_declared Z (vm\<lparr>core := s'\<rparr>) (A_fn (fn_name c)) rv)"
proof
  show "accepts_args Z vm (A_fn (fn_name c)) (fn_argv c)"
    unfolding accepts_args_def arginfo_fn by (cases c) (simp_all add: has_one_of_def has_type_def)
  have "fn_ok B c rv" if "EG_exception s' = None"
    using functions_outcome [OF assms] that by blast
  then show "EG_exception s' = None \<longrightarrow> returns_declared Z (vm\<lparr>core := s'\<rparr>) (A_fn (fn_name c)) rv"
    unfolding returns_declared_def arginfo_fn
    by (cases c) (auto simp: has_one_of_def has_type_def uuid_value_def uuid_array_def fu_retval_uuid_def packed_def)
qed

theorem functions_typed_witness:
  "accepts_args sample_zend sample_vm (A_fn ''uuid_v7_batch'') [IS_LONG 3] \<and>
   (\<exists>rv s'. fn_run sample_build (V7_batch 3 False) (core sample_vm) = (rv, s') \<and>
     (EG_exception s' = None \<longrightarrow> returns_declared sample_zend (sample_vm\<lparr>core := s'\<rparr>) (A_fn ''uuid_v7_batch'') rv))"
proof -
  obtain rv s' where r: "fn_run sample_build (V7_batch 3 False) (core sample_vm) = (rv, s')"
    by (cases "fn_run sample_build (V7_batch 3 False) (core sample_vm)")
  from functions_typed [OF vm_inv_core [OF sample_vm_inv(1)] sample_vm_inv(3) sample_build_ok _ r] r show ?thesis
    by (simp add: zend_long_range_def)
qed

subsection \<open>Methods\<close>

fun meth_name :: "meth \<Rightarrow> string" where
  "meth_name M_construct = ''__construct''"
| "meth_name M_toString = ''toString''"
| "meth_name M_getBytes = ''getBytes''"
| "meth_name M_getHex = ''getHex''"
| "meth_name M_getUrn = ''getUrn''"
| "meth_name M_getVersion = ''getVersion''"
| "meth_name M_getVariant = ''getVariant''"
| "meth_name M_getInteger = ''getInteger''"
| "meth_name M_getDateTime = ''getDateTime''"
| "meth_name M_getTimestampMillis = ''getTimestampMillis''"
| "meth_name M_getFields = ''getFields''"
| "meth_name (M_equals z) = ''equals''"
| "meth_name (M_compareTo z) = ''compareTo''"
| "meth_name M_jsonSerialize = ''jsonSerialize''"
| "meth_name M_serialize = ''__serialize''"
| "meth_name (M_unserialize data) = ''__unserialize''"

fun static_name :: "static \<Rightarrow> string" where
  "static_name (S_factory (F_uuid1 node cs)) = ''uuid1''"
| "static_name (S_factory (F_uuid2 dm lid node cs)) = ''uuid2''"
| "static_name (S_factory (F_uuid3 zns name)) = ''uuid3''"
| "static_name (S_factory F_uuid4) = ''uuid4''"
| "static_name (S_factory (F_uuid5 zns name)) = ''uuid5''"
| "static_name (S_factory (F_uuid6 node cs)) = ''uuid6''"
| "static_name (S_factory (F_uuid7 w)) = ''uuid7''"
| "static_name (S_factory (F_uuid8 data)) = ''uuid8''"
| "static_name (S_factory (F_fromString str)) = ''fromString''"
| "static_name (S_factory (F_fromBytes str)) = ''fromBytes''"
| "static_name (S_factory (F_fromInteger str)) = ''fromInteger''"
| "static_name (S_factory (F_fromHexadecimal arg)) = ''fromHexadecimal''"
| "static_name (S_factory (F_fromDateTime o1 node cs)) = ''fromDateTime''"
| "static_name (S_isValid str) = ''isValid''"
| "static_name (S_set_state data) = ''__set_state''"

fun meth_returns :: "meth \<Rightarrow> php_type list option" where
  "meth_returns M_construct = None"
| "meth_returns M_getVersion = Some [T_LONG, T_NULL]"
| "meth_returns M_getVariant = Some [T_LONG]"
| "meth_returns M_getDateTime = Some [T_CLASS ''DateTimeImmutable'']"
| "meth_returns M_getTimestampMillis = Some [T_LONG]"
| "meth_returns M_getFields = Some [T_ARRAY]"
| "meth_returns (M_equals z) = Some [T_BOOL]"
| "meth_returns (M_compareTo z) = Some [T_LONG]"
| "meth_returns M_serialize = Some [T_ARRAY]"
| "meth_returns (M_unserialize data) = Some [T_VOID]"
| "meth_returns m = Some [T_STRING]"

fun static_returns :: "static \<Rightarrow> php_type list" where
  "static_returns (S_factory f) = [T_CLASS UuidValueInterface_name]"
| "static_returns (S_isValid str) = [T_BOOL]"
| "static_returns (S_set_state data) = [T_STATIC]"

lemma arginfo_meth: "map_option return_types (arginfo (A_uuid (meth_name m))) = Some (meth_returns m)"
  by (cases m; simp add: arginfo_step arginfo_class_def arginfo_interface_def arginfo_functions_def)

lemma arginfo_static: "map_option return_types (arginfo (A_uuid (static_name c))) = Some (Some (static_returns c))"
proof (cases c)
  case (S_factory f)
  then show ?thesis by (cases f; simp add: arginfo_step arginfo_class_def)
qed (simp_all add: arginfo_step arginfo_class_def arginfo_functions_def)

lemma returns_declared_meth:
  "returns_declared Z vm (A_uuid (meth_name m)) v \<longleftrightarrow> (case meth_returns m of None \<Rightarrow> True | Some ts \<Rightarrow> has_one_of Z vm v ts)"
  using arginfo_meth [of m] by (auto simp: returns_declared_def)

lemma returns_declared_static:
  "returns_declared Z vm (A_uuid (static_name c)) v \<longleftrightarrow> has_one_of Z vm v (static_returns c)"
  using arginfo_static [of c] by (auto simp: returns_declared_def)

text \<open>A call on the class or on an instance.\<close>

datatype class_call = On nat meth | Cls static

fun class_run :: "('w, 'm, 's) build \<Rightarrow> 'w zend \<Rightarrow> 'w date_api \<Rightarrow> class_call \<Rightarrow> 'w vm \<Rightarrow> zval \<times> 'w vm" where
  "class_run B Z D (On this m) = method_run B Z D this m"
| "class_run B Z D (Cls c) = static_run B Z D c"

fun call_name :: "class_call \<Rightarrow> string" where
  "call_name (On this m) = meth_name m"
| "call_name (Cls c) = static_name c"

fun call_args_ok :: "'w vm \<Rightarrow> class_call \<Rightarrow> bool" where
  "call_args_ok vm (On this m) = is_uuid vm this"
| "call_args_ok vm (Cls (S_factory f)) = factory_args_ok f"
| "call_args_ok vm (Cls c) = True"

text \<open>What the surroundings are relied on for.\<close>

definition runtime_ok :: "('w, 'm, 's) build \<Rightarrow> 'w zend \<Rightarrow> 'w date_api \<Rightarrow> bool" where
  "runtime_ok B Z D = (build_ok B \<and> zend_ok (simd B) Z \<and> date_ok (simd B) D \<and> date_make_ok (simd B) D)"

text \<open>The class table: \<open>DateTimeImmutable\<close> names the class ext/date makes its objects of, and the extension's class
  implements the interface registered under the name of its value interface, as start-up links them.\<close>

definition classes_ok :: "'w zend \<Rightarrow> 'w date_api \<Rightarrow> bool" where
  "classes_ok Z D \<longleftrightarrow>
     lookup_class Z (lit ''DateTimeImmutable'') = Some (date_immutable_ce D) \<and>
     instanceof_function Z (date_immutable_ce D) (date_immutable_ce D) \<and>
     (\<exists>iface. lookup_class Z (lit UuidValueInterface_name) = Some iface \<and> instanceof_function Z (fast_uuid_ce Z) iface)"

lemma native_is_instance: "classes_ok Z D \<Longrightarrow> native vm v \<noteq> None \<Longrightarrow> is_instance Z vm v UuidValueInterface_name"
  by (auto simp: is_instance_def classes_ok_def class_at_def dest!: native_SomeD)

lemma dated_is_instance: "classes_ok Z D \<Longrightarrow> dated D vm v t \<Longrightarrow> is_instance Z vm v ''DateTimeImmutable''"
  by (auto simp: is_instance_def classes_ok_def class_at_def dated_def)

lemma new_uuid_native: "new_uuid Q v vm \<Longrightarrow> native vm v \<noteq> None"
  by (auto simp: new_uuid_def is_uuid_def)

lemma set_state_outcome:
  assumes "vm_inv h vm" and "vm_exception vm = None"
  shows "factory_outcome h vm (\<lambda>b. length b = 16) (Uuid_set_state B data vm)"
  using assms by (auto simp: Uuid_set_state_def intro!: outcome_return dest: fu_parse_length split: option.splits zval.splits)

lemma class_call_outcome:
  assumes "vm_inv (simd B) vm" and "vm_exception vm = None" and "runtime_ok B Z D" and "call_args_ok vm c"
    and "class_run B Z D c vm = (rv, vm')"
  shows "vm_inv (simd B) vm' \<and>
    (classes_ok Z D \<and> vm_exception vm' = None \<longrightarrow> returns_declared Z vm' (A_uuid (call_name c)) rv)"
proof (cases c)
  case (On this m)
  have r: "method_run B Z D this m vm = (rv, vm')" and u: "is_uuid vm this" using assms(4,5) On by simp_all
  have o: "vm_inv (simd B) vm' \<and> (vm_exception vm' = None \<longrightarrow>
      method_result D vm' this (method_bytes m this vm vm') (Option.bind (method_arg m) (\<lambda>z. fst (fu_resolve_uuid B Z z vm))) m rv)"
    using assms(3) by (intro instance_outcome [OF assms(1) u assms(2) _ _ r]) (simp_all add: runtime_ok_def)
  have "has_one_of Z vm' rv ts"
    if "classes_ok Z D" "method_result D vm' this b rb m rv" "meth_returns m = Some ts" for b rb ts
    using that(2,3) dated_is_instance [OF that(1)]
    by (cases m) (auto simp: has_one_of_def has_type_def split: option.splits if_splits)
  with o show ?thesis by (auto simp: On returns_declared_meth split: option.splits)
next
  case (Cls s)
  show ?thesis
  proof (cases s)
    case (S_factory f)
    then have r: "factory_run B Z D f vm = (rv, vm')" and a: "factory_args_ok f" using assms(4,5) Cls by simp_all
    have "vm_inv (simd B) vm' \<and> (vm_exception vm' = None \<longleftrightarrow> rv \<noteq> IS_NULL) \<and>
        (rv \<noteq> IS_NULL \<longrightarrow> new_uuid (factory_bytes B Z D vm f) rv vm') \<and> created (args_read B Z D f vm) rv vm'"
      using assms(3) by (intro static_outcome [where h = "simd B", OF assms(1,2) _ _ _ a r]) (simp_all add: runtime_ok_def)
    then show ?thesis
      unfolding Cls call_name.simps returns_declared_static
      using native_is_instance [of Z D vm' rv] new_uuid_native [of _ rv vm'] by (auto simp: S_factory has_one_of_def has_type_def)
  next
    case (S_set_state data)
    with set_state_outcome [OF assms(1,2), of B data] assms(5) show ?thesis
      unfolding Cls call_name.simps returns_declared_static
      using new_uuid_native [of _ rv vm'] by (auto simp: Cls has_one_of_def has_type_def factory_outcome_def)
  next
    case (S_isValid str)
    with assms(1,5) show ?thesis
      unfolding Cls call_name.simps returns_declared_static
      by (auto simp: Cls Uuid_isValid_def has_one_of_def has_type_def)
  qed
qed

text \<open>C38: every method of the class, static or not, keeps the invariant, and when it throws nothing its
  result has the return type declared for it in \<open>fast_uuid_arginfo.h\<close>: a factory returns an instance of what the engine's
  class table has under the value interface's name, \<open>__set_state\<close> one of the class itself, \<open>getDateTime\<close> an instance of
  \<open>DateTimeImmutable\<close>, \<open>getVersion\<close> an int or null, the other accessors strings, ints, booleans and arrays.\<close>

theorem class_calls_typed:
  assumes "vm_inv (simd B) vm" and "vm_exception vm = None" and "runtime_ok B Z D" and "call_args_ok vm c"
    and "class_run B Z D c vm = (rv, vm')" and "classes_ok Z D"
  shows "vm_inv (simd B) vm' \<and> (vm_exception vm' = None \<longrightarrow> returns_declared Z vm' (A_uuid (call_name c)) rv)"
  using class_call_outcome [OF assms(1-5)] assms(6) by simp

lemma sample_runtime_ok: "runtime_ok sample_build sample_zend sample_date"
  by (simp add: runtime_ok_def sample_build_ok sample_zend_ok sample_date_ok sample_date_make_ok)

text \<open>An engine that knows the two classes (3 and 5) by name.\<close>

definition sample_engine :: "nat zend" where
  "sample_engine = sample_zend
     \<lparr>lookup_class := (\<lambda>n. if n = lit ''DateTimeImmutable'' then Some 3 else if n = lit UuidValueInterface_name then Some 5 else None),
      instanceof_function := (\<lambda>c d. c = d \<or> d = 1 \<or> c = 0 \<and> d = 5)\<rparr>"

lemma sample_engine_ok: "runtime_ok sample_build sample_engine sample_date" "classes_ok sample_engine sample_date"
proof -
  have "zend_ok h sample_engine" for h by (simp add: zend_ok_def sample_engine_def sample_zend_def)
  then show "runtime_ok sample_build sample_engine sample_date"
    by (simp add: runtime_ok_def sample_build_ok sample_date_ok sample_date_make_ok)
  have "length (lit UuidValueInterface_name) \<noteq> length (lit ''DateTimeImmutable'')" by (simp add: UuidValueInterface_name_def)
  then have "lit UuidValueInterface_name \<noteq> lit ''DateTimeImmutable''" by metis
  then show "classes_ok sample_engine sample_date" by (simp add: classes_ok_def sample_engine_def sample_date_def sample_zend_def)
qed

theorem class_calls_typed_witness:
  "\<exists>rv vm'. class_run sample_build sample_engine sample_date (Cls (S_factory F_uuid4)) sample_vm = (rv, vm') \<and>
     vm_inv (simd sample_build) vm' \<and> (vm_exception vm' = None \<longrightarrow> returns_declared sample_engine vm' (A_uuid ''uuid4'') rv)"
proof -
  obtain rv vm' where r: "class_run sample_build sample_engine sample_date (Cls (S_factory F_uuid4)) sample_vm = (rv, vm')"
    by (cases "class_run sample_build sample_engine sample_date (Cls (S_factory F_uuid4)) sample_vm")
  have "vm_inv (simd sample_build) sample_vm" using sample_vm_inv(1) by (simp add: sample_build_def)
  from class_calls_typed [OF this sample_vm_inv(3) sample_engine_ok(1) _ r sample_engine_ok(2)] r show ?thesis by simp
qed

end
