(* ===== verification/Fu_Flf.thy ===== *)
theory Fu_Flf
  imports Fu_State
begin

section \<open>Frameless-call slots\<close>

text \<open>
  On PHP 8.4 and later the engine keeps a process-global, null-terminated table \<open>zend_flf_handlers\<close> to
  which registering a module appends its frameless handlers.  The code finds this module's run of
  slots in it, keys the opcode cache's system id to the run (persistent load) or overwrites the run
  (a \<open>dl()\<close> load, whose code is unmapped at the end of the request).  A pointer is a number, the
  table the list of its words; the first null ends it, and a null table pointer is the empty list.
\<close>

type_synonym ptr = nat

subsection \<open>This module's handlers\<close>

text \<open>The frameless variants of each function, by arity, and the function table of the stub, in order.  In
  each entry of the table the handler, the argument info and the \<open>frameless_function_infos\<close> are the ones
  named after the function.\<close>

definition frameless_function_infos :: "(string \<times> nat list) list" where
  "frameless_function_infos =
     [(''uuid_v1'', [0]), (''uuid_v1_bin'', [0]), (''uuid_v3'', [2]), (''uuid_v3_bin'', [2]),
      (''uuid_v4'', [0]), (''uuid_v4_bin'', [0]), (''uuid_v4_fast'', [0]), (''uuid_v4_fast_bin'', [0]),
      (''uuid_v5'', [2]), (''uuid_v5_bin'', [2]), (''uuid_v6'', [0]), (''uuid_v6_bin'', [0]),
      (''uuid_v7'', [0]), (''uuid_v7_bin'', [0]), (''uuid_v7_at'', [1]), (''uuid_v7_at_bin'', [1]),
      (''uuid_v8'', [1]), (''uuid_v8_bin'', [1]), (''uuid_v4_batch'', [1]), (''uuid_v7_batch'', [1]),
      (''uuid_v4_bin_batch'', [1]), (''uuid_v7_bin_batch'', [1]), (''uuid_to_bin'', [1]),
      (''uuid_from_bin'', [1]), (''uuid_is_valid'', [1]), (''fast_uuid_random_bytes'', [1])]"

definition ext_functions :: "string list" where
  "ext_functions =
     [''uuid_v1'', ''uuid_v1_bin'', ''uuid_v3'', ''uuid_v3_bin'', ''uuid_v4'', ''uuid_v4_bin'',
      ''uuid_v4_fast'', ''uuid_v4_fast_bin'', ''uuid_v5'', ''uuid_v5_bin'', ''uuid_v6'', ''uuid_v6_bin'',
      ''uuid_v7'', ''uuid_v7_bin'', ''uuid_v7_at'', ''uuid_v7_at_bin'', ''uuid_v8'', ''uuid_v8_bin'',
      ''uuid_v4_batch'', ''uuid_v7_batch'', ''uuid_v4_bin_batch'', ''uuid_v7_bin_batch'', ''uuid_to_bin'',
      ''uuid_from_bin'', ''uuid_is_valid'', ''fast_uuid_random_bytes'']"

definition FU_FLF_MAX :: nat where
  "FU_FLF_MAX = 64"

text \<open>A function entry as the loops see it: its name and, unless its \<open>frameless_function_infos\<close> is null, the
  address of that array and the handlers in it up to the terminator.\<close>

record fentry =
  fname :: string
  infos :: "(ptr \<times> ptr list) option"

text \<open>The table once the loader has placed the handlers and the arrays.\<close>

definition entries_at :: "(string \<Rightarrow> nat \<Rightarrow> ptr) \<Rightarrow> (string \<Rightarrow> ptr) \<Rightarrow> fentry list" where
  "entries_at handler_of infos_of =
     map (\<lambda>f. \<lparr>fname = f, infos =
            map_option (\<lambda>arities. (infos_of f, map (handler_of f) arities)) (map_of frameless_function_infos f)\<rparr>)
       ext_functions"

text \<open>\<open>out\<close> holds what was stored, at most \<open>cap\<close> pointers; the count goes on.\<close>

fun flf_collect :: "nat \<Rightarrow> ptr list \<Rightarrow> ptr list \<times> nat \<Rightarrow> ptr list \<times> nat" where
  "flf_collect cap [] acc = acc"
| "flf_collect cap (handler # hs) (out, n) =
     flf_collect cap hs (if n < cap then out @ [handler] else out, n + 1)"

definition fu_flf_handlers :: "fentry list \<Rightarrow> nat \<Rightarrow> ptr list \<times> nat" where
  "fu_flf_handlers fs cap =
     foldl (\<lambda>acc fe. case infos fe of None \<Rightarrow> acc | Some (a, hs) \<Rightarrow> flf_collect cap hs acc) ([], 0) fs"

subsection \<open>Finding the run\<close>

definition UINT32_MAX :: nat where
  "UINT32_MAX = 2 ^ 32 - 1"

definition fu_flf_run_at :: "ptr list \<Rightarrow> nat \<Rightarrow> ptr list \<Rightarrow> nat \<Rightarrow> bool" where
  "fu_flf_run_at tbl base handlers n = list_all (\<lambda>i. tbl ! (base + i) = handlers ! i) [0..<n]"

text \<open>The number of slots before the terminator.\<close>

definition flf_end :: "ptr list \<Rightarrow> nat" where
  "flf_end tbl = length (takeWhile (\<lambda>p. p \<noteq> 0) tbl)"

function flf_scan :: "ptr list \<Rightarrow> ptr list \<Rightarrow> nat \<Rightarrow> nat \<Rightarrow> nat \<Rightarrow> nat" where
  "flf_scan tbl handlers n end1 base =
     (if base + n \<le> end1 then
        (if fu_flf_run_at tbl base handlers n then base mod 2 ^ 32
         else flf_scan tbl handlers n end1 (base + 1))
      else UINT32_MAX)"
  by pat_completeness auto
termination
  by (relation "measure (\<lambda>(tbl, handlers, n, end1, base). Suc end1 - base)") auto

declare flf_scan.simps [simp del]

definition fu_flf_first_slot :: "ptr list \<Rightarrow> ptr list \<Rightarrow> nat \<Rightarrow> nat" where
  "fu_flf_first_slot tbl handlers n =
     (let end1 = flf_end tbl
      in if n = 0 \<or> end1 < n \<or> UINT32_MAX \<le> end1 - n then UINT32_MAX
         else if fu_flf_run_at tbl (end1 - n) handlers n then (end1 - n) mod 2 ^ 32
         else flf_scan tbl handlers n end1 0)"

subsection \<open>Keying the system id\<close>

text \<open>The calls of \<open>zend_add_system_entropy\<close>, in order: module, hook and data.\<close>

type_synonym entropy = "(string \<times> string \<times> byte list) list"

definition PHP_FAST_UUID_VERSION :: string where
  "PHP_FAST_UUID_VERSION = ''0.8.2''"

definition fu_flf_key_system_id :: "fentry list \<Rightarrow> ptr list \<Rightarrow> entropy \<Rightarrow> entropy" where
  "fu_flf_key_system_id fs tbl ent =
     (case fu_flf_handlers fs FU_FLF_MAX of
        (handlers, n) \<Rightarrow>
          (let key0 = (if n \<le> FU_FLF_MAX then fu_flf_first_slot tbl handlers n else UINT32_MAX)
           in ent @ [(''fast_uuid'', ''zend_flf_handlers'', le_store 4 (of_nat key0 :: u32) @ le_store 4 (of_nat n :: u32)),
                     (''fast_uuid'', ''version'', lit PHP_FAST_UUID_VERSION)]))"

subsection \<open>Disabling the handlers of a \<open>dl()\<close> load\<close>

text \<open>An entry of the engine's function table: whether it is an internal function, and its
  \<open>frameless_function_infos\<close> pointer (null is 0).\<close>

record zfn =
  is_internal :: bool
  fn_infos :: ptr

type_synonym fn_table = "string \<Rightarrow> zfn option"

definition str_tolower :: "string \<Rightarrow> string" where
  "str_tolower = map (\<lambda>c. if 65 \<le> (of_char c :: nat) \<and> (of_char c :: nat) \<le> 90 then char_of ((of_char c :: nat) + 32) else c)"

definition flf_clear_infos :: "fentry list \<Rightarrow> fn_table \<Rightarrow> fn_table" where
  "flf_clear_infos fs ft =
     foldl (\<lambda>ft fe. case infos fe of
         None \<Rightarrow> ft
       | Some (a, hs) \<Rightarrow>
           (case ft (str_tolower (fname fe)) of
              None \<Rightarrow> ft
            | Some fn \<Rightarrow>
                if is_internal fn \<and> fn_infos fn = a then ft(str_tolower (fname fe) \<mapsto> fn\<lparr>fn_infos := 0\<rparr>) else ft))
       ft fs"

text \<open>\<open>for (slot = table; *slot; slot++) if (*slot == handler) *slot = &zend_flf_handlers\<close>.\<close>

fun flf_overwrite :: "ptr \<Rightarrow> ptr \<Rightarrow> ptr list \<Rightarrow> ptr list" where
  "flf_overwrite tbl_addr handler [] = []"
| "flf_overwrite tbl_addr handler (p # ps) =
     (if p = 0 then p # ps
      else (if p = handler then tbl_addr else p) # flf_overwrite tbl_addr handler ps)"

definition fu_flf_disable_for_dl :: "ptr \<Rightarrow> fentry list \<Rightarrow> fn_table \<times> ptr list \<Rightarrow> fn_table \<times> ptr list" where
  "fu_flf_disable_for_dl tbl_addr fs s =
     (let ft = flf_clear_infos fs (fst s); tbl = snd s
      in case fu_flf_handlers fs FU_FLF_MAX of
           (handlers, n) \<Rightarrow>
             (let base = (if n \<le> FU_FLF_MAX then fu_flf_first_slot tbl handlers n else UINT32_MAX)
              in if base \<noteq> UINT32_MAX
                 then (ft, foldl (\<lambda>t i. t[base + i := tbl_addr]) tbl [0..<n])
                 else (ft, foldl (\<lambda>t fe. case infos fe of
                               None \<Rightarrow> t
                             | Some (a, hs) \<Rightarrow> foldl (\<lambda>t handler. flf_overwrite tbl_addr handler t) t hs) tbl fs)))"

subsection \<open>The handlers of the module\<close>

definition flf_all :: "fentry list \<Rightarrow> ptr list" where
  "flf_all fs = concat (map (\<lambda>fe. case infos fe of None \<Rightarrow> [] | Some (a, hs) \<Rightarrow> hs) fs)"

lemma flf_collect_eq:
  "length out = min cap n \<Longrightarrow> flf_collect cap hs (out, n) = (out @ take (cap - n) hs, n + length hs)"
proof (induction hs arbitrary: out n)
  case (Cons h hs)
  show ?case
  proof (cases "n < cap")
    case True
    then have "cap - n = Suc (cap - Suc n)" by simp
    with True Cons show ?thesis by simp
  qed (use Cons in simp)
qed simp

lemma fu_flf_handlers_eq: "fu_flf_handlers fs cap = (take cap (flf_all fs), length (flf_all fs))"
proof -
  have "foldl (\<lambda>acc fe. case infos fe of None \<Rightarrow> acc | Some (a, hs) \<Rightarrow> flf_collect cap hs acc) (take cap xs, length xs) fs
      = (take cap (xs @ flf_all fs), length (xs @ flf_all fs))" for xs
  proof (induction fs arbitrary: xs)
    case (Cons fe fs)
    show ?case
    proof (cases "infos fe")
      case (Some ah)
      obtain a hs where ah: "ah = (a, hs)" by (cases ah)
      have "flf_collect cap hs (take cap xs, length xs) = (take cap (xs @ hs), length (xs @ hs))"
        by (subst flf_collect_eq) (simp_all add: min.commute)
      then show ?thesis using Cons.IH [of "xs @ hs"] by (simp add: Some ah flf_all_def)
    qed (use Cons.IH [of xs] in \<open>simp add: flf_all_def\<close>)
  qed (simp add: flf_all_def)
  from this [of "[]"] show ?thesis by (simp add: fu_flf_handlers_def)
qed

lemma flf_all_entries:
  "flf_all (entries_at handler_of infos_of)
    = concat (map (\<lambda>f. map (handler_of (fst f)) (snd f)) frameless_function_infos)"
  by (simp add: flf_all_def entries_at_def ext_functions_def frameless_function_infos_def)

text \<open>The stub's handlers fit the array.\<close>

lemma length_flf_all_entries: "length (flf_all (entries_at handler_of infos_of)) = 26"
  by (simp add: flf_all_entries frameless_function_infos_def)

lemma flf_end_le: "flf_end tbl \<le> length tbl"
  by (simp add: flf_end_def length_takeWhile_le)

lemma run_at_iff: "base + n \<le> length tbl \<Longrightarrow> n = length handlers \<Longrightarrow>
    fu_flf_run_at tbl base handlers n \<longleftrightarrow> take n (drop base tbl) = handlers"
  unfolding fu_flf_run_at_def list_all_iff list_eq_iff_nth_eq by (simp add: Ball_def)

lemma flf_scan_step:
  "base + n \<le> end1 \<Longrightarrow> flf_scan tbl handlers n end1 base =
    (if fu_flf_run_at tbl base handlers n then base mod 2 ^ 32 else flf_scan tbl handlers n end1 (base + 1))"
  "\<not> base + n \<le> end1 \<Longrightarrow> flf_scan tbl handlers n end1 base = UINT32_MAX"
  by (subst flf_scan.simps, simp)+

lemma flf_scan_found:
  "end1 < UINT32_MAX + n \<Longrightarrow> flf_scan tbl handlers n end1 base \<noteq> UINT32_MAX \<Longrightarrow>
    flf_scan tbl handlers n end1 base + n \<le> end1 \<and> fu_flf_run_at tbl (flf_scan tbl handlers n end1 base) handlers n"
proof (induction tbl handlers n end1 base rule: flf_scan.induct)
  case (1 tbl handlers n end1 base)
  then show ?case
  proof (cases "base + n \<le> end1")
    case le: True
    show ?thesis
    proof (cases "fu_flf_run_at tbl base handlers n")
      case True
      have "base mod 2 ^ 32 = base" using le "1.prems"(1) by (simp add: UINT32_MAX_def)
      with le True have "flf_scan tbl handlers n end1 base = base" by (simp add: flf_scan_step(1))
      with le True show ?thesis by simp
    next
      case False
      have e: "flf_scan tbl handlers n end1 base = flf_scan tbl handlers n end1 (base + 1)"
        using le False by (simp add: flf_scan_step(1))
      show ?thesis using "1.IH" [OF le False "1.prems"(1)] "1.prems"(2) unfolding e by blast
    qed
  qed (simp add: flf_scan_step(2))
qed

lemma flf_scan_none:
  "end1 < UINT32_MAX + n \<Longrightarrow> flf_scan tbl handlers n end1 base = UINT32_MAX \<Longrightarrow>
    base \<le> k \<Longrightarrow> k + n \<le> end1 \<Longrightarrow> \<not> fu_flf_run_at tbl k handlers n"
proof (induction tbl handlers n end1 base rule: flf_scan.induct)
  case (1 tbl handlers n end1 base)
  have le: "base + n \<le> end1" using "1.prems" by simp
  show ?case
  proof (cases "fu_flf_run_at tbl base handlers n")
    case True
    have "base mod 2 ^ 32 = base" "base < UINT32_MAX" using le "1.prems"(1) by (simp_all add: UINT32_MAX_def)
    moreover have "flf_scan tbl handlers n end1 base = base mod 2 ^ 32" using le True by (simp add: flf_scan_step(1))
    ultimately show ?thesis using "1.prems"(2) by simp
  next
    case False
    have e: "flf_scan tbl handlers n end1 (base + 1) = UINT32_MAX"
      using flf_scan_step(1) [OF le, of tbl handlers] False "1.prems"(2) by simp
    show ?thesis
    proof (cases "k = base")
      case True
      with False show ?thesis by simp
    next
      case neq: False
      then have "base + 1 \<le> k" using "1.prems"(3) by simp
      from "1.IH" [OF le False "1.prems"(1) e this "1.prems"(4)] show ?thesis .
    qed
  qed
qed

text \<open>The slot found is a position of the run; none is found only if there is none.\<close>

lemma first_slot_found:
  assumes "fu_flf_first_slot tbl handlers n \<noteq> UINT32_MAX"
  shows "0 < n \<and> fu_flf_first_slot tbl handlers n + n \<le> flf_end tbl
    \<and> fu_flf_run_at tbl (fu_flf_first_slot tbl handlers n) handlers n"
proof -
  let ?e = "flf_end tbl"
  have c: "\<not> (n = 0 \<or> ?e < n \<or> UINT32_MAX \<le> ?e - n)"
    using assms by (auto simp: fu_flf_first_slot_def Let_def split: if_splits)
  then have lt: "?e < UINT32_MAX + n" and m: "(?e - n) mod 2 ^ 32 = ?e - n" by (auto simp: UINT32_MAX_def)
  show ?thesis
  proof (cases "fu_flf_run_at tbl (?e - n) handlers n")
    case True
    with c m show ?thesis by (auto simp: fu_flf_first_slot_def Let_def)
  next
    case False
    then have "fu_flf_first_slot tbl handlers n = flf_scan tbl handlers n ?e 0"
      using c by (simp add: fu_flf_first_slot_def Let_def)
    with flf_scan_found [OF lt] assms c show ?thesis by simp
  qed
qed

lemma first_slot_none:
  assumes "fu_flf_first_slot tbl handlers n = UINT32_MAX" and "flf_end tbl < UINT32_MAX" and "0 < n" and "k + n \<le> flf_end tbl"
  shows "\<not> fu_flf_run_at tbl k handlers n"
proof -
  let ?e = "flf_end tbl"
  have c: "\<not> (n = 0 \<or> ?e < n \<or> UINT32_MAX \<le> ?e - n)" and lt: "?e < UINT32_MAX + n"
    and m: "(?e - n) mod 2 ^ 32 = ?e - n" and ne: "?e - n \<noteq> UINT32_MAX"
    using assms(2-4) by (auto simp: UINT32_MAX_def)
  have "\<not> fu_flf_run_at tbl (?e - n) handlers n"
    using assms(1) c m ne by (auto simp: fu_flf_first_slot_def Let_def)
  then have "flf_scan tbl handlers n ?e 0 = UINT32_MAX"
    using assms(1) c by (simp add: fu_flf_first_slot_def Let_def)
  from flf_scan_none [OF lt this _ assms(4)] show ?thesis by simp
qed

lemma first_slot_tail:
  assumes "flf_end tbl < UINT32_MAX" and "0 < n" and "n \<le> flf_end tbl" and "fu_flf_run_at tbl (flf_end tbl - n) handlers n"
  shows "fu_flf_first_slot tbl handlers n = flf_end tbl - n"
  using assms by (simp add: fu_flf_first_slot_def Let_def UINT32_MAX_def)

lemma first_slot_le:
  assumes "flf_end tbl < UINT32_MAX"
  shows "fu_flf_first_slot tbl handlers n \<le> UINT32_MAX"
  using first_slot_found [of tbl handlers n] assms by (cases "fu_flf_first_slot tbl handlers n = UINT32_MAX") auto

subsection \<open>Disabling the run\<close>

lemma flf_end_append: "0 \<notin> set t \<Longrightarrow> flf_end (t @ 0 # r) = length t"
proof -
  assume "0 \<notin> set t"
  then have "takeWhile (\<lambda>p. p \<noteq> 0) (t @ 0 # r) = t @ takeWhile (\<lambda>p. p \<noteq> 0) (0 # r)"
    by (intro takeWhile_append2) metis
  then show ?thesis by (simp add: flf_end_def)
qed

lemma flf_fill_eq:
  "base + n \<le> length tbl \<Longrightarrow> foldl (\<lambda>t i. t[base + i := a]) tbl [0..<n] = take base tbl @ replicate n a @ drop (base + n) tbl"
proof (induction n)
  case (Suc n)
  have "foldl (\<lambda>t i. t[base + i := a]) tbl [0..<Suc n]
      = (foldl (\<lambda>t i. t[base + i := a]) tbl [0..<n])[base + n := a]" by simp
  also have "\<dots> = (take base tbl @ replicate n a @ drop (base + n) tbl)[base + n := a]"
    using Suc by simp
  also have "drop (base + n) tbl = tbl ! (base + n) # drop (base + Suc n) tbl"
    using Suc.prems by (simp add: Cons_nth_drop_Suc)
  also have "(take base tbl @ replicate n a @ tbl ! (base + n) # drop (base + Suc n) tbl)[base + n := a]
      = take base tbl @ replicate n a @ a # drop (base + Suc n) tbl"
    using Suc.prems by (simp add: list_update_append)
  also have "\<dots> = take base tbl @ replicate (Suc n) a @ drop (base + Suc n) tbl"
    by (simp add: replicate_app_Cons_same)
  finally show ?case .
qed simp

text \<open>Just after registration the run is the tail of the table, and disabling overwrites exactly it.\<close>

lemma disable_tail:
  assumes "0 \<notin> set t" and "0 \<notin> set (flf_all fs)" and "flf_all fs \<noteq> []" and "length (flf_all fs) \<le> FU_FLF_MAX"
    and "length t + length (flf_all fs) < UINT32_MAX"
  shows "fu_flf_disable_for_dl a fs (ft, t @ flf_all fs @ 0 # r)
    = (flf_clear_infos fs ft, t @ replicate (length (flf_all fs)) a @ 0 # r)"
proof -
  let ?h = "flf_all fs" let ?n = "length ?h" let ?tbl = "t @ ?h @ 0 # r"
  have e: "flf_end ?tbl = length t + ?n"
    using flf_end_append [of "t @ ?h" r] assms(1,2) by simp
  have ra: "fu_flf_run_at ?tbl (length t) ?h ?n" by (subst run_at_iff) simp_all
  have fs: "fu_flf_first_slot ?tbl ?h ?n = length t"
    using first_slot_tail [of ?tbl ?n ?h] assms(3,5) ra unfolding e by simp
  have "fu_flf_disable_for_dl a fs (ft, ?tbl)
      = (flf_clear_infos fs ft, foldl (\<lambda>t' i. t'[length t + i := a]) ?tbl [0..<?n])"
    using assms(4,5) by (simp add: fu_flf_disable_for_dl_def fu_flf_handlers_eq fs Let_def)
  then show ?thesis by (simp add: flf_fill_eq)
qed

text \<open>The infos of exactly this module's internal functions are cleared.\<close>

definition flf_owned :: "fentry list \<Rightarrow> string \<Rightarrow> zfn \<Rightarrow> bool" where
  "flf_owned fs k fn = (is_internal fn
     \<and> list_ex (\<lambda>fe. str_tolower (fname fe) = k \<and> map_option fst (infos fe) = Some (fn_infos fn)) fs)"

lemma flf_clear_infos_eq:
  assumes "\<And>fe. fe \<in> set fs \<Longrightarrow> map_option fst (infos fe) \<noteq> Some 0"
  shows "flf_clear_infos fs ft k = map_option (\<lambda>fn. if flf_owned fs k fn then fn\<lparr>fn_infos := 0\<rparr> else fn) (ft k)"
  using assms
proof (induction fs arbitrary: ft)
  case Nil
  then show ?case by (cases "ft k") (simp_all add: flf_clear_infos_def flf_owned_def)
next
  case (Cons fe fs)
  have nz: "map_option fst (infos x) \<noteq> Some 0" if "x \<in> set fs" for x using Cons.prems that by simp
  define ft' where "ft' = flf_clear_infos [fe] ft"
  have s: "flf_clear_infos (fe # fs) ft = flf_clear_infos fs ft'"
    by (simp add: ft'_def flf_clear_infos_def)
  have h: "ft' k = map_option (\<lambda>fn. if flf_owned [fe] k fn then fn\<lparr>fn_infos := 0\<rparr> else fn) (ft k)"
    by (cases "infos fe"; cases "ft k")
      (auto simp: ft'_def flf_clear_infos_def flf_owned_def split: option.splits prod.splits)
  have IH: "flf_clear_infos fs ft' k = map_option (\<lambda>fn. if flf_owned fs k fn then fn\<lparr>fn_infos := 0\<rparr> else fn) (ft' k)"
    by (rule Cons.IH) (use nz in blast)
  show ?case
  proof (cases "ft k")
    case None
    then show ?thesis unfolding s IH h by simp
  next
    case (Some fn)
    have z: "\<not> flf_owned fs k (fn\<lparr>fn_infos := 0\<rparr>)" using nz by (auto simp: flf_owned_def list_ex_iff)
    have o: "flf_owned (fe # fs) k fn = (flf_owned [fe] k fn \<or> flf_owned fs k fn)"
      by (auto simp: flf_owned_def)
    show ?thesis unfolding s IH h using z by (simp add: Some o)
  qed
qed

text \<open>A process that loads and unloads the module with \<open>dl()\<close>, each load at its own addresses.\<close>

definition flf_dl_loads :: "(ptr list \<Rightarrow> ptr list \<Rightarrow> ptr list) \<Rightarrow> ptr \<Rightarrow> fentry list list \<Rightarrow> fn_table \<times> ptr list \<Rightarrow> fn_table \<times> ptr list" where
  "flf_dl_loads register a loads s =
     foldl (\<lambda>s fs. fu_flf_disable_for_dl a fs (fst s, register (flf_all fs) (snd s))) s loads"

text \<open>What the engine's registration does to the table, as the code relies on it.\<close>

definition register_appends :: "(ptr list \<Rightarrow> ptr list \<Rightarrow> ptr list) \<Rightarrow> bool" where
  "register_appends register = (\<forall>hs t r. 0 \<notin> set t \<longrightarrow> (\<exists>r'. register hs (t @ 0 # r) = t @ hs @ 0 # r'))"

definition flf_loadable :: "fentry list \<Rightarrow> bool" where
  "flf_loadable fs = (0 \<notin> set (flf_all fs) \<and> flf_all fs \<noteq> [] \<and> length (flf_all fs) \<le> FU_FLF_MAX)"

lemma dl_loads_table:
  assumes "register_appends register" and "list_all flf_loadable loads" and "0 < a"
    and "0 \<notin> set t" and "length t + 64 * length loads < UINT32_MAX"
  shows "\<exists>r'. snd (flf_dl_loads register a loads (ft, t @ 0 # r))
      = t @ replicate (sum_list (map (\<lambda>fs. length (flf_all fs)) loads)) a @ 0 # r'"
  using assms(2-)
proof (induction loads arbitrary: t ft r)
  case (Cons fs loads)
  let ?n = "length (flf_all fs)"
  have f: "flf_loadable fs" and le: "?n \<le> 64" using Cons.prems(1) by (auto simp: flf_loadable_def FU_FLF_MAX_def)
  obtain r1 where r1: "register (flf_all fs) (t @ 0 # r) = t @ flf_all fs @ 0 # r1"
    using assms(1) Cons.prems(3) unfolding register_appends_def by meson
  have d: "fu_flf_disable_for_dl a fs (ft, t @ flf_all fs @ 0 # r1)
      = (flf_clear_infos fs ft, (t @ replicate ?n a) @ 0 # r1)"
    using disable_tail [of t fs a ft r1] f le Cons.prems(3,4) by (simp add: flf_loadable_def)
  have "flf_dl_loads register a (fs # loads) (ft, t @ 0 # r)
      = flf_dl_loads register a loads (flf_clear_infos fs ft, (t @ replicate ?n a) @ 0 # r1)"
    by (simp only: flf_dl_loads_def foldl_Cons fst_conv snd_conv r1 d)
  moreover have "\<exists>r'. snd (flf_dl_loads register a loads (flf_clear_infos fs ft, (t @ replicate ?n a) @ 0 # r1))
      = (t @ replicate ?n a) @ replicate (sum_list (map (\<lambda>fs. length (flf_all fs)) loads)) a @ 0 # r'"
    using Cons.prems le by (intro Cons.IH) auto
  ultimately show ?case by (auto simp: replicate_add)
qed (auto simp: flf_dl_loads_def)

text \<open>C20: However often a process loads and unloads the module with \<open>dl()\<close>, at whatever addresses, the
  slots other modules had before stay where they were and every slot the loads appended holds the address of
  the table, which is no handler.  So no slot is left that a handler mapped later could match: the
  compiler cannot bind a call to a freed function.\<close>

theorem fu_flf_dl_cycles:
  assumes "register_appends register" and "list_all flf_loadable loads" and "0 < a"
    and "0 \<notin> set t" and "length t + 64 * length loads < UINT32_MAX"
    and "tbl = snd (flf_dl_loads register a loads (ft, t @ 0 # r))"
  shows "take (length t) tbl = t \<and> flf_end tbl = length t + sum_list (map (\<lambda>fs. length (flf_all fs)) loads)
    \<and> (\<forall>i. length t \<le> i \<and> i < flf_end tbl \<longrightarrow> tbl ! i = a)"
proof -
  let ?k = "sum_list (map (\<lambda>fs. length (flf_all fs)) loads)"
  obtain r' where "tbl = t @ replicate ?k a @ 0 # r'"
    using dl_loads_table [OF assms(1-5)] assms(6) by blast
  moreover have "flf_end (t @ replicate ?k a @ 0 # r') = length t + ?k"
    using flf_end_append [of "t @ replicate ?k a" r'] assms(3,4) by (simp add: set_replicate_conv_if)
  ultimately show ?thesis by (auto simp: nth_append)
qed

definition sample_register :: "ptr list \<Rightarrow> ptr list \<Rightarrow> ptr list" where
  "sample_register hs tbl = takeWhile (\<lambda>p. p \<noteq> 0) tbl @ hs @ [0]"

lemma sample_register_appends: "register_appends sample_register"
  unfolding register_appends_def sample_register_def
proof (intro allI impI)
  fix hs t r :: "ptr list" assume "0 \<notin> set t"
  then have "takeWhile (\<lambda>p. p \<noteq> 0) (t @ 0 # r) = t @ takeWhile (\<lambda>p. p \<noteq> 0) (0 # r)"
    by (intro takeWhile_append2) metis
  then show "\<exists>r'. takeWhile (\<lambda>p. p \<noteq> 0) (t @ 0 # r) @ hs @ [0] = t @ hs @ 0 # r'" by simp
qed

theorem fu_flf_dl_cycles_witness:
  "let loads = [entries_at (\<lambda>f n. 5) (\<lambda>f. 9), entries_at (\<lambda>f n. 5) (\<lambda>f. 9)];
       tbl = snd (flf_dl_loads sample_register 1 loads (\<lambda>f. None, [7] @ 0 # []))
   in take 1 tbl = [7] \<and> flf_end tbl = 53 \<and> tbl ! 20 = 1"
proof -
  let ?e = "entries_at (\<lambda>f n. 5) (\<lambda>f. 9)"
  have e: "length (flf_all ?e) = 26" "set (flf_all ?e) = {5}"
    by (simp_all add: length_flf_all_entries) (simp add: flf_all_entries frameless_function_infos_def)
  then have l: "list_all flf_loadable [?e, ?e]" by (auto simp: flf_loadable_def FU_FLF_MAX_def)
  from fu_flf_dl_cycles [OF sample_register_appends l, of 1 "[7]" _ "\<lambda>f. None" "[]", OF _ _ _ refl]
  show ?thesis by (simp add: e Let_def UINT32_MAX_def)
qed

text \<open>C36: Two processes that give the opcode cache the same entropy found their frameless handlers at the
  same slots: a cached opcode's raw index, which was read from one table, names the same function of this
  module in the other.\<close>

theorem fu_flf_same_id_same_slots:
  assumes "fu_flf_key_system_id fs tbl ent = fu_flf_key_system_id fs' tbl' ent"
    and "flf_end tbl < UINT32_MAX" and "flf_end tbl' < UINT32_MAX"
    and "length (flf_all fs) \<le> FU_FLF_MAX" and "length (flf_all fs') \<le> FU_FLF_MAX"
    and "0 < length (flf_all fs)" and "k + length (flf_all fs) \<le> flf_end tbl"
    and "fu_flf_run_at tbl k (flf_all fs) (length (flf_all fs))"
  shows "\<exists>base. length (flf_all fs') = length (flf_all fs) \<and> base + length (flf_all fs) \<le> min (flf_end tbl) (flf_end tbl')
    \<and> take (length (flf_all fs)) (drop base tbl) = flf_all fs \<and> take (length (flf_all fs)) (drop base tbl') = flf_all fs'"
proof -
  let ?h = "flf_all fs" let ?h' = "flf_all fs'" let ?n = "length ?h" let ?n' = "length ?h'"
  let ?b = "fu_flf_first_slot tbl ?h ?n" let ?b' = "fu_flf_first_slot tbl' ?h' ?n'"
  have lt: "x = y" if "le_store 4 (of_nat x :: u32) = le_store 4 (of_nat y :: u32)" "x < 2 ^ 32" "y < 2 ^ 32" for x y
  proof -
    have "(of_nat x :: u32) = of_nat y"
      using arg_cong [OF that(1), of "le_load :: byte list \<Rightarrow> u32"] by (simp add: le_load_store)
    then have "unat (of_nat x :: u32) = unat (of_nat y :: u32)" by simp
    then show ?thesis using that(2,3) by (simp add: unat_of_nat)
  qed
  have bb: "?b \<noteq> UINT32_MAX" using first_slot_none [of tbl ?h ?n k] assms by blast
  have f: "?b + ?n \<le> flf_end tbl" "fu_flf_run_at tbl ?b ?h ?n" using first_slot_found [OF bb] by auto
  have nlt: "?n < 2 ^ 32" "?n' < 2 ^ 32" using assms(4,5) by (simp_all add: FU_FLF_MAX_def)
  have key: "le_store 4 (of_nat ?b :: u32) @ le_store 4 (of_nat ?n :: u32) = le_store 4 (of_nat ?b' :: u32) @ le_store 4 (of_nat ?n' :: u32)"
    using assms(1,4,5) by (simp add: fu_flf_key_system_id_def fu_flf_handlers_eq Let_def)
  have n: "?n = ?n'" using lt [of ?n ?n'] key nlt by simp
  have blt: "?b < 2 ^ 32" "?b' < 2 ^ 32"
    using first_slot_le [of tbl ?h ?n] first_slot_le [of tbl' ?h' ?n'] assms(2,3) by (simp_all add: UINT32_MAX_def)
  have b: "?b = ?b'" using lt [of ?b ?b'] key blt by simp
  with bb have bb': "?b' \<noteq> UINT32_MAX" by simp
  have f': "?b + ?n \<le> flf_end tbl'" "fu_flf_run_at tbl' ?b ?h' ?n'" using first_slot_found [OF bb'] b n by auto
  have "take ?n (drop ?b tbl) = ?h" using f run_at_iff [of ?b ?n tbl ?h] flf_end_le [of tbl] by simp
  moreover have "take ?n (drop ?b tbl') = ?h'" using f' n run_at_iff [of ?b ?n' tbl' ?h'] flf_end_le [of tbl'] by simp
  ultimately show ?thesis using n f(1) f'(1) by (intro exI [of _ ?b]) simp
qed

theorem fu_flf_same_id_same_slots_witness:
  "let fs = [\<lparr>fname = ''uuid_v4'', infos = Some (9, [5])\<rparr>]
   in \<exists>base. base + 1 \<le> 2 \<and> take 1 (drop base [7, 5, 0]) = flf_all fs \<and> take 1 (drop base [8, 5, 6, 0]) = flf_all fs"
proof -
  let ?fs = "[\<lparr>fname = ''uuid_v4'', infos = Some (9, [5])\<rparr>] :: fentry list"
  have h: "flf_all ?fs = [5]" by (simp add: flf_all_def)
  have e: "flf_end [7, 5, 0] = 2" "flf_end [8, 5, 6, 0] = 3" by (simp_all add: flf_end_def)
  have s: "fu_flf_first_slot [7, 5, 0] [5] 1 = 1" "fu_flf_first_slot [8, 5, 6, 0] [5] 1 = 1"
    by (simp_all add: fu_flf_first_slot_def e UINT32_MAX_def fu_flf_run_at_def flf_scan.simps)
  have k: "fu_flf_key_system_id ?fs [7, 5, 0] [] = fu_flf_key_system_id ?fs [8, 5, 6, 0] []"
    using s by (simp add: fu_flf_key_system_id_def fu_flf_handlers_eq h FU_FLF_MAX_def)
  from fu_flf_same_id_same_slots [OF k, of 1] show ?thesis
    by (simp add: h e UINT32_MAX_def FU_FLF_MAX_def fu_flf_run_at_def)
qed

end
