(* ===== verification/Fu_Module.thy ===== *)
theory Fu_Module
  imports Fu_Types Fu_Flf "HOL-Library.Sublist"
begin

section \<open>Module start-up\<close>

text \<open>
  \<open>PHP_MINIT\<close>: the frameless slots, the lookup tables, the fork handler, the CPU probes and the AES
  gate, and the registration of classes and interfaces; and \<open>PHP_MINFO\<close>.  What MINIT asks of the engine
  is a list of calls, each with all its arguments; what the engine answers a registration with (a class
  entry or null) is a function of the calls so far.
\<close>

subsection \<open>Registering classes\<close>

datatype reg_call =
  Register_interface string "method_entry list"
| Register_class string "class_entry option" "string list" "method_entry list"
| Class_implements "class_entry option" "class_entry list"
| Declare_constant "class_entry option" string zval

type_synonym engine = "reg_call list \<Rightarrow> class_entry option"

definition ns_name :: "string \<Rightarrow> string \<Rightarrow> string" where
  "ns_name ns cls = ns @ CHR 0x5C # cls"

text \<open>The pattern of every registration function: register, then implement the interfaces.\<close>

definition register_interface :: "engine \<Rightarrow> string \<Rightarrow> method_entry list \<Rightarrow> class_entry list \<Rightarrow> reg_call list \<Rightarrow>
    class_entry option \<times> reg_call list" where
  "register_interface E name ms ifaces log =
     (let log = log @ [Register_interface name ms]; ce = E log
      in (ce, log @ [Class_implements ce ifaces]))"

definition register_class :: "engine \<Rightarrow> string \<Rightarrow> class_entry option \<Rightarrow> string list \<Rightarrow> method_entry list \<Rightarrow> class_entry list \<Rightarrow>
    reg_call list \<Rightarrow> class_entry option \<times> reg_call list" where
  "register_class E name parent flags ms ifaces log =
     (let log = log @ [Register_class name parent flags ms]; ce = E log
      in (ce, log @ [Class_implements ce ifaces]))"

definition register_class_FastUuid_UuidInterface :: "engine \<Rightarrow> class_entry \<Rightarrow> class_entry \<Rightarrow> reg_call list \<Rightarrow>
    class_entry option \<times> reg_call list" where
  "register_class_FastUuid_UuidInterface E json stringable =
     register_interface E (ns_name ''FastUuid'' ''UuidInterface'') [] [json, stringable]"

definition register_class_FastUuid_UuidValueInterface :: "engine \<Rightarrow> class_entry \<Rightarrow> reg_call list \<Rightarrow>
    class_entry option \<times> reg_call list" where
  "register_class_FastUuid_UuidValueInterface E marker =
     register_interface E (ns_name ''FastUuid'' ''UuidValueInterface'') class_FastUuid_UuidValueInterface_methods [marker]"

definition register_class_FastUuid_Uuid :: "engine \<Rightarrow> class_entry \<Rightarrow> reg_call list \<Rightarrow> class_entry option \<times> reg_call list" where
  "register_class_FastUuid_Uuid E iface log =
     (case register_class E (ns_name ''FastUuid'' ''Uuid'') None [''FINAL'', ''NO_DYNAMIC_PROPERTIES'']
             class_FastUuid_Uuid_methods [iface] log of
        (ce, log) \<Rightarrow> (ce, log @ map (\<lambda>(name, v). Declare_constant ce name v) Uuid_constants))"

definition register_class_FastUuid_Exception_UuidExceptionInterface :: "engine \<Rightarrow> class_entry \<Rightarrow> reg_call list \<Rightarrow>
    class_entry option \<times> reg_call list" where
  "register_class_FastUuid_Exception_UuidExceptionInterface E throwable =
     register_interface E (ns_name (ns_name ''FastUuid'' ''Exception'') ''UuidExceptionInterface'') [] [throwable]"

definition register_class_FastUuid_Exception_InvalidArgumentException :: "engine \<Rightarrow> class_entry \<Rightarrow> class_entry \<Rightarrow>
    reg_call list \<Rightarrow> class_entry option \<times> reg_call list" where
  "register_class_FastUuid_Exception_InvalidArgumentException E parent iface =
     register_class E (ns_name (ns_name ''FastUuid'' ''Exception'') ''InvalidArgumentException'') (Some parent) [] [] [iface]"

definition register_class_FastUuid_Exception_InvalidUuidStringException :: "engine \<Rightarrow> class_entry \<Rightarrow> class_entry \<Rightarrow>
    reg_call list \<Rightarrow> class_entry option \<times> reg_call list" where
  "register_class_FastUuid_Exception_InvalidUuidStringException E parent iface =
     register_class E (ns_name (ns_name ''FastUuid'' ''Exception'') ''InvalidUuidStringException'') (Some parent) [] [] [iface]"

definition register_class_FastUuid_Exception_UnsupportedOperationException :: "engine \<Rightarrow> class_entry \<Rightarrow> class_entry \<Rightarrow>
    reg_call list \<Rightarrow> class_entry option \<times> reg_call list" where
  "register_class_FastUuid_Exception_UnsupportedOperationException E parent iface =
     register_class E (ns_name (ns_name ''FastUuid'' ''Exception'') ''UnsupportedOperationException'') (Some parent) [] [] [iface]"

subsection \<open>CPU probes\<close>

text \<open>\<open>__get_cpuid (1, \<dots>)\<close>: nothing if the leaf does not exist, else \<open>eax\<close>, \<open>ebx\<close>, \<open>ecx\<close> and \<open>edx\<close>.\<close>

type_synonym cpuid = "(u32 \<times> u32 \<times> u32 \<times> u32) option"

definition fu_detect_ssse3 :: "cpuid \<Rightarrow> int" where
  "fu_detect_ssse3 regs = (case regs of None \<Rightarrow> 0 | Some (eax, ebx, ecx, edx) \<Rightarrow> uint (drop_bit 9 ecx AND 1))"

definition HWCAP_AES :: u64 where
  "HWCAP_AES = push_bit 3 1"

text \<open>The probe of each build: x86, or ARM on Linux (the auxiliary vector's capabilities), Apple or another
  system.\<close>

datatype aes_probe = Probe_x86 cpuid | Probe_arm_linux u64 | Probe_arm_apple | Probe_arm_other

fun fu_detect_aes :: "aes_probe \<Rightarrow> int" where
  "fu_detect_aes (Probe_x86 regs) =
     (case regs of None \<Rightarrow> 0 | Some (eax, ebx, ecx, edx) \<Rightarrow> uint (drop_bit 25 ecx AND 1))"
| "fu_detect_aes (Probe_arm_linux hwcap) = (if hwcap AND HWCAP_AES \<noteq> 0 then 1 else 0)"
| "fu_detect_aes Probe_arm_apple = 1"
| "fu_detect_aes Probe_arm_other = - 1"

subsection \<open>MINIT\<close>

text \<open>What a build is compiled for and what a start-up finds: the fields the preprocessor fixes, the
  result of \<open>pthread_atfork\<close>, the probes, and the addresses the loader chose.\<close>

datatype arch = X86 | AARCH64 | Other_arch

record minit_env =
  php_version :: nat
  win32 :: bool
  musl :: bool
  arch :: arch
  temporary :: bool
  flf_entries :: "fentry list"
  flf_address :: ptr
  atfork_rc :: int
  ssse3_regs :: cpuid
  aes_built :: "aes_backend option"
  probe :: aes_probe
  answers :: engine
  json_ce :: class_entry
  zend_stringable_ce :: class_entry
  throwable_ce :: class_entry
  spl_invalid_arg_ce :: class_entry
  spl_logic_ce :: class_entry

text \<open>The statics of the module and what start-up changes outside: the frameless table, the function table,
  the entropy of the system id, the fork handlers of the process, the warnings.  \<open>object_handlers\<close> is whether
  \<open>create_object\<close> and the handler table are set up.\<close>

record module =
  flf_table :: "ptr list"
  fn_tab :: fn_table
  sys_entropy :: entropy
  lut :: "byte list"
  nib_lut :: "int list"
  atfork_registered :: bool
  atfork_handlers :: nat
  has_ssse3 :: int
  aes_status :: fu_aes_status
  reg_log :: "reg_call list"
  uuid_ce :: "class_entry option"
  object_handlers :: bool
  ex_invalid_arg :: "class_entry option"
  ex_invalid_str :: "class_entry option"
  ex_unsupported :: "class_entry option"
  warnings :: "string list"

definition module_start :: "ptr list \<Rightarrow> fn_table \<Rightarrow> module" where
  "module_start tbl ft =
     \<lparr>flf_table = tbl, fn_tab = ft, sys_entropy = [], lut = replicate 512 0, nib_lut = replicate 256 0,
      atfork_registered = False, atfork_handlers = 0, has_ssse3 = 0, aes_status = FU_AES_NOT_BUILT,
      reg_log = [], uuid_ce = None, object_handlers = False, ex_invalid_arg = None, ex_invalid_str = None,
      ex_unsupported = None, warnings = []\<rparr>"

definition warn :: "string \<Rightarrow> module \<Rightarrow> module" where
  "warn msg m = m\<lparr>warnings := warnings m @ [msg]\<rparr>"

definition minit_flf :: "minit_env \<Rightarrow> module \<Rightarrow> module" where
  "minit_flf E m =
     (if 80400 \<le> php_version E then
        (if temporary E then
           (case fu_flf_disable_for_dl (flf_address E) (flf_entries E) (fn_tab m, flf_table m) of
              (ft, tbl) \<Rightarrow> m\<lparr>fn_tab := ft, flf_table := tbl\<rparr>)
         else m\<lparr>sys_entropy := fu_flf_key_system_id (flf_entries E) (flf_table m) (sys_entropy m)\<rparr>)
      else m)"

definition atfork_warning :: string where
  "atfork_warning = ''fast_uuid: pthread_atfork registration failed; forked children may duplicate UUID output''"

definition dl_warning :: string where
  "dl_warning = ''fast_uuid: dl() loading is unsupported on this libc (dangling atfork handler after unload); use extension= instead''"

definition minit_atfork :: "minit_env \<Rightarrow> module \<Rightarrow> module" where
  "minit_atfork E m =
     (if win32 E \<or> atfork_registered m then m
      else
        (let m = (if atfork_rc E = 0
                  then m\<lparr>atfork_handlers := atfork_handlers m + 1, atfork_registered := True\<rparr>
                  else warn atfork_warning m)
         in if musl E \<and> temporary E then warn dl_warning m else m))"

definition minit_cpu :: "minit_env \<Rightarrow> module \<Rightarrow> module" where
  "minit_cpu E m =
     m\<lparr>has_ssse3 := (if arch E = X86 then fu_detect_ssse3 (ssse3_regs E) else has_ssse3 m),
       aes_status := (if aes_built E = None then aes_status m else fu_aes_minit (aes_built E) (fu_detect_aes (probe E)))\<rparr>"

definition reg_failed :: "string \<Rightarrow> module \<Rightarrow> zend_result \<times> module" where
  "reg_failed name m = (FAILURE, warn (''fast_uuid: could not register '' @ name) m)"

text \<open>The interfaces and the class, then the exceptions; the first null entry ends the start-up.\<close>

definition minit_uuid :: "minit_env \<Rightarrow> module \<Rightarrow> zend_result \<times> module" where
  "minit_uuid E m =
     (case register_class_FastUuid_UuidInterface (answers E) (json_ce E) (zend_stringable_ce E) (reg_log m) of
        (None, log) \<Rightarrow> reg_failed (ns_name ''FastUuid'' ''UuidInterface'') (m\<lparr>reg_log := log\<rparr>)
      | (Some marker_ce, log) \<Rightarrow>
     (case register_class_FastUuid_UuidValueInterface (answers E) marker_ce log of
        (None, log) \<Rightarrow> reg_failed (ns_name ''FastUuid'' ''UuidValueInterface'') (m\<lparr>reg_log := log\<rparr>)
      | (Some iface_ce, log) \<Rightarrow>
     (case register_class_FastUuid_Uuid (answers E) iface_ce log of
        (None, log) \<Rightarrow> reg_failed (ns_name ''FastUuid'' ''Uuid'') (m\<lparr>reg_log := log, uuid_ce := None\<rparr>)
      | (Some ce, log) \<Rightarrow> (SUCCESS, m\<lparr>reg_log := log, uuid_ce := Some ce, object_handlers := True\<rparr>))))"

definition minit_exceptions :: "minit_env \<Rightarrow> module \<Rightarrow> zend_result \<times> module" where
  "minit_exceptions E m =
     (case register_class_FastUuid_Exception_UuidExceptionInterface (answers E) (throwable_ce E) (reg_log m) of
        (None, log) \<Rightarrow>
          reg_failed (ns_name (ns_name ''FastUuid'' ''Exception'') ''UuidExceptionInterface'') (m\<lparr>reg_log := log\<rparr>)
      | (Some uuid_exception_ce, log) \<Rightarrow>
     (case register_class_FastUuid_Exception_InvalidArgumentException (answers E) (spl_invalid_arg_ce E) uuid_exception_ce log of
        (None, log) \<Rightarrow>
          reg_failed (ns_name (ns_name ''FastUuid'' ''Exception'') ''InvalidArgumentException'')
            (m\<lparr>reg_log := log, ex_invalid_arg := None\<rparr>)
      | (Some arg_ce, log) \<Rightarrow>
     (case register_class_FastUuid_Exception_InvalidUuidStringException (answers E) arg_ce uuid_exception_ce log of
        (None, log) \<Rightarrow>
          reg_failed (ns_name (ns_name ''FastUuid'' ''Exception'') ''InvalidUuidStringException'')
            (m\<lparr>reg_log := log, ex_invalid_arg := Some arg_ce, ex_invalid_str := None\<rparr>)
      | (Some str_ce, log) \<Rightarrow>
     (case register_class_FastUuid_Exception_UnsupportedOperationException (answers E) (spl_logic_ce E) uuid_exception_ce log of
        (None, log) \<Rightarrow>
          reg_failed (ns_name (ns_name ''FastUuid'' ''Exception'') ''UnsupportedOperationException'')
            (m\<lparr>reg_log := log, ex_invalid_arg := Some arg_ce, ex_invalid_str := Some str_ce, ex_unsupported := None\<rparr>)
      | (Some unsup_ce, log) \<Rightarrow>
          (SUCCESS, m\<lparr>reg_log := log, ex_invalid_arg := Some arg_ce, ex_invalid_str := Some str_ce,
                      ex_unsupported := Some unsup_ce\<rparr>)))))"

definition minit_classes :: "minit_env \<Rightarrow> module \<Rightarrow> zend_result \<times> module" where
  "minit_classes E m =
     (case minit_uuid E m of
        (FAILURE, m) \<Rightarrow> (FAILURE, m)
      | (SUCCESS, m) \<Rightarrow> minit_exceptions E m)"

definition fast_uuid_minit :: "minit_env \<Rightarrow> module \<Rightarrow> zend_result \<times> module" where
  "fast_uuid_minit E m =
     (let m = minit_flf E m;
          m = m\<lparr>lut := fu_lut, nib_lut := fu_nib_lut\<rparr>;
          m = minit_atfork E m;
          m = minit_cpu E m
      in minit_classes E m)"

subsection \<open>MINFO\<close>

definition php_string :: "byte list \<Rightarrow> string" where
  "php_string bs = map (\<lambda>b. char_of (unat b)) bs"

definition u_text :: "nat \<Rightarrow> string" where
  "u_text n = php_string (dec_string n)"

definition FU_AES_NAME :: "arch \<Rightarrow> string" where
  "FU_AES_NAME a = (if a = X86 then ''AES-NI'' else ''ARMv8 Crypto Extensions'')"

definition minfo_why :: "fu_aes_status \<Rightarrow> string" where
  "minfo_why st =
     (case st of
        FU_AES_ACTIVE \<Rightarrow> ''''
      | FU_AES_NO_CPU \<Rightarrow> '' (CPU lacks AES instructions)''
      | FU_AES_NO_DETECT \<Rightarrow> '' (AES detection unsupported on this OS)''
      | FU_AES_SELFTEST_FAILED \<Rightarrow> '' (AES known-answer self-test failed)''
      | FU_AES_NOT_BUILT \<Rightarrow> '' (no hardware AES backend in this build)'')"

text \<open>What is written into \<open>rng[160]\<close>: \<open>snprintf\<close> keeps the first 159 characters.\<close>

definition minfo_rng_text :: "minit_env \<Rightarrow> module \<Rightarrow> string" where
  "minfo_rng_text E m =
     (if aes_built E \<noteq> None \<and> aes_status m = FU_AES_ACTIVE
      then ''AES-256-CTR DRBG ('' @ FU_AES_NAME (arch E) @ ''), fast key erasure every '' @ u_text (FU_RBUF div 1024) @
           '' KiB, OS reseed every '' @ u_text (FU_DRBG_RESEED_BYTES div 1024) @ '' KiB''
      else ''OS CSPRNG (php_random_bytes), '' @ u_text (FU_RBUF div 1024) @ '' KiB batched'' @ minfo_why (aes_status m))"

definition fast_uuid_minfo :: "minit_env \<Rightarrow> module \<Rightarrow> (string \<times> string) list" where
  "fast_uuid_minfo E m =
     [(''fast_uuid support'', ''enabled''), (''version'', PHP_FAST_UUID_VERSION)] @
     (if win32 E then []
      else [(''fork safety'', ''pthread_atfork child-state reset'' @
               (if musl E then '' (on this libc load via extension=, not dl())'' else ''''))]) @
     [(''SIMD hex formatter'',
       (case arch E of
          X86 \<Rightarrow> if has_ssse3 m \<noteq> 0 then ''SSSE3'' else ''scalar (CPU lacks SSSE3)''
        | AARCH64 \<Rightarrow> ''AArch64 NEON''
        | Other_arch \<Rightarrow> ''scalar'')),
      (''CSPRNG'', take 159 (minfo_rng_text E m))]"

subsection \<open>What start-up registers\<close>

lemmas register_defs =
  register_interface_def register_class_def register_class_FastUuid_UuidInterface_def
  register_class_FastUuid_UuidValueInterface_def register_class_FastUuid_Uuid_def
  register_class_FastUuid_Exception_UuidExceptionInterface_def
  register_class_FastUuid_Exception_InvalidArgumentException_def
  register_class_FastUuid_Exception_InvalidUuidStringException_def
  register_class_FastUuid_Exception_UnsupportedOperationException_def

text \<open>A registration adds to the log one registration call, then the interfaces of what it answered, then
  constants of it.\<close>

definition registers :: "engine \<Rightarrow> reg_call \<Rightarrow> class_entry list \<Rightarrow> (reg_call list \<Rightarrow> class_entry option \<times> reg_call list) \<Rightarrow> bool" where
  "registers A call ifaces reg =
     (\<forall>log. fst (reg log) = A (log @ [call]) \<and>
        (\<exists>consts. snd (reg log) = log @ call # Class_implements (fst (reg log)) ifaces # consts
           \<and> set consts \<subseteq> range (\<lambda>(name, v). Declare_constant (fst (reg log)) name v)))"

text \<open>In the log, the engine answered this registration with \<open>ce\<close>, which was then made to implement \<open>ifaces\<close>.\<close>

definition linked_as :: "engine \<Rightarrow> reg_call list \<Rightarrow> reg_call \<Rightarrow> class_entry \<Rightarrow> class_entry list \<Rightarrow> bool" where
  "linked_as A log call ce ifaces \<longleftrightarrow>
     (\<exists>pre post. log = pre @ call # Class_implements (Some ce) ifaces # post \<and> A (pre @ [call]) = Some ce)"

lemma linked_as_prefix: "linked_as A log call ce ifaces \<Longrightarrow> prefix log log' \<Longrightarrow> linked_as A log' call ce ifaces"
  unfolding linked_as_def prefix_def by (metis append_Cons append_assoc)

lemma registers_all:
  "registers A (Register_interface (ns_name ''FastUuid'' ''UuidInterface'') []) [json, stringable]
     (register_class_FastUuid_UuidInterface A json stringable)"
  "registers A (Register_interface (ns_name ''FastUuid'' ''UuidValueInterface'') class_FastUuid_UuidValueInterface_methods) [marker]
     (register_class_FastUuid_UuidValueInterface A marker)"
  "registers A (Register_class (ns_name ''FastUuid'' ''Uuid'') None [''FINAL'', ''NO_DYNAMIC_PROPERTIES''] class_FastUuid_Uuid_methods)
     [iface] (register_class_FastUuid_Uuid A iface)"
  "registers A (Register_interface (ns_name (ns_name ''FastUuid'' ''Exception'') ''UuidExceptionInterface'') []) [throwable]
     (register_class_FastUuid_Exception_UuidExceptionInterface A throwable)"
  "registers A (Register_class (ns_name (ns_name ''FastUuid'' ''Exception'') ''InvalidArgumentException'') (Some parent) [] [])
     [iface] (register_class_FastUuid_Exception_InvalidArgumentException A parent iface)"
  "registers A (Register_class (ns_name (ns_name ''FastUuid'' ''Exception'') ''InvalidUuidStringException'') (Some parent) [] [])
     [iface] (register_class_FastUuid_Exception_InvalidUuidStringException A parent iface)"
  "registers A (Register_class (ns_name (ns_name ''FastUuid'' ''Exception'') ''UnsupportedOperationException'') (Some parent) [] [])
     [iface] (register_class_FastUuid_Exception_UnsupportedOperationException A parent iface)"
  by (auto simp: registers_def register_defs Let_def intro: exI [of _ "[]"])

lemma registersD:
  assumes "registers A call ifaces reg" and "reg log = (Some ce, log')"
  shows "prefix log log'" and "linked_as A log' call ce ifaces"
  using assms unfolding registers_def linked_as_def prefix_def by (metis fst_conv snd_conv)+

lemma declares_constants:
  assumes "register_class_FastUuid_Uuid A iface log = (ce, log')"
  shows "(\<lambda>(name, v). Declare_constant ce name v) ` set Uuid_constants \<subseteq> set log'"
  using assms by (auto simp: register_class_FastUuid_Uuid_def split: prod.splits)

text \<open>A start-up outcome: a class that got no entry is still handed on, as null, to have its interfaces added,
  then a warning names it and the start-up fails; otherwise nothing is warned about.\<close>

fun is_null_implements :: "reg_call \<Rightarrow> bool" where
  "is_null_implements (Class_implements None ifaces) = True"
| "is_null_implements c = False"

definition null_implements :: "reg_call list \<Rightarrow> bool" where
  "null_implements log = list_ex is_null_implements log"

definition reg_outcome :: "module \<Rightarrow> zend_result \<times> module \<Rightarrow> bool" where
  "reg_outcome m r =
     ((null_implements (reg_log (snd r)) \<longleftrightarrow> null_implements (reg_log m) \<or> fst r = FAILURE) \<and>
      (if fst r = SUCCESS then warnings (snd r) = warnings m
       else \<exists>name. warnings (snd r) = warnings m @ [''fast_uuid: could not register '' @ name]))"

lemma registers_null:
  assumes "registers A call ifaces reg" and "reg log = (ce, log')" and "\<not> is_null_implements call"
  shows "null_implements log' \<longleftrightarrow> null_implements log \<or> ce = None"
proof -
  obtain cs where l: "log' = log @ call # Class_implements ce ifaces # cs"
    and c: "set cs \<subseteq> range (\<lambda>(name, v). Declare_constant ce name v)"
    using assms(1,2) unfolding registers_def by (metis fst_conv snd_conv)
  have "\<not> list_ex is_null_implements cs" using c by (auto simp: list_ex_iff)
  then show ?thesis using assms(3) by (cases ce) (auto simp: l null_implements_def)
qed

lemma minit_uuid_outcome: "reg_outcome m (minit_uuid E m)"
proof -
  obtain c1 l1 where r1: "register_class_FastUuid_UuidInterface (answers E) (json_ce E) (zend_stringable_ce E) (reg_log m) = (c1, l1)"
    by fastforce
  note n1 = registers_null [OF registers_all(1) r1]
  show ?thesis
  proof (cases c1)
    case (Some marker)
    obtain c2 l2 where r2: "register_class_FastUuid_UuidValueInterface (answers E) marker l1 = (c2, l2)" by fastforce
    note n2 = registers_null [OF registers_all(2) r2]
    show ?thesis
    proof (cases c2)
      case s2: (Some iface)
      obtain c3 l3 where r3: "register_class_FastUuid_Uuid (answers E) iface l2 = (c3, l3)" by fastforce
      note n3 = registers_null [OF registers_all(3) r3]
      show ?thesis
        using n1 n2 n3 Some s2 by (cases c3) (simp_all add: minit_uuid_def r1 r2 r3 reg_outcome_def reg_failed_def warn_def)
    qed (use n1 n2 Some in \<open>simp add: minit_uuid_def r1 r2 reg_outcome_def reg_failed_def warn_def\<close>)
  qed (use n1 in \<open>simp add: minit_uuid_def r1 reg_outcome_def reg_failed_def warn_def\<close>)
qed

lemma minit_exceptions_outcome: "reg_outcome m (minit_exceptions E m)"
proof -
  obtain c1 l1 where r1: "register_class_FastUuid_Exception_UuidExceptionInterface (answers E) (throwable_ce E) (reg_log m) = (c1, l1)"
    by fastforce
  note n1 = registers_null [OF registers_all(4) r1]
  show ?thesis
  proof (cases c1)
    case (Some exi)
    obtain c2 l2 where r2: "register_class_FastUuid_Exception_InvalidArgumentException (answers E) (spl_invalid_arg_ce E) exi l1 = (c2, l2)"
      by fastforce
    note n2 = registers_null [OF registers_all(5) r2]
    show ?thesis
    proof (cases c2)
      case s2: (Some arg)
      obtain c3 l3 where r3: "register_class_FastUuid_Exception_InvalidUuidStringException (answers E) arg exi l2 = (c3, l3)" by fastforce
      note n3 = registers_null [OF registers_all(6) r3]
      show ?thesis
      proof (cases c3)
        case s3: (Some str)
        obtain c4 l4 where r4: "register_class_FastUuid_Exception_UnsupportedOperationException (answers E) (spl_logic_ce E) exi l3 = (c4, l4)"
          by fastforce
        note n4 = registers_null [OF registers_all(7) r4]
        show ?thesis
          using n1 n2 n3 n4 Some s2 s3
          by (cases c4) (simp_all add: minit_exceptions_def r1 r2 r3 r4 reg_outcome_def reg_failed_def warn_def)
      qed (use n1 n2 n3 Some s2 in \<open>simp add: minit_exceptions_def r1 r2 r3 reg_outcome_def reg_failed_def warn_def\<close>)
    qed (use n1 n2 Some in \<open>simp add: minit_exceptions_def r1 r2 reg_outcome_def reg_failed_def warn_def\<close>)
  qed (use n1 in \<open>simp add: minit_exceptions_def r1 reg_outcome_def reg_failed_def warn_def\<close>)
qed

lemma minit_classes_outcome: "reg_outcome m (minit_classes E m)"
proof -
  obtain rc m1 where u: "minit_uuid E m = (rc, m1)" by (cases "minit_uuid E m")
  show ?thesis
    using minit_uuid_outcome [of m E] minit_exceptions_outcome [of m1 E] u
    by (cases rc) (auto simp: minit_classes_def reg_outcome_def)
qed

text \<open>The hierarchy the code documents: each name was registered with this parent, the engine answered with this
  entry, and the entry implements these interfaces, which are the entries of the names they stand for; the class
  declares its constants; and the statics hold the entries of the class and the three exceptions.\<close>

abbreviation exception_name :: "string \<Rightarrow> string" where
  "exception_name cls \<equiv> ns_name (ns_name ''FastUuid'' ''Exception'') cls"

definition linked :: "minit_env \<Rightarrow> module \<Rightarrow> bool" where
  "linked E m =
     (\<exists>marker iface ce exi arg str uns.
        uuid_ce m = Some ce \<and> ex_invalid_arg m = Some arg \<and> ex_invalid_str m = Some str \<and> ex_unsupported m = Some uns \<and>
        linked_as (answers E) (reg_log m) (Register_interface (ns_name ''FastUuid'' ''UuidInterface'') [])
          marker [json_ce E, zend_stringable_ce E] \<and>
        linked_as (answers E) (reg_log m)
          (Register_interface (ns_name ''FastUuid'' ''UuidValueInterface'') class_FastUuid_UuidValueInterface_methods) iface [marker] \<and>
        linked_as (answers E) (reg_log m)
          (Register_class (ns_name ''FastUuid'' ''Uuid'') None [''FINAL'', ''NO_DYNAMIC_PROPERTIES''] class_FastUuid_Uuid_methods)
          ce [iface] \<and>
        (\<lambda>(name, v). Declare_constant (Some ce) name v) ` set Uuid_constants \<subseteq> set (reg_log m) \<and>
        linked_as (answers E) (reg_log m) (Register_interface (exception_name ''UuidExceptionInterface'') []) exi [throwable_ce E] \<and>
        linked_as (answers E) (reg_log m)
          (Register_class (exception_name ''InvalidArgumentException'') (Some (spl_invalid_arg_ce E)) [] []) arg [exi] \<and>
        linked_as (answers E) (reg_log m)
          (Register_class (exception_name ''InvalidUuidStringException'') (Some arg) [] []) str [exi] \<and>
        linked_as (answers E) (reg_log m)
          (Register_class (exception_name ''UnsupportedOperationException'') (Some (spl_logic_ce E)) [] []) uns [exi])"

lemma minit_uuid_success:
  assumes "minit_uuid E m = (SUCCESS, m')"
  obtains marker iface ce l1 l2 where
    "register_class_FastUuid_UuidInterface (answers E) (json_ce E) (zend_stringable_ce E) (reg_log m) = (Some marker, l1)"
    "register_class_FastUuid_UuidValueInterface (answers E) marker l1 = (Some iface, l2)"
    "register_class_FastUuid_Uuid (answers E) iface l2 = (Some ce, reg_log m')"
    "uuid_ce m' = Some ce" "object_handlers m'"
  using assms by (auto simp: minit_uuid_def reg_failed_def split: option.splits prod.splits)

lemma minit_exceptions_success:
  assumes "minit_exceptions E m = (SUCCESS, m')"
  obtains exi arg str uns l1 l2 l3 where
    "register_class_FastUuid_Exception_UuidExceptionInterface (answers E) (throwable_ce E) (reg_log m) = (Some exi, l1)"
    "register_class_FastUuid_Exception_InvalidArgumentException (answers E) (spl_invalid_arg_ce E) exi l1 = (Some arg, l2)"
    "register_class_FastUuid_Exception_InvalidUuidStringException (answers E) arg exi l2 = (Some str, l3)"
    "register_class_FastUuid_Exception_UnsupportedOperationException (answers E) (spl_logic_ce E) exi l3 = (Some uns, reg_log m')"
    "ex_invalid_arg m' = Some arg" "ex_invalid_str m' = Some str" "ex_unsupported m' = Some uns"
    "uuid_ce m' = uuid_ce m" "object_handlers m' = object_handlers m"
  using assms by (auto simp: minit_exceptions_def reg_failed_def split: option.splits prod.splits)

lemma minit_classes_linked:
  assumes "minit_classes E m = (SUCCESS, m')"
  shows "linked E m' \<and> object_handlers m'"
proof -
  obtain m1 where u: "minit_uuid E m = (SUCCESS, m1)" and x: "minit_exceptions E m1 = (SUCCESS, m')"
    using assms by (auto simp: minit_classes_def split: prod.splits zend_result.splits)
  obtain marker iface ce l1 l2 where
    a: "register_class_FastUuid_UuidInterface (answers E) (json_ce E) (zend_stringable_ce E) (reg_log m) = (Some marker, l1)"
    "register_class_FastUuid_UuidValueInterface (answers E) marker l1 = (Some iface, l2)"
    "register_class_FastUuid_Uuid (answers E) iface l2 = (Some ce, reg_log m1)"
    and u': "uuid_ce m1 = Some ce" "object_handlers m1"
    by (rule minit_uuid_success [OF u])
  obtain exi arg str uns k1 k2 k3 where
    b: "register_class_FastUuid_Exception_UuidExceptionInterface (answers E) (throwable_ce E) (reg_log m1) = (Some exi, k1)"
    "register_class_FastUuid_Exception_InvalidArgumentException (answers E) (spl_invalid_arg_ce E) exi k1 = (Some arg, k2)"
    "register_class_FastUuid_Exception_InvalidUuidStringException (answers E) arg exi k2 = (Some str, k3)"
    "register_class_FastUuid_Exception_UnsupportedOperationException (answers E) (spl_logic_ce E) exi k3 = (Some uns, reg_log m')"
    and x': "ex_invalid_arg m' = Some arg" "ex_invalid_str m' = Some str" "ex_unsupported m' = Some uns"
    "uuid_ce m' = uuid_ce m1" "object_handlers m' = object_handlers m1"
    by (rule minit_exceptions_success [OF x])
  note R = registersD [OF registers_all(1) a(1)] registersD [OF registers_all(2) a(2)] registersD [OF registers_all(3) a(3)]
    registersD [OF registers_all(4) b(1)] registersD [OF registers_all(5) b(2)] registersD [OF registers_all(6) b(3)]
    registersD [OF registers_all(7) b(4)]
  have k3: "prefix k3 (reg_log m')" by (rule R(13))
  have k2: "prefix k2 (reg_log m')" by (rule prefix_order.trans [OF R(11) k3])
  have k1: "prefix k1 (reg_log m')" by (rule prefix_order.trans [OF R(9) k2])
  have l3: "prefix (reg_log m1) (reg_log m')" by (rule prefix_order.trans [OF R(7) k1])
  have l2: "prefix l2 (reg_log m')" by (rule prefix_order.trans [OF R(5) l3])
  have l1: "prefix l1 (reg_log m')" by (rule prefix_order.trans [OF R(3) l2])
  note members = linked_as_prefix [OF R(2) l1] linked_as_prefix [OF R(4) l2] linked_as_prefix [OF R(6) l3]
    subset_trans [OF declares_constants [OF a(3)] set_mono_prefix [OF l3]]
    linked_as_prefix [OF R(8) k1] linked_as_prefix [OF R(10) k2] linked_as_prefix [OF R(12) k3] R(14)
  have "uuid_ce m' = Some ce" "ex_invalid_arg m' = Some arg" "ex_invalid_str m' = Some str" "ex_unsupported m' = Some uns"
    using x' u' by simp_all
  with members have "linked E m'" unfolding linked_def by blast
  then show ?thesis using u' x' by simp
qed

subsection \<open>The start-up as a whole\<close>

lemma minit_prefix_fields [simp]:
  "reg_log (minit_flf E m) = reg_log m" "aes_status (minit_flf E m) = aes_status m"
  "atfork_registered (minit_flf E m) = atfork_registered m" "atfork_handlers (minit_flf E m) = atfork_handlers m"
  "warnings (minit_flf E m) = warnings m" "lut (minit_flf E m) = lut m" "nib_lut (minit_flf E m) = nib_lut m"
  "reg_log (minit_atfork E m) = reg_log m" "aes_status (minit_atfork E m) = aes_status m"
  "lut (minit_atfork E m) = lut m" "nib_lut (minit_atfork E m) = nib_lut m"
  "reg_log (minit_cpu E m) = reg_log m" "lut (minit_cpu E m) = lut m" "nib_lut (minit_cpu E m) = nib_lut m"
  "atfork_registered (minit_cpu E m) = atfork_registered m" "atfork_handlers (minit_cpu E m) = atfork_handlers m"
  "warnings (minit_cpu E m) = warnings m"
  by (simp_all add: minit_flf_def minit_atfork_def minit_cpu_def warn_def Let_def split: prod.splits)

lemma minit_uuid_frame:
  "minit_uuid E m = (rc, m') \<Longrightarrow> lut m' = lut m \<and> nib_lut m' = nib_lut m \<and> aes_status m' = aes_status m
    \<and> atfork_registered m' = atfork_registered m \<and> atfork_handlers m' = atfork_handlers m"
  by (auto simp: minit_uuid_def reg_failed_def warn_def split: option.splits prod.splits)

lemma minit_exceptions_frame:
  "minit_exceptions E m = (rc, m') \<Longrightarrow> lut m' = lut m \<and> nib_lut m' = nib_lut m \<and> aes_status m' = aes_status m
    \<and> atfork_registered m' = atfork_registered m \<and> atfork_handlers m' = atfork_handlers m"
  by (auto simp: minit_exceptions_def reg_failed_def warn_def split: option.splits prod.splits)

lemma minit_classes_frame:
  assumes "minit_classes E m = (rc, m')"
  shows "lut m' = lut m \<and> nib_lut m' = nib_lut m \<and> aes_status m' = aes_status m
    \<and> atfork_registered m' = atfork_registered m \<and> atfork_handlers m' = atfork_handlers m"
proof -
  obtain rc1 m1 where u: "minit_uuid E m = (rc1, m1)" by (cases "minit_uuid E m")
  show ?thesis
    using minit_uuid_frame [OF u] minit_exceptions_frame [of E m1] assms u
    by (cases rc1) (auto simp: minit_classes_def)
qed

text \<open>The state in which the classes are registered.\<close>

definition minit_before_classes :: "minit_env \<Rightarrow> module \<Rightarrow> module" where
  "minit_before_classes E m = minit_cpu E (minit_atfork E (minit_flf E m\<lparr>lut := fu_lut, nib_lut := fu_nib_lut\<rparr>))"

lemma fast_uuid_minit_eq: "fast_uuid_minit E m = minit_classes E (minit_before_classes E m)"
  by (simp add: fast_uuid_minit_def minit_before_classes_def Let_def)

text \<open>C39: MINIT succeeds exactly if every registration was answered with a class entry, and then the classes and
  exceptions form the hierarchy the code documents: the entry the engine gave for the name \<open>Uuid\<close> implements the
  one it gave for \<open>UuidValueInterface\<close>, which extends that of \<open>UuidInterface\<close>, and has the class constants; the
  entry of \<open>InvalidUuidStringException\<close> extends that of the extension's \<open>InvalidArgumentException\<close>, which extends PHP's, and
  that of \<open>UnsupportedOperationException\<close> PHP's \<open>LogicException\<close>; all three implement the entry of
  \<open>UuidExceptionInterface\<close>; and the statics the code throws and creates from hold the entries of just these names.  When one was answered with null, the
  null has been handed on to the engine before the check that makes MINIT fail.  In every case the lookup tables
  are filled, and the AES back end is in use only if it is built in, the CPU has the instructions and the
  known-answer test passes.\<close>

theorem fast_uuid_minit_result:
  assumes "fast_uuid_minit E m = (rc, m')" and "\<not> null_implements (reg_log m)" and "aes_status m = FU_AES_NOT_BUILT"
  shows "(rc = FAILURE \<longleftrightarrow> null_implements (reg_log m')) \<and>
    (rc = SUCCESS \<longrightarrow> linked E m' \<and> object_handlers m') \<and>
    lut m' = fu_lut \<and> nib_lut m' = fu_nib_lut \<and>
    (aes_status m' = FU_AES_ACTIVE \<longleftrightarrow>
       (\<exists>B. aes_built E = Some B \<and> 0 < fu_detect_aes (probe E) \<and> fu_aes_selftest (fu_aes_ctr B)))"
proof -
  let ?m = "minit_before_classes E m"
  have c: "minit_classes E ?m = (rc, m')" using assms(1) by (simp add: fast_uuid_minit_eq)
  have b: "reg_log ?m = reg_log m" "lut ?m = fu_lut" "nib_lut ?m = fu_nib_lut"
    by (simp_all add: minit_before_classes_def)
  have a: "aes_status ?m = fu_aes_minit (aes_built E) (fu_detect_aes (probe E))"
    using assms(3) by (simp add: minit_before_classes_def minit_cpu_def)
  have l: "linked E m' \<and> object_handlers m'" if "rc = SUCCESS"
    using minit_classes_linked [of E ?m m'] c that by simp
  have r: "rc = FAILURE \<longleftrightarrow> null_implements (reg_log m')"
    using minit_classes_outcome [of ?m E] c assms(2) b(1) by (simp add: reg_outcome_def)
  have f: "lut m' = lut ?m" "nib_lut m' = nib_lut ?m" "aes_status m' = aes_status ?m"
    using minit_classes_frame [OF c] by blast+
  show ?thesis using l r unfolding f a b fu_aes_minit_active by blast
qed

subsection \<open>The fork handler\<close>

text \<open>The start-ups of one process, one after the other, while the library stays mapped, so that they share its
  statics: as long as it does, which the \<open>dl()\<close> warning is about, the latch is the process's.\<close>

definition minits :: "minit_env list \<Rightarrow> module \<Rightarrow> module" where
  "minits Es m = foldl (\<lambda>m E. snd (fast_uuid_minit E m)) m Es"

definition atfork_inv :: "bool \<Rightarrow> module \<Rightarrow> bool" where
  "atfork_inv tried m =
     (atfork_handlers m = (if atfork_registered m then 1 else 0) \<and>
      (tried \<and> \<not> atfork_registered m \<longrightarrow> atfork_warning \<in> set (warnings m)))"

lemma minit_warnings: "set (warnings (minit_before_classes E m)) \<subseteq> set (warnings (snd (fast_uuid_minit E m)))"
  using minit_classes_outcome [of "minit_before_classes E m" E]
  by (auto simp: fast_uuid_minit_eq reg_outcome_def split: if_splits)

lemma minit_atfork_fields:
  assumes "\<not> win32 E"
  shows "atfork_registered (minit_atfork E m) \<longleftrightarrow> atfork_registered m \<or> atfork_rc E = 0"
    and "atfork_handlers (minit_atfork E m) = atfork_handlers m + (if \<not> atfork_registered m \<and> atfork_rc E = 0 then 1 else 0)"
    and "set (warnings (minit_atfork E m)) = set (warnings m) \<union>
      (if \<not> atfork_registered m \<and> atfork_rc E \<noteq> 0 then {atfork_warning} else {}) \<union>
      (if \<not> atfork_registered m \<and> musl E \<and> temporary E then {dl_warning} else {})"
  using assms by (simp_all add: minit_atfork_def warn_def Let_def)

lemma minit_atfork_step:
  assumes "atfork_inv tried m" and "\<not> win32 E"
  shows "atfork_inv True (snd (fast_uuid_minit E m)) \<and>
    (atfork_registered (snd (fast_uuid_minit E m)) \<longleftrightarrow> atfork_registered m \<or> atfork_rc E = 0)"
proof -
  let ?m = "minit_before_classes E m"
  obtain rc m' where c: "minit_classes E ?m = (rc, m')" by (cases "minit_classes E ?m")
  let ?a = "minit_flf E m\<lparr>lut := fu_lut, nib_lut := fu_nib_lut\<rparr>"
  have a: "atfork_registered ?m = atfork_registered (minit_atfork E ?a)" "atfork_handlers ?m = atfork_handlers (minit_atfork E ?a)"
    "warnings ?m = warnings (minit_atfork E ?a)"
    unfolding minit_before_classes_def by simp_all
  have m: "atfork_registered ?a = atfork_registered m" "atfork_handlers ?a = atfork_handlers m" "warnings ?a = warnings m"
    by simp_all
  have b: "atfork_handlers ?m = (if atfork_registered ?m then 1 else 0)"
    "\<not> atfork_registered ?m \<Longrightarrow> atfork_warning \<in> set (warnings ?m)"
    "atfork_registered ?m \<longleftrightarrow> atfork_registered m \<or> atfork_rc E = 0"
    using assms(1) unfolding a minit_atfork_fields [OF assms(2)] m by (auto simp: atfork_inv_def)
  show ?thesis
    using b minit_warnings [of E m] minit_classes_frame [OF c] by (auto simp: fast_uuid_minit_eq c atfork_inv_def)
qed

lemma minits_atfork:
  assumes "atfork_inv tried m" and "list_all (\<lambda>E. \<not> win32 E) Es"
  shows "atfork_inv (tried \<or> Es \<noteq> []) (minits Es m) \<and>
    (atfork_registered (minits Es m) \<longleftrightarrow> atfork_registered m \<or> list_ex (\<lambda>E. atfork_rc E = 0) Es)"
  using assms
proof (induction Es arbitrary: tried m)
  case (Cons E Es)
  have s: "atfork_inv True (snd (fast_uuid_minit E m))"
    "atfork_registered (snd (fast_uuid_minit E m)) \<longleftrightarrow> atfork_registered m \<or> atfork_rc E = 0"
    using minit_atfork_step [OF Cons.prems(1)] Cons.prems(2) by simp_all
  have e: "minits (E # Es) m = minits Es (snd (fast_uuid_minit E m))" by (simp add: minits_def)
  show ?case using Cons.IH [OF s(1)] Cons.prems(2) s(2) by (simp add: e)
qed (simp add: minits_def)

text \<open>C21: however often the module is started up in a process, the fork handler is registered at most once,
  and it is registered once any \<open>pthread_atfork\<close> succeeded; as long as none has, a warning said that forked
  children may repeat UUIDs.\<close>

theorem minits_one_atfork_handler:
  assumes "list_all (\<lambda>E. \<not> win32 E) Es" and "m = minits Es (module_start tbl ft)"
  shows "atfork_handlers m \<le> 1 \<and> (atfork_handlers m = 1 \<longleftrightarrow> list_ex (\<lambda>E. atfork_rc E = 0) Es) \<and>
    (Es \<noteq> [] \<and> atfork_handlers m = 0 \<longrightarrow> atfork_warning \<in> set (warnings m))"
proof -
  have "atfork_inv False (module_start tbl ft)" by (simp add: atfork_inv_def module_start_def)
  from minits_atfork [OF this assms(1)] show ?thesis
    unfolding assms(2) by (auto simp: atfork_inv_def module_start_def split: if_splits)
qed

subsection \<open>What the information page says\<close>

lemma u_text_values: "u_text 8 = ''8''" "u_text 64 = ''64''"
  by code_simp+

lemma rng_sizes: "FU_RBUF div 1024 = 8" "FU_DRBG_RESEED_BYTES div 1024 = 64"
  by (simp_all add: FU_RBUF_def FU_DRBG_RESEED_BYTES_def)

text \<open>The information page says what the generator does: the text of the CSPRNG row fits its buffer, so it is
  never cut, and it names the DRBG exactly if the AES back end is in use, otherwise the OS source.\<close>

theorem fast_uuid_minfo_csprng:
  "length (minfo_rng_text E m) < 160 \<and>
   map_of (fast_uuid_minfo E m) ''CSPRNG'' = Some (minfo_rng_text E m) \<and>
   (take 16 (minfo_rng_text E m) = ''AES-256-CTR DRBG'' \<longleftrightarrow> aes_built E \<noteq> None \<and> aes_status m = FU_AES_ACTIVE) \<and>
   (take 9 (minfo_rng_text E m) = ''OS CSPRNG'' \<longleftrightarrow> \<not> (aes_built E \<noteq> None \<and> aes_status m = FU_AES_ACTIVE))"
proof -
  have len: "length (minfo_rng_text E m) < 160"
    by (simp add: minfo_rng_text_def rng_sizes u_text_values FU_AES_NAME_def minfo_why_def split: fu_aes_status.splits)
  then have "map_of (fast_uuid_minfo E m) ''CSPRNG'' = Some (minfo_rng_text E m)"
    by (simp add: fast_uuid_minfo_def)
  with len show ?thesis by (simp add: minfo_rng_text_def)
qed

subsection \<open>The class constants\<close>

text \<open>The four namespaces differ in byte 3 only.\<close>

definition rfc_namespace :: "byte \<Rightarrow> byte list" where
  "rfc_namespace k = [0x6b, 0xa7, 0xb8, k, 0x9d, 0xad, 0x11, 0xd1, 0x80, 0xb4, 0x00, 0xc0, 0x4f, 0xd4, 0x30, 0xc8]"

lemma format36_hex: "length b = 16 \<Longrightarrow> fu_format36 h b = fu_format36_with hex_spec b"
  by (simp add: fu_format36_def fu_format36_with_def fu_hex32_spec)

text \<open>The class constants are what their names say: \<open>NIL\<close> and \<open>MAX\<close> are the canonical texts of sixteen zero and
  sixteen \<open>0xff\<close> bytes, the four namespaces those of RFC 9562 (version 1, differing in one byte), so all
  six parse; and the domain constants are the person, group and org domains of \<open>uuid2\<close>.\<close>

theorem uuid_constants_canonical:
  "map_of Uuid_constants ''NIL'' = Some (IS_STRING (fu_format36 h (replicate 16 0))) \<and>
   map_of Uuid_constants ''MAX'' = Some (IS_STRING (fu_format36 h (replicate 16 0xff))) \<and>
   map_of Uuid_constants ''NAMESPACE_DNS'' = Some (IS_STRING (fu_format36 h (rfc_namespace 0x10))) \<and>
   map_of Uuid_constants ''NAMESPACE_URL'' = Some (IS_STRING (fu_format36 h (rfc_namespace 0x11))) \<and>
   map_of Uuid_constants ''NAMESPACE_OID'' = Some (IS_STRING (fu_format36 h (rfc_namespace 0x12))) \<and>
   map_of Uuid_constants ''NAMESPACE_X500'' = Some (IS_STRING (fu_format36 h (rfc_namespace 0x14))) \<and>
   rfc_uuid 1 (rfc_namespace k) \<and> fu_parse ncase (fu_format36 h (rfc_namespace k)) = Some (rfc_namespace k) \<and>
   map (\<lambda>n. map_of Uuid_constants n) [''DCE_DOMAIN_PERSON'', ''DCE_DOMAIN_GROUP'', ''DCE_DOMAIN_ORG'']
     = [Some (IS_LONG 0), Some (IS_LONG 1), Some (IS_LONG 2)]"
proof -
  have ns: "length (rfc_namespace k') = 16" for k' by (simp add: rfc_namespace_def)
  have texts:
    "fu_format36_with hex_spec (replicate 16 0) = lit ''00000000-0000-0000-0000-000000000000''"
    "fu_format36_with hex_spec (replicate 16 0xff) = lit ''ffffffff-ffff-ffff-ffff-ffffffffffff''"
    "fu_format36_with hex_spec (rfc_namespace 0x10) = lit ''6ba7b810-9dad-11d1-80b4-00c04fd430c8''"
    "fu_format36_with hex_spec (rfc_namespace 0x11) = lit ''6ba7b811-9dad-11d1-80b4-00c04fd430c8''"
    "fu_format36_with hex_spec (rfc_namespace 0x12) = lit ''6ba7b812-9dad-11d1-80b4-00c04fd430c8''"
    "fu_format36_with hex_spec (rfc_namespace 0x14) = lit ''6ba7b814-9dad-11d1-80b4-00c04fd430c8''"
    by code_simp+
  have "rfc_uuid 1 (rfc_namespace k)" by (simp add: rfc_uuid_iff rfc_namespace_def)
  moreover have "fu_parse ncase (fu_format36 h (rfc_namespace k)) = Some (rfc_namespace k)" by (simp add: ns)
  ultimately show ?thesis
    by (simp add: format36_hex ns texts) (simp add: Uuid_constants_def)
qed

subsection \<open>Examples\<close>

text \<open>A static load on PHP 8.4, Linux, x86 without an AES back end.\<close>

definition sample_env :: minit_env where
  "sample_env =
     \<lparr>php_version = 80400, win32 = False, musl = False, arch = X86, temporary = False,
      flf_entries = entries_at (\<lambda>f n. 5) (\<lambda>f. 9), flf_address = 1, atfork_rc = 0, ssse3_regs = None, aes_built = None,
      probe = Probe_x86 None, answers = (\<lambda>log. Some (length log)), json_ce = 100, zend_stringable_ce = 101,
      throwable_ce = 102, spl_invalid_arg_ce = 103, spl_logic_ce = 104\<rparr>"

theorem fast_uuid_minit_result_witness:
  "\<exists>rc m. fast_uuid_minit sample_env (module_start [7, 0] (\<lambda>f. None)) = (rc, m) \<and>
     (rc = FAILURE \<longleftrightarrow> null_implements (reg_log m)) \<and> lut m = fu_lut"
proof -
  obtain rc m where r: "fast_uuid_minit sample_env (module_start [7, 0] (\<lambda>f. None)) = (rc, m)"
    by (cases "fast_uuid_minit sample_env (module_start [7, 0] (\<lambda>f. None))")
  from fast_uuid_minit_result [OF r] r show ?thesis by (simp add: module_start_def null_implements_def)
qed

theorem minits_one_atfork_handler_witness:
  "atfork_handlers (minits [sample_env, sample_env] (module_start [7, 0] (\<lambda>f. None))) = 1"
  using minits_one_atfork_handler [of "[sample_env, sample_env]", OF _ refl] by (simp add: sample_env_def)

end
