(* ===== verification/Fu_Marks.thy ===== *)
theory Fu_Marks
  imports Fu_Module
begin

section \<open>The marks only move forward\<close>

text \<open>
  The generators with a memory keep a mark: the last version 7 position, the last Gregorian timestamp of
  versions 1 and 6, the last version 2 timestamp.  No operation of the extension moves a mark back; this theory
  proves it, one lemma per operation, up to the functions and the methods of the class.
\<close>

definition marks_up :: "'w st \<Rightarrow> 'w st \<Rightarrow> bool" where
  "marks_up s s' = (v7_mark s \<le> v7_mark s' \<and> greg_last s \<le> greg_last s' \<and> v2_last s \<le> v2_last s')"

named_theorems marks

lemma marks_up_refl [simp, intro]: "marks_up s s"
  by (simp add: marks_up_def)

lemma marks_up_trans: "marks_up s t \<Longrightarrow> marks_up t u \<Longrightarrow> marks_up s u"
  unfolding marks_up_def by (meson order_trans)

lemma marks_up_same: "gen_marks s' = gen_marks s \<Longrightarrow> marks_up s s'"
  using v7_mark_cong [of s s'] by (simp add: marks_up_def gen_marks_iff)

lemma marks_up_throw [simp]: "marks_up s (zend_throw ce msg t) \<longleftrightarrow> marks_up s t"
  by (simp add: marks_up_def v7_mark_def zend_throw_def)

lemma marks_up_world [simp]: "marks_up s (s\<lparr>world := w\<rparr>)" "marks_up s (s\<lparr>EG_exception := e\<rparr>)"
  by (rule marks_up_same, simp add: fu_inv_world)+

subsection \<open>Operations that leave the marks alone\<close>

lemma rand_n_marks [marks]: "fu_rand_n P n s = (rc, bs, s') \<Longrightarrow> gen_marks s' = gen_marks s"
  using rnd.fill_marks [of P "replicate n 0" s] by (simp add: fu_rand_n_def)

lemma rand_marks [marks]: "fu_rand P dst s = (rc, bs, s') \<Longrightarrow> gen_marks s' = gen_marks s"
  using rnd.fill_marks [of P dst s] by simp

lemma rand_fill_marks [marks]: "fu_rand_fill P dst s = (rc, bs, s') \<Longrightarrow> gen_marks s' = gen_marks s"
  using fill.fill_marks [of P dst s] by simp

lemma rand_u64_marks [marks]: "fu_rand_u64 P s = (r, s') \<Longrightarrow> gen_marks s' = gen_marks s"
  by (auto simp: fu_rand_u64_def split: prod.splits zend_result.splits dest: rand_n_marks)

lemma unix_nanos_marks [marks]: "fu_unix_nanos P s = (r, s') \<Longrightarrow> gen_marks s' = gen_marks s"
  by (auto simp: fu_unix_nanos_def Let_def fu_inv_world split: sum.splits)

lemma v7_increment_marks [marks]: "fu_v7_increment P key randb s = (r, s') \<Longrightarrow> gen_marks s' = gen_marks s"
  by (auto simp: fu_v7_increment_def Let_def split: prod.splits zend_result.splits if_splits dest: rand_n_marks)

lemma v7_start_marks [marks]: "fu_v7_start P key s = (r, s') \<Longrightarrow> gen_marks s' = gen_marks s"
  by (auto simp: fu_v7_start_def split: prod.splits option.splits if_splits dest: rand_u64_marks v7_increment_marks)

lemma gen_v4_marks [marks]: "fu_gen_v4 P s = (r, s') \<Longrightarrow> gen_marks s' = gen_marks s"
  by (auto simp: fu_gen_v4_def split: prod.splits zend_result.splits dest: rand_n_marks)

lemma gen_v7_at_marks [marks]: "fu_gen_v7_at P ms sub s = (r, s') \<Longrightarrow> gen_marks s' = gen_marks s"
  by (auto simp: fu_gen_v7_at_def split: prod.splits option.splits dest: rand_u64_marks)

lemma v7_at_ms_marks [marks]: "fu_v7_at_ms P ms s = (r, s') \<Longrightarrow> gen_marks s' = gen_marks s"
  by (auto simp: fu_v7_at_ms_def split: if_splits dest: gen_v7_at_marks)

lemma lay_clockseq_marks [marks]: "fu_lay_clockseq_node P node cs s = (r, s') \<Longrightarrow> gen_marks s' = gen_marks s"
  by (auto simp: fu_lay_clockseq_node_def Let_def split: prod.splits zend_result.splits option.splits if_splits dest: rand_n_marks)

lemma lay_v1_marks [marks]: "fu_lay_v1 P g node cs s = (r, s') \<Longrightarrow> gen_marks s' = gen_marks s"
  using lay_clockseq_marks [of P node cs s] by (auto simp: fu_lay_v1_eq map_prod_def split: prod.splits)

lemma random_bytes_marks [marks]: "fu_fn_random_bytes P n s = (r, s') \<Longrightarrow> gen_marks s' = gen_marks s"
  by (auto simp: fu_fn_random_bytes_def Let_def split: prod.splits zend_result.splits if_splits dest: rand_marks rand_fill_marks)

lemma gen_v3_marks [marks]: "fu_gen_v3 C ns name s = (r, s') \<Longrightarrow> gen_marks s' = gen_marks s"
  and gen_v5_marks [marks]: "fu_gen_v5 C' ns name s = (r, s') \<Longrightarrow> gen_marks s' = gen_marks s"
  by (auto simp: fu_gen_v3_def fu_gen_v5_def fu_name_len_ok_def Let_def split: prod.splits if_splits)

lemma node_clockseq_marks [marks]: "node_clockseq node cs s = (r, s') \<Longrightarrow> gen_marks s' = gen_marks s"
  by (rule node_clockseq_cases [of node cs s]) auto

lemma local_id_marks [marks]: "fu_local_id_arg ids dm str lv null s = (r, s') \<Longrightarrow> gen_marks s' = gen_marks s"
  by (cases str; cases "strtoull10 (the str)") (auto simp: fu_local_id_arg_def Let_def split: if_splits option.splits)

lemma xs_next_marks [marks]: "fu_inv s \<Longrightarrow> fu_xs_next P s = (r, s') \<Longrightarrow> gen_marks s' = gen_marks s"
  by (rule fu_xs_next_cases [of s P]) auto

lemma xs_next_inv: "fu_inv s \<Longrightarrow> fu_xs_next P s = (r, s') \<Longrightarrow> fu_inv s'"
  by (rule fu_xs_next_cases [of s P]) (auto dest: xs_step_nonzero intro: fu_inv_prng_updates(3))

lemma gen_v4_fast_marks [marks]: "fu_inv s \<Longrightarrow> fu_gen_v4_fast P s = (r, s') \<Longrightarrow> gen_marks s' = gen_marks s"
  using xs_next_marks [of s P] xs_next_inv [of s P] xs_next_marks [of "snd (fu_xs_next P s)" P]
  by (auto simp: fu_gen_v4_fast_def Let_def split: prod.splits if_splits)

subsection \<open>Generators with a memory\<close>

lemma greg_gen_up: "fu_inv s \<Longrightarrow> args_ok node cs \<Longrightarrow> greg_gen head P node cs s = (r, s') \<Longrightarrow> marks_up s s'"
  by (rule greg_gen_cases [of s node cs head P])
     (auto simp: marks_up_def gen_marks_iff v7_mark_def)

lemma gen_v2_up:
  assumes "fu_inv s" and "fu_gen_v2 P lid ld node cs mon s = (r, s')"
  shows "marks_up s s'"
proof -
  obtain g s1 where t: "(if mon then fu_v2_monotonic P s else fu_greg_now P s) = (g, s1)" by fastforce
  have "marks_up s s1"
    by (cases mon; rule fu_v2_monotonic_cases [OF assms(1), of P]; rule fu_greg_now_cases [OF assms(1), of P])
       (use t in \<open>auto simp: marks_up_def gen_marks_iff v7_mark_def\<close>)
  moreover have "gen_marks s' = gen_marks s1"
    using assms(2) t by (auto simp: fu_gen_v2_def split: option.splits prod.splits dest: lay_v1_marks)
  ultimately show ?thesis by (blast intro: marks_up_trans marks_up_same)
qed

lemma gen_v7_up: "fu_inv s \<Longrightarrow> fu_gen_v7 P s = (r, s') \<Longrightarrow> marks_up s s'"
  by (rule v7_next_cases [of s P])
     (auto simp: fu_gen_v7_eq marks_up_def gen_marks_iff set_v7_def v7_mark_def less_imp_le)

lemma batch_loop_marks: "v7_batch_loop P zstr n i key randb s = (rc, arr, k, r, s') \<Longrightarrow> gen_marks s' = gen_marks s"
proof (induction "n - i" arbitrary: i key randb s rc arr k r s')
  case 0
  then show ?case by (simp add: v7_batch_loop.simps [of P zstr n i])
next
  case (Suc m)
  obtain x s1 where x: "(if 0 < i then fu_v7_increment P key randb s else (Some (key, randb), s)) = (x, s1)" by fastforce
  have g: "gen_marks s1 = gen_marks s" using x by (auto split: if_splits dest: v7_increment_marks)
  have "i < n" using Suc.hyps(2) by simp
  note loop = Suc.prems [unfolded v7_batch_loop.simps [of P zstr n i] x if_P [OF this]]
  show ?case
  proof (cases x)
    case None
    with g loop show ?thesis by simp
  next
    case (Some kr)
    obtain k1 r1 where kr: "kr = (k1, r1)" by (cases kr)
    obtain rc2 arr2 k2 r2 s2 where l: "v7_batch_loop P zstr n (i + 1) k1 r1 s1 = (rc2, arr2, k2, r2, s2)"
      by (cases "v7_batch_loop P zstr n (i + 1) k1 r1 s1")
    have "s2 = s'" using loop l by (simp add: Some kr)
    moreover have "m = n - (i + 1)" using Suc.hyps(2) by simp
    ultimately show ?thesis using Suc.hyps(1) [OF _ l] g by simp
  qed
qed

lemma gen_v7_batch_up:
  assumes "fu_inv s" and "0 < n" and "fu_gen_v7_batch_n P h n as_bytes s = (rc, arr, s')"
  shows "marks_up s s'"
proof -
  have "greg_last s' = greg_last s \<and> v2_last s' = v2_last s"
    using assms(3)
    by (auto simp: fu_gen_v7_batch_n_def gen_marks_iff split: prod.splits option.splits
        dest!: unix_nanos_marks v7_start_marks batch_loop_marks)
  moreover have "v7_mark s \<le> v7_mark s'"
  proof -
    obtain ps where "\<forall>p \<in> set ps. pos_ok p \<and> v7_mark s < Some p" "v7_mark s' = (if ps = [] then v7_mark s else Some (last ps))"
      using v7_batch_facts [OF assms] by blast
    then show ?thesis by (cases ps) (auto simp: less_imp_le)
  qed
  ultimately show ?thesis by (simp add: marks_up_def)
qed

lemma gen_v4_batch_up: "fu_inv s \<Longrightarrow> fu_gen_v4_batch_n P h n as_bytes s = (rc, arr, s') \<Longrightarrow> marks_up s s'"
  using v4_batch_props [of s P _ n 0 rc arr s'] by (auto simp: fu_gen_v4_batch_n_def intro: marks_up_same)

subsection \<open>Functions\<close>

lemma generate_run: "fu_fn_generate h gen bin s = (rv, s') \<Longrightarrow> \<exists>r. gen s = (r, s')"
  by (auto simp: fu_fn_generate_def split: prod.splits option.splits)

lemma gen_v1_up: "fu_inv s \<Longrightarrow> fu_gen_v1 P s = (r, s') \<Longrightarrow> marks_up s s'"
  and gen_v6_up: "fu_inv s \<Longrightarrow> fu_gen_v6 P s = (r, s') \<Longrightarrow> marks_up s s'"
  using greg_gen_up [of s None "- 1"]
  by (auto simp: fu_gen_v1_def fu_gen_v6_def fu_gen_v1_ex_eq fu_gen_v6_ex_eq args_ok_def)

lemma name_based_up:
  assumes "\<And>ns r s'. gen ns nm s = (r, s') \<Longrightarrow> gen_marks s' = gen_marks s" and "fu_fn_name_based B zns nm gen bin s = (rv, s')"
  shows "marks_up s s'"
  using assms by (auto simp: fu_fn_name_based_def intro: marks_up_same split: option.splits prod.splits if_splits)

lemma batch_up:
  assumes "zend_long_range n" and "fu_fn_batch B n gen bin s = (rv, s')"
    and "\<And>rc arr s'. 0 < n \<Longrightarrow> gen (nat n) bin s = (rc, arr, s') \<Longrightarrow> marks_up s s'"
  shows "marks_up s s'"
proof (rule fu_batch_count_cases [OF assms(1), of "HT_MAX_SIZE B" s])
  assume n: "fu_batch_count_arg (HT_MAX_SIZE B) n s = (Some (nat n), s)" "0 < n"
  obtain rc arr s1 where g: "gen (nat n) bin s = (rc, arr, s1)" by (cases "gen (nat n) bin s")
  with assms(2) n(1) have "s1 = s'" by (simp add: fu_fn_batch_def split: zend_result.splits)
  with assms(3) [OF n(2) g] show ?thesis by simp
next
  fix msg assume "fu_batch_count_arg (HT_MAX_SIZE B) n s = (None, zend_throw InvalidArgumentException msg s)"
  with assms(2) show ?thesis by (auto simp: fu_fn_batch_def)
qed

lemma fn_run_up:
  assumes "fu_inv s" and "fn_args_ok c" and "fn_run B c s = (rv, s')"
  shows "marks_up s s'"
proof (cases c)
  case (Generate g bin)
  then obtain gen where gen: "fu_fn_generate (simd B) gen bin s = (rv, s')"
    "gen \<in> {fu_gen_v1 (plat B), fu_gen_v4 (plat B), fu_gen_v4_fast (plat B), fu_gen_v6 (plat B), fu_gen_v7 (plat B)}"
    using assms(3)
    by (cases g; cases bin)
       (auto simp: uuid_v1_def uuid_v1_bin_def uuid_v4_def uuid_v4_bin_def uuid_v4_fast_def uuid_v4_fast_bin_def
         uuid_v6_def uuid_v6_bin_def uuid_v7_def uuid_v7_bin_def)
  from generate_run [OF gen(1)] gen(2) assms(1) show ?thesis
    by (auto intro: gen_v1_up gen_v6_up gen_v7_up marks_up_same gen_v4_marks gen_v4_fast_marks)
next
  case (V7_at ms bin)
  with assms(3) show ?thesis
    by (auto simp: uuid_v7_at_def uuid_v7_at_bin_def fu_fn_v7_at_def intro!: marks_up_same
        dest: v7_at_ms_marks split: if_splits prod.splits option.splits)
next
  case (V3 ns name bin)
  with assms(3) name_based_up [where gen = "fu_gen_v3 (MD5 B)", OF gen_v3_marks] show ?thesis
    by (auto simp: uuid_v3_def uuid_v3_bin_def split: if_splits)
next
  case (V5 ns name bin)
  with assms(3) name_based_up [where gen = "fu_gen_v5 (SHA1 B)", OF gen_v5_marks] show ?thesis
    by (auto simp: uuid_v5_def uuid_v5_bin_def split: if_splits)
next
  case (V4_batch n bin)
  then have r: "zend_long_range n" "fu_fn_batch B n (fu_gen_v4_batch_n (plat B) (simd B)) bin s = (rv, s')"
    using assms(2,3) by (cases bin; simp add: uuid_v4_batch_def uuid_v4_bin_batch_def)+
  from batch_up [OF r] gen_v4_batch_up [OF assms(1)] show ?thesis by blast
next
  case (V7_batch n bin)
  then have r: "zend_long_range n" "fu_fn_batch B n (fu_gen_v7_batch_n (plat B) (simd B)) bin s = (rv, s')"
    using assms(2,3) by (cases bin; simp add: uuid_v7_batch_def uuid_v7_bin_batch_def)+
  then show ?thesis
    by (rule batch_up, rule_tac gen_v7_batch_up [OF assms(1), of "nat n"]) auto
next
  case (Random n)
  with assms(3) show ?thesis
    by (auto simp: fast_uuid_random_bytes_def intro!: marks_up_same dest: random_bytes_marks split: prod.splits option.splits)
qed (use assms(3) in \<open>auto simp: uuid_v8_def uuid_v8_bin_def fu_fn_v8_def uuid_to_bin_def uuid_from_bin_def uuid_is_valid_def
       fu_fn_to_bin_def fu_fn_from_bin_def fu_fn_is_valid_def split: if_splits option.splits\<close>)

subsection \<open>The class\<close>

definition vm_up :: "'w vm \<Rightarrow> 'w vm \<Rightarrow> bool" where
  "vm_up vm vm' = marks_up (core vm) (core vm')"

lemma vm_up_refl [simp, intro]: "vm_up vm vm"
  by (simp add: vm_up_def)

lemma vm_up_trans: "vm_up vm1 vm2 \<Longrightarrow> vm_up vm2 vm3 \<Longrightarrow> vm_up vm1 vm3"
  unfolding vm_up_def by (rule marks_up_trans)

lemma vm_up_throw [simp]: "vm_up vm (vm_throw ce msg vm1) \<longleftrightarrow> vm_up vm vm1"
  by (simp add: vm_up_def vm_throw_def marks_up_def v7_mark_def zend_throw_def)

lemma vm_up_core: "core vm' = core vm \<Longrightarrow> vm_up vm vm'"
  by (simp add: vm_up_def)

text \<open>Userland code, wherever the extension calls it, can reach the globals only by calling the extension
  again, so it moves no mark back either.\<close>

definition user_marks :: "fu_simd \<Rightarrow> 'w zend \<Rightarrow> 'w date_api \<Rightarrow> bool" where
  "user_marks h Z D =
     ((\<forall>fn o1 vm. vm_inv h vm \<longrightarrow> vm_up vm (snd (call_method Z fn o1 vm))) \<and>
      (\<forall>o1 vm. vm_inv h vm \<longrightarrow> vm_up vm (snd (get_string Z o1 vm))) \<and>
      (\<forall>o1 vm. vm_inv h vm \<longrightarrow> vm_up vm (snd (snd (getTimestamp D o1 vm)))) \<and>
      (\<forall>o1 vm. vm_inv h vm \<longrightarrow> vm_up vm (snd (snd (format_u D o1 vm)))) \<and>
      (\<forall>secs us vm. vm_inv h vm \<longrightarrow> vm_up vm (snd (snd (init_from_ts D secs us vm)))) \<and>
      (\<forall>str vm. vm_inv h vm \<longrightarrow> vm_up vm (snd (snd (createFromFormat D str vm)))))"

lemma user_marksD:
  assumes "user_marks h Z D" and "vm_inv h vm"
  shows "call_method Z fn o1 vm = (ret, vm1) \<Longrightarrow> vm_up vm vm1"
    and "get_string Z o1 vm = (str, vm1) \<Longrightarrow> vm_up vm vm1"
    and "getTimestamp D o1 vm = (cr, ret, vm1) \<Longrightarrow> vm_up vm vm1"
    and "format_u D o1 vm = (cr, ret, vm1) \<Longrightarrow> vm_up vm vm1"
    and "init_from_ts D secs us vm = (ret, time, vm1) \<Longrightarrow> vm_up vm vm1"
    and "createFromFormat D str vm = (cr, ret, vm1) \<Longrightarrow> vm_up vm vm1"
  using assms unfolding user_marks_def by (metis snd_conv)+

lemma resolve_stringable_up:
  assumes "user_marks h Z D" and "vm_inv h vm" and "resolve_stringable B Z ce o1 vm = (r, vm')"
  shows "vm_up vm vm'"
  using assms(3) user_marksD(2) [OF assms(1,2), of o1] by (auto simp: resolve_stringable_def split: if_splits prod.splits)

lemma resolve_up:
  assumes u: "user_marks h Z D" and ok: "zend_ok h Z" and inv: "vm_inv h vm" and r: "fu_resolve_uuid B Z z vm = (r, vm')"
  shows "vm_up vm vm'"
proof (cases "\<exists>o1 ce fn. z = IS_OBJECT o1 \<and> objects vm o1 = Some (Other ce) \<and>
    fu_find_zero_arg_method Z ce (lit ''getcore'') (MAY_BE_OBJECT Z) (Some (fast_uuid_ce Z)) = Some fn")
  case True
  then obtain o1 ce fn where z: "z = IS_OBJECT o1" "objects vm o1 = Some (Other ce)"
    "fu_find_zero_arg_method Z ce (lit ''getcore'') (MAY_BE_OBJECT Z) (Some (fast_uuid_ce Z)) = Some fn" by blast
  obtain ret vm1 where c: "call_method Z fn o1 vm = (ret, vm1)" by (cases "call_method Z fn o1 vm")
  have up: "vm_up vm vm1" by (rule user_marksD(1) [OF u inv c])
  have "vm_up vm1 vm'"
    using r z c resolve_stringable_up [OF u zend_okD(1) [OF ok inv c], of B ce o1]
    by (auto simp: fu_resolve_uuid_def split: option.splits if_splits)
  with up show ?thesis by (rule vm_up_trans)
next
  case False
  with r resolve_stringable_up [OF u inv, of B] show ?thesis
    by (auto simp: fu_resolve_uuid_def split: zval.splits option.splits zobj.splits)
qed

lemma dt_secs_micros_up:
  assumes u: "user_marks h Z D" and ok: "date_ok h D" and inv: "vm_inv h vm"
    and r: "fu_dt_secs_micros Z D dtobj vm = (r, vm')"
  shows "vm_up vm vm'"
proof -
  obtain cr ret vm1 where t: "getTimestamp D dtobj vm = (cr, ret, vm1)" by (cases "getTimestamp D dtobj vm")
  obtain cr2 ret2 vm2 where f: "format_u D dtobj vm1 = (cr2, ret2, vm2)" by (cases "format_u D dtobj vm1")
  have "vm_inv h vm1" using ok inv t unfolding date_ok_def by (metis snd_conv)
  then have up: "vm_up vm vm1" "vm_up vm vm2"
    using user_marksD(3) [OF u inv t] user_marksD(4) [OF u _ f] vm_up_trans by blast+
  have "vm' \<in> {vm, vm1, vm2} \<or> (\<exists>ce msg. vm' \<in> {vm_throw ce msg vm1, vm_throw ce msg vm2})"
    using r unfolding fu_dt_secs_micros_def t by (auto simp: f split: option.splits if_splits zval.splits)
  with up show ?thesis by auto
qed

lemma make_datetime_up:
  assumes u: "user_marks h Z D" and ok: "date_make_ok h D" and inv: "vm_inv h vm"
    and r: "fu_make_datetime D secs micros vm = (r, vm')"
  shows "vm_up vm vm'"
proof -
  have s: "vm_up vm1 vm2" if "vm_inv h vm1" "fu_make_datetime_from_string D secs micros vm1 = (r2, vm2)" for vm1 r2 vm2
    using that user_marksD(6) [OF u that(1)] by (auto simp: fu_make_datetime_from_string_def split: prod.splits if_splits)
  show ?thesis
  proof (cases "php84 D \<and> zend_long_range secs")
    case True
    obtain tmp time vm1 where i: "init_from_ts D secs (uint micros) vm = (tmp, time, vm1)"
      by (cases "init_from_ts D secs (uint micros) vm")
    have "vm_up vm vm1" by (rule user_marksD(5) [OF u inv i])
    with True r i s [OF date_make_okD(1) [OF ok inv i]] show ?thesis
      by (auto simp: fu_make_datetime_def split: if_splits intro: vm_up_trans)
  qed (use r s [OF inv] in \<open>auto simp: fu_make_datetime_def\<close>)
qed

subsection \<open>Factories\<close>

lemma core_return [simp]: "core (snd (fu_return_uuid b vm)) = core vm"
  by (cases "vm_exception vm") (simp add: fu_return_uuid_eq, simp add: fu_return_uuid_def)

lemma core_return_or_throw [simp]: "core (snd (return_or_throw r)) = core (snd r)"
  by (cases r; cases "fst r") (simp_all add: return_or_throw_def)

lemma on_core_up: "(\<And>r s'. f (core vm) = (r, s') \<Longrightarrow> marks_up (core vm) s') \<Longrightarrow> vm_up vm (snd (on_core f vm))"
  by (cases "f (core vm)") (simp add: on_core_def vm_up_def)

lemma factory_gen_up:
  "(\<And>r s'. f (core vm) = (r, s') \<Longrightarrow> marks_up (core vm) s') \<Longrightarrow> vm_up vm (snd (return_or_throw (on_core f vm)))"
  using on_core_up [of f vm] by (simp add: vm_up_def)

text \<open>The node and the clock sequence are checked first; a failed check only throws.\<close>

lemma node_clockseq_up:
  assumes "\<And>np cseq. args_ok np cseq \<Longrightarrow> vm_up vm (snd (k np cseq vm))"
  shows "vm_up vm (snd (case on_core (node_clockseq node cs) vm of (None, vm) \<Rightarrow> (IS_NULL, vm) | (Some (np, cseq), vm) \<Rightarrow> k np cseq vm))"
proof (rule node_clockseq_cases [of node cs "core vm"])
  fix np cseq assume "node_clockseq node cs (core vm) = (Some (np, cseq), core vm)" "args_ok np cseq"
  then show ?thesis using assms by (simp add: on_core_def)
next
  fix msg assume "node_clockseq node cs (core vm) = (None, zend_throw InvalidArgumentException msg (core vm))"
  then show ?thesis by (simp add: on_core_def vm_up_def)
qed


lemma gen_marks_up: "(\<And>r s'. f s = (r, s') \<Longrightarrow> gen_marks s' = gen_marks s) \<Longrightarrow> f s = (r, s') \<Longrightarrow> marks_up s s'"
  by (blast intro: marks_up_same)

lemma greg_factory_up:
  assumes "fu_inv (core vm)"
  shows "vm_up vm (snd (case on_core (node_clockseq node cs) vm of
      (None, vm) \<Rightarrow> (IS_NULL, vm) | (Some (np, cseq), vm) \<Rightarrow> return_or_throw (on_core (greg_gen head P np cseq) vm)))"
  by (rule node_clockseq_up) (rule factory_gen_up, rule greg_gen_up [OF assms])

lemma local_id_result:
  "fu_local_id_arg ids dm str lv null s = (r, s') \<Longrightarrow>
   s' = s \<and> r \<noteq> None \<or> r = None \<and> (\<exists>msg. s' = zend_throw InvalidArgumentException msg s)"
  by (auto simp: fu_local_id_arg_def Let_def split: if_splits option.splits prod.splits)

lemma uuid2_up:
  assumes "fu_inv (core vm)"
  shows "vm_up vm (snd (Uuid_uuid2 B dm lid node cs vm))"
proof (cases "dm < 0 \<or> 0xff < dm")
  case False
  obtain r s where l: "fu_local_id_arg (posix_ids B) dm (fst lid) (fst (snd lid)) (snd (snd lid)) (core vm) = (r, s)"
    by (cases "fu_local_id_arg (posix_ids B) dm (fst lid) (fst (snd lid)) (snd (snd lid)) (core vm)")
  note e = Uuid_uuid2_def on_core_eq [of "fu_local_id_arg (posix_ids B) dm (fst lid) (fst (snd lid)) (snd (snd lid))", OF l] if_not_P [OF False]
  show ?thesis
  proof (cases r)
    case None
    with local_id_result [OF l] show ?thesis by (auto simp: e vm_up_def)
  next
    case (Some local_id)
    then have "vm\<lparr>core := s\<rparr> = vm" using local_id_result [OF l] by simp
    then show ?thesis
      unfolding e Some prod.case option.case Let_def
      by (simp only:) (rule node_clockseq_up, rule factory_gen_up, rule gen_v2_up [OF assms])
  qed
qed (simp add: Uuid_uuid2_def)


lemma name_based_factory_up:
  assumes "vm_up vm vm1" and "\<And>r s'. gen (core vm1) = (r, s') \<Longrightarrow> gen_marks s' = gen_marks (core vm1)"
  shows "vm_up vm (snd (case on_core gen vm1 of (b, vm) \<Rightarrow> if vm_exception vm \<noteq> None then (IS_NULL, vm) else fu_return_uuid (the b) vm))"
proof -
  obtain b vm2 where g: "on_core gen vm1 = (b, vm2)" by fastforce
  have "vm_up vm1 vm2"
    using on_core_up [of gen vm1] assms(2) marks_up_same g by fastforce
  with assms(1) have "vm_up vm vm2" by (rule vm_up_trans)
  with g show ?thesis by (simp add: vm_up_def)
qed

lemma uuid3_uuid5_up:
  assumes u: "user_marks (simd B) Z D" "zend_ok (simd B) Z" "vm_inv (simd B) vm"
  shows "vm_up vm (snd (Uuid_uuid3 B Z zns name vm))" "vm_up vm (snd (Uuid_uuid5 B Z zns name vm))"
proof -
  obtain r vm1 where r: "fu_resolve_uuid B Z zns vm = (r, vm1)" by fastforce
  note up = resolve_up [OF u r]
  show "vm_up vm (snd (Uuid_uuid3 B Z zns name vm))"
    by (cases r) (use up name_based_factory_up [OF up gen_v3_marks] in \<open>simp_all add: Uuid_uuid3_def r\<close>)
  show "vm_up vm (snd (Uuid_uuid5 B Z zns name vm))"
    by (cases r) (use up name_based_factory_up [OF up gen_v5_marks] in \<open>simp_all add: Uuid_uuid5_def r\<close>)
qed

lemma v1_at_up: "vm_up vm (snd (v1_at B secs micros np cseq vm))"
  unfolding v1_at_def Let_def
  by (auto intro!: on_core_up marks_up_same dest: lay_v1_marks)

lemma fromDateTime_up:
  assumes "user_marks h Z D" and "date_ok h D" and "vm_inv h vm" 
  shows "vm_up vm (snd (Uuid_fromDateTime B Z D dtobj node cs vm))"
proof -
  obtain r vm1 where r: "fu_dt_secs_micros Z D dtobj vm = (r, vm1)" by fastforce
  note up = dt_secs_micros_up [OF assms r]
  have "vm_up vm1 (snd (case on_core (node_clockseq node cs) vm1 of
      (None, vm) \<Rightarrow> (IS_NULL, vm) | (Some (np, cseq), vm) \<Rightarrow> return_or_throw (v1_at B secs micros np cseq vm)))" for secs micros
    by (rule node_clockseq_up) (use v1_at_up in \<open>simp add: vm_up_def\<close>)
  with up have "vm_up vm (snd (case on_core (node_clockseq node cs) vm1 of
      (None, vm) \<Rightarrow> (IS_NULL, vm) | (Some (np, cseq), vm) \<Rightarrow> return_or_throw (v1_at B secs micros np cseq vm)))" for secs micros
    by (rule vm_up_trans)
  then show ?thesis using up by (cases r) (simp_all add: Uuid_fromDateTime_def r split: prod.splits)
qed

lemma v7_at_datetime_up:
  assumes "user_marks h Z D" and "date_ok h D" and "vm_inv h vm"
  shows "vm_up vm (snd (fu_v7_at_datetime B Z D dtobj vm))"
proof -
  obtain r vm1 where r: "fu_dt_secs_micros Z D dtobj vm = (r, vm1)" by fastforce
  note up = dt_secs_micros_up [OF assms r]
  have "vm_up vm1 (snd (on_core (fu_gen_v7_at (plat B) ms sub) vm1))" for ms sub
    by (rule on_core_up) (rule marks_up_same, erule gen_v7_at_marks)
  with up have "vm_up vm (snd (on_core (fu_gen_v7_at (plat B) ms sub) vm1))" for ms sub by (rule vm_up_trans)
  then show ?thesis using up by (cases r) (simp_all add: fu_v7_at_datetime_def r Let_def split: prod.splits)
qed

lemma vm_up_type_error [simp]: "vm_up vm (vm_type_error vm)"
  by (simp add: vm_up_def vm_type_error_def)

lemma uuid7_up:
  assumes "user_marks h Z D" and "date_ok h D" and "vm_inv h vm"
  shows "vm_up vm (snd (Uuid_uuid7 B Z D when_arg vm))"
proof -
  have "vm_up vm (snd (return_or_throw (on_core (fu_gen_v7 (plat B)) vm)))"
    by (rule factory_gen_up) (rule gen_v7_up [OF vm_inv_core [OF assms(3)]])
  moreover have "vm_up vm (snd (return_or_throw (on_core (fu_v7_at_ms (plat B) ms) vm)))" for ms
    by (rule factory_gen_up) (rule marks_up_same, erule v7_at_ms_marks)
  moreover have "vm_up vm (snd (return_or_throw (fu_v7_at_datetime B Z D o1 vm)))" for o1
    using v7_at_datetime_up [OF assms, of B o1] by (simp add: vm_up_def)
  ultimately show ?thesis by (cases when_arg) (simp_all add: Uuid_uuid7_def)
qed

lemma fromHexadecimal_up:
  assumes "user_marks h Z D" and "vm_inv h vm"
  shows "vm_up vm (snd (Uuid_fromHexadecimal B Z arg vm))"
proof -
  obtain str vm1 where r: "(case arg of Inl o1 \<Rightarrow> get_string Z o1 vm | Inr str \<Rightarrow> (str, vm)) = (str, vm1)" by fastforce
  have "vm_up vm vm1" using r user_marksD(2) [OF assms] by (auto split: sum.splits)
  then show ?thesis
    unfolding Uuid_fromHexadecimal_def r prod.case by (auto simp: vm_up_def split: option.splits)
qed

lemma factory_up:
  assumes "user_marks (simd B) Z D" and "runtime_ok B Z D" and "vm_inv (simd B) vm"
  shows "vm_up vm (snd (factory_run B Z D f vm))"
proof -
  have z: "zend_ok (simd B) Z" and d: "date_ok (simd B) D" using assms(2) by (simp_all add: runtime_ok_def)
  have i: "fu_inv (core vm)" using assms(3) by (rule vm_inv_core)
  show ?thesis
  proof (cases f)
    case (F_uuid1 node cs)
    show ?thesis unfolding F_uuid1 factory_run.simps Uuid_uuid1_def fu_gen_v1_ex_eq by (rule greg_factory_up [OF i])
  next
    case (F_uuid6 node cs)
    show ?thesis unfolding F_uuid6 factory_run.simps Uuid_uuid6_def fu_gen_v6_ex_eq by (rule greg_factory_up [OF i])
  next
    case F_uuid4
    have "vm_up vm (snd (return_or_throw (on_core (fu_gen_v4 (plat B)) vm)))"
      by (rule factory_gen_up) (rule marks_up_same, erule gen_v4_marks)
    then show ?thesis by (simp add: F_uuid4 Uuid_uuid4_def)
  next
    case (F_fromHexadecimal arg)
    then show ?thesis using fromHexadecimal_up [OF assms(1,3)] by simp
  next
    case (F_fromDateTime o1 node cs)
    then show ?thesis using fromDateTime_up [OF assms(1) d assms(3)] by simp
  next
    case (F_uuid7 w)
    then show ?thesis using uuid7_up [OF assms(1) d assms(3)] by simp
  qed (use uuid2_up [OF i, of B] uuid3_uuid5_up [OF assms(1) z assms(3)] in
        \<open>auto simp: Uuid_uuid8_def Uuid_fromString_def Uuid_fromBytes_def Uuid_fromInteger_def vm_up_def split: option.splits\<close>)
qed

subsection \<open>Instance methods\<close>

lemma core_set_obj [simp]: "core (set_obj o1 u vm) = core vm"
  by (simp add: set_obj_def)

lemma core_str: "fu_str h o1 vm = (str, vm') \<Longrightarrow> core vm' = core vm"
  by (auto simp: fu_str_def Let_def split: option.splits)

lemma method_up:
  assumes "user_marks (simd B) Z D" and "runtime_ok B Z D" and "vm_inv (simd B) vm"
  shows "vm_up vm (snd (method_run B Z D this m vm))"
proof -
  have z: "zend_ok (simd B) Z" and d: "date_make_ok (simd B) D" using assms(2) by (simp_all add: runtime_ok_def)
  show ?thesis
  proof (cases m)
    case M_getDateTime
    obtain tm where "fu_decode_time (obj_b (fu_from_zobj vm this)) = tm" by blast
    then show ?thesis
      using make_datetime_up [OF assms(1) d assms(3)]
      by (auto simp: M_getDateTime Uuid_getDateTime_def split: option.splits prod.splits)
  next
    case (M_equals z1)
    then show ?thesis using resolve_up [OF assms(1) z assms(3)]
      by (auto simp: Uuid_equals_def split: option.splits prod.splits)
  next
    case (M_compareTo z1)
    then show ?thesis using resolve_up [OF assms(1) z assms(3)]
      by (auto simp: Uuid_compareTo_def Let_def split: option.splits prod.splits)
  next
    case (M_unserialize data)
    then show ?thesis by (auto simp: Uuid_unserialize_def vm_up_def split: option.splits zval.splits)
  qed (auto simp: Uuid_construct_def Uuid_toString_def Uuid_getBytes_def Uuid_getHex_def Uuid_getUrn_def Uuid_getVersion_def
        Uuid_getVariant_def Uuid_getInteger_def Uuid_getTimestampMillis_def Uuid_getFields_def Uuid_jsonSerialize_def
        Uuid_serialize_def Let_def vm_up_def split: option.splits prod.splits dest!: core_str)
qed

lemma class_up:
  assumes "user_marks (simd B) Z D" and "runtime_ok B Z D" and "vm_inv (simd B) vm"
  shows "vm_up vm (snd (class_run B Z D c vm))"
proof (cases c)
  case (On this m)
  then show ?thesis using method_up [OF assms] by simp
next
  case (Cls s)
  then show ?thesis
    using factory_up [OF assms]
    by (cases s) (auto simp: Uuid_isValid_def Uuid_set_state_def vm_up_def split: option.splits)
qed

end
