(* ===== verification/Fu_Machine.thy ===== *)
theory Fu_Machine
  imports Fu_Marks
begin

section \<open>The process as a machine\<close>

text \<open>
  A PHP process that uses the extension, as a step relation: any interleaving of procedural functions,
  methods, object handlers, other code and forks.  Its abstract specification is an issuer of numbers: one
  high-water mark per clock, and every step issues numbers above the mark, in increasing order, and moves
  the mark at least to the last of them.  A forked child starts over.
\<close>

subsection \<open>The issuer\<close>

text \<open>Version 7 UUIDs are ordered by their 128-bit number, versions 1 and 6 by their 60-bit timestamp, and version 2
  UUIDs with the caller's node and clock sequence by the 28 bits of timestamp they keep.\<close>

datatype clk = C7 | CG | C2

type_synonym marks = "clk \<Rightarrow> nat option"

definition of_clk :: "clk \<Rightarrow> (clk \<times> nat) list \<Rightarrow> nat list" where
  "of_clk c outs = map snd (filter (\<lambda>out. fst out = c) outs)"

definition issue :: "marks \<Rightarrow> (clk \<times> nat) list \<Rightarrow> marks \<Rightarrow> bool" where
  "issue \<sigma> outs \<sigma>' \<longleftrightarrow>
     (\<forall>c. \<sigma> c \<le> \<sigma>' c \<and> sorted_wrt (<) (of_clk c outs) \<and> (\<forall>v \<in> set (of_clk c outs). \<sigma> c < Some v \<and> Some v \<le> \<sigma>' c))"

lemma of_clk_append [simp]: "of_clk c (outs @ outs') = of_clk c outs @ of_clk c outs'"
  by (simp add: of_clk_def)

lemma of_clk_Nil [simp]: "of_clk c [] = []"
  by (simp add: of_clk_def)

lemma of_clk_one [simp]: "of_clk c (map (Pair c') vs) = (if c = c' then vs else [])"
  by (simp add: of_clk_def filter_map comp_def)

lemma issue_Nil: "issue \<sigma> [] \<sigma>' \<longleftrightarrow> (\<forall>c. \<sigma> c \<le> \<sigma>' c)"
  by (simp add: issue_def)

lemma issue_append:
  assumes "issue \<sigma> outs \<sigma>1" and "issue \<sigma>1 outs' \<sigma>2"
  shows "issue \<sigma> (outs @ outs') \<sigma>2"
  unfolding issue_def
proof (intro allI conjI ballI)
  fix c
  have a: "\<sigma> c \<le> \<sigma>1 c" "\<sigma>1 c \<le> \<sigma>2 c" "sorted_wrt (<) (of_clk c outs)" "sorted_wrt (<) (of_clk c outs')"
    "\<And>v. v \<in> set (of_clk c outs) \<Longrightarrow> \<sigma> c < Some v \<and> Some v \<le> \<sigma>1 c"
    "\<And>v. v \<in> set (of_clk c outs') \<Longrightarrow> \<sigma>1 c < Some v \<and> Some v \<le> \<sigma>2 c"
    using assms by (auto simp: issue_def)
  show "\<sigma> c \<le> \<sigma>2 c" using a(1,2) by (rule order_trans)
  have "v < v'" if "v \<in> set (of_clk c outs)" "v' \<in> set (of_clk c outs')" for v v'
    using a(5) [OF that(1)] a(6) [OF that(2)] by (metis order_le_less_trans less_option_Some)
  then show "sorted_wrt (<) (of_clk c (outs @ outs'))" using a(3,4) by (simp add: sorted_wrt_append)
  fix v assume "v \<in> set (of_clk c (outs @ outs'))"
  then show "\<sigma> c < Some v" "Some v \<le> \<sigma>2 c" using a by (auto intro: order_trans order_le_less_trans)
qed

text \<open>The contract a machine owes the issuer, and what runs of any such machine have.\<close>

inductive runs :: "('s \<Rightarrow> 'l \<Rightarrow> 's \<Rightarrow> bool) \<Rightarrow> 's \<Rightarrow> 'l list \<Rightarrow> 's \<Rightarrow> bool" for step where
  stop: "runs step x [] x"
| move: "step x l y \<Longrightarrow> runs step y ls z \<Longrightarrow> runs step x (l # ls) z"

inductive_cases runs_NilE: "runs step x [] y"
inductive_cases runs_ConsE: "runs step x (l # ls) y"

lemma runs_append: "runs step x ls y \<Longrightarrow> runs step y ls' z \<Longrightarrow> runs step x (ls @ ls') z"
  by (induction rule: runs.induct) (auto intro: runs.move)

lemma runs_split: "runs R x (ls @ ls') z \<Longrightarrow> \<exists>y. runs R x ls y \<and> runs R y ls' z"
proof (induction ls arbitrary: x)
  case Nil
  then show ?case by (auto intro: runs.stop)
next
  case (Cons l ls)
  from Cons.prems obtain y where y: "R x l y" "runs R y (ls @ ls') z" by (auto elim: runs_ConsE)
  from Cons.IH [OF y(2)] y(1) show ?case by (blast intro: runs.move)
qed

lemma runs_map: "runs R x (map f ls) y \<Longrightarrow> runs (\<lambda>x l y. R x (f l) y) x ls y"
  by (induction ls arbitrary: x) (auto elim!: runs_NilE runs_ConsE intro: runs.intros)

locale issuer =
  fixes step :: "'s \<Rightarrow> (clk \<times> nat) list \<Rightarrow> 's \<Rightarrow> bool"
    and mark :: "'s \<Rightarrow> marks"
    and good :: "'s \<Rightarrow> bool"
  assumes step_good: "good x \<Longrightarrow> step x outs y \<Longrightarrow> good y"
    and step_issues: "good x \<Longrightarrow> step x outs y \<Longrightarrow> issue (mark x) outs (mark y)"
begin

lemma run_issues:
  "runs step x trace y \<Longrightarrow> good x \<Longrightarrow> good y \<and> issue (mark x) (concat trace) (mark y)"
proof (induction rule: runs.induct)
  case (stop x)
  then show ?case by (simp add: issue_Nil)
next
  case (move x outs y trace z)
  then show ?case using step_good step_issues issue_append by (metis concat.simps(2))
qed

lemma run_sorted: "runs step x trace y \<Longrightarrow> good x \<Longrightarrow> sorted_wrt (<) (of_clk c (concat trace))"
  using run_issues [of x trace y] by (simp add: issue_def)

end


subsection \<open>The machine\<close>

text \<open>What happened in a step, and what the caller was given: a call of a function or on the class returned a
  value; an instance was cloned, destroyed, cast to a string, dumped or exported; other PHP code ran (it caught
  the exception, made or dropped an object of another class, or time passed and the outside world changed); or the
  process forked, and the machine is the child from here on.\<close>

datatype event =
  Called fn_call zval | Method class_call zval | Cloned nat nat | Destroyed nat | Cast nat | Dumped nat | Exported nat |
  Caught | Allocated class_entry | Released nat | Waited | Forked bool

text \<open>The engine calls into the extension only while no exception is pending.\<close>

inductive step :: "('w, 'm, 's) build \<Rightarrow> 'w zend \<Rightarrow> 'w date_api \<Rightarrow> 'w vm \<Rightarrow> event \<Rightarrow> 'w vm \<Rightarrow> bool" for B Z D where
  call: "vm_exception vm = None \<Longrightarrow> fn_args_ok c \<Longrightarrow> fn_run B c (core vm) = (rv, s) \<Longrightarrow>
     step B Z D vm (Called c rv) (vm\<lparr>core := s\<rparr>)"
| meth: "vm_exception vm = None \<Longrightarrow> call_args_ok vm c \<Longrightarrow> class_run B Z D c vm = (rv, vm') \<Longrightarrow>
     step B Z D vm (Method c rv) vm'"
| clone: "is_uuid vm o1 \<Longrightarrow> fu_clone o1 vm = (o2, vm') \<Longrightarrow> step B Z D vm (Cloned o1 o2) vm'"
| destroy: "is_uuid vm o1 \<Longrightarrow> step B Z D vm (Destroyed o1) (fu_free o1 vm)"
| cast: "is_uuid vm o1 \<Longrightarrow> step B Z D vm (Cast o1) (snd (fu_cast (simd B) std o1 To_string vm))"
| dump: "is_uuid vm o1 \<Longrightarrow> step B Z D vm (Dumped o1) (snd (fu_get_debug_info (simd B) o1 vm))"
| exported: "is_uuid vm o1 \<Longrightarrow>
     step B Z D vm (Exported o1) (snd (fu_get_properties_for (simd B) std1 o1 Purpose_var_export vm))"
| catch: "step B Z D vm Caught (vm\<lparr>core := (core vm)\<lparr>EG_exception := None\<rparr>\<rparr>)"
| alloc: "step B Z D vm (Allocated ce)
     (vm\<lparr>objects := (objects vm)(next_object vm \<mapsto> Other ce), puts := Suc (puts vm)\<rparr>)"
| release: "objects vm o1 = Some (Other ce) \<Longrightarrow> step B Z D vm (Released o1) (vm\<lparr>objects := (objects vm)(o1 := None)\<rparr>)"
| wait: "step B Z D vm Waited (vm\<lparr>core := (core vm)\<lparr>world := w\<rparr>\<rparr>)"
| fork: "step B Z D vm (Forked in_php) (vm\<lparr>core := fu_atfork_child in_php (core vm)\<rparr>)"

inductive_cases step_ForkedE: "step B Z D vm (Forked in_php) vm'"
inductive_cases step_CalledE: "step B Z D vm (Called c rv) vm'"
inductive_cases step_MethodE: "step B Z D vm (Method c rv) vm'"

text \<open>The process starts with no objects and the engine's object store, \<open>put\<close>, whose handles are not in use when it gives
  them out.\<close>

definition handles_fresh :: "(nat \<Rightarrow> (nat \<Rightarrow> zobj option) \<Rightarrow> nat) \<Rightarrow> bool" where
  "handles_fresh put \<longleftrightarrow> (\<forall>n obs. finite (dom obs) \<longrightarrow> obs (put n obs) = None)"

definition vm_boot :: "(nat \<Rightarrow> (nat \<Rightarrow> zobj option) \<Rightarrow> nat) \<Rightarrow> 'w \<Rightarrow> 'w vm" where
  "vm_boot put w = \<lparr>core = fu_boot w, objects = Map.empty, store_put = put, puts = 0\<rparr>"

lemma vm_boot_inv: "handles_fresh put \<Longrightarrow> vm_inv h (vm_boot put w)"
  by (simp add: vm_inv_def vm_boot_def fu_inv_boot store_ok_def handles_fresh_def)

text \<open>The UUIDs a returned value stands for, read the way a caller reads them, and the numbers the generators
  with a memory issued in a step.\<close>

fun uuid_in :: "('w, 'm, 's) build \<Rightarrow> bool \<Rightarrow> zval \<Rightarrow> byte list option" where
  "uuid_in B bin (IS_STRING t) = (if bin then Some t else fu_parse (strncase B) t)"
| "uuid_in B bin rv = None"

fun uuids_in :: "('w, 'm, 's) build \<Rightarrow> bool \<Rightarrow> zval \<Rightarrow> byte list list" where
  "uuids_in B bin (IS_ARRAY kvs) = List.map_filter (uuid_in B bin) (map snd kvs)"
| "uuids_in B bin rv = (case uuid_in B bin rv of None \<Rightarrow> [] | Some b \<Rightarrow> [b])"

fun issued_by_fn :: "('w, 'm, 's) build \<Rightarrow> fn_call \<Rightarrow> zval \<Rightarrow> (clk \<times> nat) list" where
  "issued_by_fn B (Generate V7 bin) rv = map (Pair C7) (map be_nat (uuids_in B bin rv))"
| "issued_by_fn B (V7_batch n bin) rv = map (Pair C7) (map be_nat (uuids_in B bin rv))"
| "issued_by_fn B (Generate V1 bin) rv = map (Pair CG) (map time60 (uuids_in B bin rv))"
| "issued_by_fn B (Generate V6 bin) rv = map (Pair CG) (map time60 (uuids_in B bin rv))"
| "issued_by_fn B c rv = []"

definition object_bytes :: "'w vm \<Rightarrow> zval \<Rightarrow> byte list list" where
  "object_bytes vm rv = (case native vm rv of None \<Rightarrow> [] | Some u \<Rightarrow> [obj_b u])"

fun issued_by_class :: "'w vm \<Rightarrow> class_call \<Rightarrow> zval \<Rightarrow> (clk \<times> nat) list" where
  "issued_by_class vm (Cls (S_factory (F_uuid7 IS_NULL))) rv = map (Pair C7) (map be_nat (object_bytes vm rv))"
| "issued_by_class vm (Cls (S_factory (F_uuid1 node cs))) rv = map (Pair CG) (map time60 (object_bytes vm rv))"
| "issued_by_class vm (Cls (S_factory (F_uuid6 node cs))) rv = map (Pair CG) (map time60 (object_bytes vm rv))"
| "issued_by_class vm (Cls (S_factory (F_uuid2 dm lid node cs))) rv =
     (if snd (snd node) \<or> snd cs then []
      else map (Pair C2) (map (\<lambda>b. time60 b div 2 ^ 32) (object_bytes vm rv)))"
| "issued_by_class vm c rv = []"

fun issued :: "('w, 'm, 's) build \<Rightarrow> event \<Rightarrow> 'w vm \<Rightarrow> (clk \<times> nat) list" where
  "issued B (Called c rv) vm = issued_by_fn B c rv"
| "issued B (Method c rv) vm = issued_by_class vm c rv"
| "issued B e vm = []"

text \<open>The abstraction: the marks the globals hold.\<close>

fun high_water :: "'w st \<Rightarrow> marks" where
  "high_water s C7 = map_option (\<lambda>p. be_nat (pos_bytes p)) (v7_mark s)"
| "high_water s CG = Some (unat (greg_last s))"
| "high_water s C2 = Some (unat (v2_last s))"

lemma high_water_le:
  assumes "fu_inv s" and "fu_inv s'" and "marks_up s s'"
  shows "issue (high_water s) [] (high_water s')"
proof -
  have "high_water s C7 \<le> high_water s' C7"
  proof (cases "v7_mark s")
    case (Some p)
    moreover from assms(3) Some obtain q where q: "v7_mark s' = Some q" "p \<le> q"
      by (cases "v7_mark s'") (auto simp: marks_up_def)
    ultimately show ?thesis
      using pos_bytes_less_iff [OF v7_mark_ok [OF assms(1) Some] v7_mark_ok [OF assms(2) q(1)]]
      by (auto simp: order_le_less)
  qed simp
  moreover have "high_water s CG \<le> high_water s' CG" "high_water s C2 \<le> high_water s' C2"
    using assms(3) by (simp_all add: marks_up_def word_le_nat_alt)
  ultimately show ?thesis unfolding issue_Nil by (metis clk.exhaust)
qed


subsection \<open>What a step issues\<close>

lemma uuid_in_retval [simp]: "length b = 16 \<Longrightarrow> uuid_in B bin (IS_STRING (fu_uuid_zstr (simd B) b bin)) = Some b"
  by (simp add: fu_uuid_zstr_def)

lemma uuids_in_retval [simp]: "length b = 16 \<Longrightarrow> uuids_in B bin (fu_retval_uuid (simd B) b bin) = [b]"
  by (simp add: fu_retval_uuid_def)

lemma map_filter_all: "(\<And>x. x \<in> set xs \<Longrightarrow> f x = Some (g x)) \<Longrightarrow> List.map_filter f xs = map g xs"
  by (induction xs) (simp_all add: map_filter_simps)

lemma map_filter_map: "List.map_filter f (map h xs) = List.map_filter (f \<circ> h) xs"
  by (induction xs) (simp_all add: map_filter_simps split: option.split)

lemma uuids_in_packed:
  assumes "\<forall>b \<in> set bs. length b = 16"
  shows "uuids_in B bin (packed (map IS_STRING (map (\<lambda>b. fu_uuid_zstr (simd B) b bin) bs))) = bs"
proof -
  have e: "map snd (map (\<lambda>i. (Index (int i), xs ! i)) [0..<length xs]) = xs" for xs :: "zval list"
    by (simp add: comp_def map_nth)
  show ?thesis
    unfolding packed_def uuids_in.simps e map_filter_map
    by (rule trans [OF map_filter_all [of bs _ id]]) (use assms in \<open>simp_all add: fu_uuid_zstr_def\<close>)
qed

lemma issue_one:
  assumes "issue \<sigma> [] \<sigma>'" and "\<sigma> c < Some v" and "Some v \<le> \<sigma>' c"
  shows "issue \<sigma> (map (Pair c) [v]) \<sigma>'"
  unfolding issue_def of_clk_one using assms by (simp add: issue_Nil)

lemma issue_greg:
  assumes "fu_inv s" and "greg_valid i" and "greg_tick i s = (r, s')"
  shows "issue (high_water s) (map (Pair CG) (map time60 (case r of None \<Rightarrow> [] | Some b \<Rightarrow> [b]))) (high_water s')"
proof (rule greg_tick_cases [OF assms(1,2)])
  fix b s1 assume g: "greg_tick i s = (Some b, s1)" "unat (greg_last s) < time60 b" "unat (greg_last s1) = time60 b"
    "fu_inv s1" "gen_marks s1 = gen_marks (s\<lparr>greg_last := greg_last s1\<rparr>)"
  have e: "r = Some b" "s' = s1" using assms(3) g(1) by simp_all
  have "marks_up s s1" using g(2,3,5) by (simp add: marks_up_def gen_marks_iff v7_mark_def word_le_nat_alt)
  from issue_one [OF high_water_le [OF assms(1) g(4) this], of CG "time60 b"] g(2,3) show ?thesis by (simp add: e)
next
  fix s1 assume g: "greg_tick i s = (None, s1)" "fu_inv s1" "greg_last s \<le> greg_last s1"
    "gen_marks s1 = gen_marks (s\<lparr>greg_last := greg_last s1\<rparr>)"
  have e: "r = None" "s' = s1" using assms(3) g(1) by simp_all
  have "marks_up s s1" using g(3,4) by (simp add: marks_up_def gen_marks_iff v7_mark_def)
  with high_water_le [OF assms(1) g(2)] show ?thesis by (simp add: e)
qed

lemma issue_v2:
  assumes "fu_inv s" and "v2_valid i" and t: "v2_tick i s = (r, s')"
  shows "issue (high_water s) (map (Pair C2) (map (\<lambda>b. time60 b div 2 ^ 32) (case r of None \<Rightarrow> [] | Some b \<Rightarrow> [b]))) (high_water s')"
proof -
  have up: "marks_up s s'" using t gen_v2_up [OF assms(1)] by (auto simp: v2_tick_def split: prod.splits)
  show ?thesis
  proof (rule v2_tick_cases [OF assms(1,2)])
    fix b s1 assume g: "v2_tick i s = (Some b, s1)" "unat (v2_last s) < time60 b div 2 ^ 32"
      "unat (v2_last s1) = time60 b div 2 ^ 32" "fu_inv s1"
    have e: "r = Some b" "s' = s1" using t g(1) by simp_all
    from issue_one [OF high_water_le [OF assms(1) g(4) up [unfolded e]], of C2 "time60 b div 2 ^ 32"] g(2,3)
    show ?thesis by (simp add: e)
  next
    fix s1 assume g: "v2_tick i s = (None, s1)" "fu_inv s1"
    have e: "r = None" "s' = s1" using t g(1) by simp_all
    from high_water_le [OF assms(1) g(2) up [unfolded e]] show ?thesis by (simp add: e)
  qed
qed

lemma issue_v7:
  assumes "fu_inv s" and "fu_inv s'" and "marks_up s s'" and "sorted_wrt (<) ps"
    and "\<forall>p \<in> set ps. pos_ok p \<and> v7_mark s < Some p"
    and "v7_mark s' = (if ps = [] then v7_mark s else Some (last ps))"
  shows "issue (high_water s) (map (Pair C7) (map be_nat (map pos_bytes ps))) (high_water s')"
proof -
  have le: "high_water s c \<le> high_water s' c" for c
    using high_water_le [OF assms(1-3)] by (simp add: issue_Nil)
  have "sorted_wrt (<) (map be_nat (map pos_bytes ps))"
    unfolding map_map comp_def sorted_wrt_map
    by (rule sorted_wrt_mono_rel [OF _ assms(4)]) (use assms(5) in \<open>simp add: pos_bytes_less_iff\<close>)
  moreover have "high_water s C7 < Some (be_nat (pos_bytes p))" if "p \<in> set ps" for p
    using that assms(5) v7_mark_ok [OF assms(1)] by (cases "v7_mark s") (auto simp: pos_bytes_less_iff)
  moreover have "Some (be_nat (pos_bytes p)) \<le> high_water s' C7" if "p \<in> set ps" for p
  proof -
    have "p \<le> last ps" using that assms(4) by (induction ps) (auto simp: less_imp_le split: if_splits)
    moreover have "ps \<noteq> []" using that by auto
    moreover from this have "pos_ok p" "pos_ok (last ps)" using that assms(5) by simp_all
    ultimately show ?thesis using assms(6) pos_bytes_less_iff by (auto simp: order_le_less)
  qed
  ultimately have "sorted_wrt (<) (of_clk c outs) \<and> (\<forall>v \<in> set (of_clk c outs). high_water s c < Some v \<and> Some v \<le> high_water s' c)"
    if "outs = map (Pair C7) (map be_nat (map pos_bytes ps))" for c outs
    unfolding that of_clk_one by (cases c) (simp_all only: if_True if_False clk.distinct, auto)
  with le show ?thesis unfolding issue_def by blast
qed

lemma issue_gen_v7:
  assumes "fu_inv s" and "fu_gen_v7 P s = (r, s')"
  shows "issue (high_water s) (map (Pair C7) (map be_nat (case r of None \<Rightarrow> [] | Some b \<Rightarrow> [b]))) (high_water s')"
proof (rule v7_next_cases [OF assms(1), of P])
  fix p s1 assume n: "v7_next P s = (Some p, s1)" "v7_mark s < Some p" "v7_mark s1 = Some p" "pos_ok p" "fu_inv s1"
  then have e: "r = Some (pos_bytes p)" "s' = s1" using assms(2) by (simp_all add: fu_gen_v7_eq)
  show ?thesis
    using issue_v7 [OF assms(1) n(5) _ _ _, of "[p]"] gen_v7_up [OF assms] n e by simp
next
  fix s1 assume n: "v7_next P s = (None, s1)" "fu_inv s1"
  then have e: "r = None" "s' = s1" using assms(2) by (simp_all add: fu_gen_v7_eq)
  show ?thesis using high_water_le [OF assms(1) n(2)] gen_v7_up [OF assms] by (simp add: e)
qed

lemma batch_positions_sorted:
  assumes "fu_inv s" and "0 < n" and "fu_gen_v7_batch_n P h n as_bytes s = (rc, arr, s')"
  obtains ps where "arr = map (\<lambda>p. fu_uuid_zstr h (pos_bytes p) as_bytes) ps" "sorted_wrt (<) ps"
    "\<forall>p \<in> set ps. pos_ok p \<and> v7_mark s < Some p" "v7_mark s' = (if ps = [] then v7_mark s else Some (last ps))" "fu_inv s'"
proof -
  obtain ps where ps: "arr = map (\<lambda>p. fu_uuid_zstr h (pos_bytes p) as_bytes) ps"
    "\<forall>p \<in> set ps. pos_ok p \<and> v7_mark s < Some p" "v7_mark s' = (if ps = [] then v7_mark s else Some (last ps))"
    "sorted_wrt (\<lambda>x y. memcmp x y < 0) arr" "fu_inv s'"
    using v7_batch_facts [OF assms] by blast
  have "sorted_wrt (<) ps"
    by (rule sorted_wrt_mono_rel [OF _ ps(4) [unfolded ps(1) sorted_wrt_map]])
       (use ps(2) in \<open>simp add: fu_uuid_zstr_def fu_format36_memcmp memcmp_less_iff pos_bytes_less_iff split: if_splits\<close>)
  with ps show thesis by (intro that)
qed


lemma uuids_in_null [simp]: "uuids_in B bin IS_NULL = []"
  by simp

lemma generate_issue:
  assumes "fu_fn_generate (simd B) gen bin s = (rv, s')" and "\<And>b s1. gen s = (Some b, s1) \<Longrightarrow> length b = 16"
    and "\<And>r s'. gen s = (r, s') \<Longrightarrow> issue \<sigma> (map (Pair c) (map f (case r of None \<Rightarrow> [] | Some b \<Rightarrow> [b]))) (high_water s')"
  shows "issue \<sigma> (map (Pair c) (map f (uuids_in B bin rv))) (high_water s')"
proof -
  obtain r s1 where g: "gen s = (r, s1)" by fastforce
  have e: "s' = s1 \<and> uuids_in B bin rv = (case r of None \<Rightarrow> [] | Some b \<Rightarrow> [b])"
    using assms(1,2) g by (auto simp: fu_fn_generate_def split: option.splits)
  show ?thesis using assms(3) [OF g] unfolding conjunct1 [OF e] conjunct2 [OF e] .
qed

lemma fn_run_inv: "fu_inv s \<Longrightarrow> fn_run B c s = (rv, s') \<Longrightarrow> build_ok B \<Longrightarrow> EG_exception s = None \<Longrightarrow> fn_args_ok c \<Longrightarrow> fu_inv s'"
  using functions_outcome [of s B c rv s'] by blast

lemma length_gen_v7: "fu_inv s \<Longrightarrow> fu_gen_v7 P s = (Some b, s') \<Longrightarrow> length b = 16"
  by (rule v7_next_cases [of s P]) (auto simp: fu_gen_v7_eq)

lemma length_greg_tick: "fu_inv s \<Longrightarrow> greg_valid i \<Longrightarrow> greg_tick i s = (Some b, s') \<Longrightarrow> length b = 16"
  by (rule greg_tick_cases [of s i]) auto

lemma gen_v1_tick: "fu_gen_v1 P = greg_tick (P, Call_v1 None (- 1))" "greg_valid (P, Call_v1 None (- 1))"
  and gen_v6_tick: "fu_gen_v6 P = greg_tick (P, Call_v6 None (- 1))" "greg_valid (P, Call_v6 None (- 1))"
  by (simp_all add: fun_eq_iff fu_gen_v1_def fu_gen_v6_def args_ok_def)

lemma generate_call_issue:
  assumes inv: "fu_inv s" and r: "fn_run B (Generate g bin) s = (rv, s')" and quiet: "issue (high_water s) [] (high_water s')"
  shows "issue (high_water s) (issued_by_fn B (Generate g bin) rv) (high_water s')"
proof (cases g)
  case V1
  have "fu_fn_generate (simd B) (greg_tick (plat B, Call_v1 None (- 1))) bin s = (rv, s')"
    using r by (cases bin) (simp_all add: V1 uuid_v1_def uuid_v1_bin_def gen_v1_tick)
  from generate_issue [OF this length_greg_tick [OF inv gen_v1_tick(2)] issue_greg [OF inv gen_v1_tick(2)]]
  show ?thesis by (simp add: V1)
next
  case V6
  have "fu_fn_generate (simd B) (greg_tick (plat B, Call_v6 None (- 1))) bin s = (rv, s')"
    using r by (cases bin) (simp_all add: V6 uuid_v6_def uuid_v6_bin_def gen_v6_tick)
  from generate_issue [OF this length_greg_tick [OF inv gen_v6_tick(2)] issue_greg [OF inv gen_v6_tick(2)]]
  show ?thesis by (simp add: V6)
next
  case V7
  have "fu_fn_generate (simd B) (fu_gen_v7 (plat B)) bin s = (rv, s')"
    using r by (cases bin) (simp_all add: V7 uuid_v7_def uuid_v7_bin_def)
  from generate_issue [OF this length_gen_v7 [OF inv] issue_gen_v7 [OF inv]]
  show ?thesis by (simp add: V7)
qed (use quiet in simp_all)

lemma batch_call_issue:
  assumes inv: "fu_inv s" and args: "fn_args_ok (V7_batch n bin)" and r: "fn_run B (V7_batch n bin) s = (rv, s')"
    and quiet: "issue (high_water s) [] (high_water s')"
  shows "issue (high_water s) (issued_by_fn B (V7_batch n bin) rv) (high_water s')"
proof -
  have n: "zend_long_range n" "fu_fn_batch B n (fu_gen_v7_batch_n (plat B) (simd B)) bin s = (rv, s')"
    using args r by (cases bin; simp add: uuid_v7_batch_def uuid_v7_bin_batch_def)+
  show ?thesis
  proof (rule fu_batch_count_cases [OF n(1), of "HT_MAX_SIZE B" s])
    assume ok: "fu_batch_count_arg (HT_MAX_SIZE B) n s = (Some (nat n), s)" "0 < n"
    obtain rc arr s1 where b: "fu_gen_v7_batch_n (plat B) (simd B) (nat n) bin s = (rc, arr, s1)"
      by (cases "fu_gen_v7_batch_n (plat B) (simd B) (nat n) bin s")
    have e: "s' = s1" "rv = packed (map IS_STRING arr)" using n(2) ok(1) b by (simp_all add: fu_fn_batch_def)
    have pos: "0 < nat n" using ok(2) by simp
    show ?thesis
    proof (rule batch_positions_sorted [OF inv pos b])
      fix ps assume ps: "arr = map (\<lambda>p. fu_uuid_zstr (simd B) (pos_bytes p) bin) ps" "sorted_wrt (<) ps"
        "\<forall>p \<in> set ps. pos_ok p \<and> v7_mark s < Some p" "v7_mark s1 = (if ps = [] then v7_mark s else Some (last ps))" "fu_inv s1"
      have "\<forall>b \<in> set (map pos_bytes ps). length b = 16" by simp
      from uuids_in_packed [OF this, of B bin] have "uuids_in B bin rv = map pos_bytes ps"
        unfolding e(2) ps(1) by (simp only: map_map comp_def)
      then have i: "issued_by_fn B (V7_batch n bin) rv = map (Pair C7) (map be_nat (map pos_bytes ps))"
        by (simp only: issued_by_fn.simps)
      have "marks_up s s1" using fn_run_up [OF inv args r] unfolding e(1) .
      from issue_v7 [OF inv ps(5) this ps(2-4)] show ?thesis unfolding i e(1) .
    qed
  next
    fix msg assume "fu_batch_count_arg (HT_MAX_SIZE B) n s = (None, zend_throw InvalidArgumentException msg s)"
    with n(2) have "rv = IS_NULL" by (simp add: fu_fn_batch_def)
    with quiet show ?thesis by simp
  qed
qed

lemma fn_issue:
  assumes inv: "fu_inv s" and "build_ok B" and "EG_exception s = None" and "fn_args_ok c" and r: "fn_run B c s = (rv, s')"
  shows "fu_inv s'" and "issue (high_water s) (issued_by_fn B c rv) (high_water s')"
proof -
  show inv': "fu_inv s'" by (rule fn_run_inv [OF inv r assms(2-4)])
  have quiet: "issue (high_water s) [] (high_water s')"
    by (rule high_water_le [OF inv inv' fn_run_up [OF inv assms(4) r]])
  show "issue (high_water s) (issued_by_fn B c rv) (high_water s')"
  proof (cases c)
    case (Generate g bin)
    show ?thesis using generate_call_issue [OF inv r [unfolded Generate] quiet] unfolding Generate .
  next
    case (V7_batch n bin)
    show ?thesis using batch_call_issue [OF inv assms(4) [unfolded V7_batch] r [unfolded V7_batch] quiet] unfolding V7_batch .
  qed (use quiet in simp_all)
qed

lemma issue_fewer: "issue \<sigma> outs \<sigma>' \<Longrightarrow> issue \<sigma> [] \<sigma>'"
  by (simp add: issue_def)

lemma object_bytes_null [simp]: "object_bytes vm IS_NULL = []"
  by (simp add: object_bytes_def native_def)

lemma object_bytes_return: "fu_return_uuid b vm = (rv, vm') \<Longrightarrow> object_bytes vm' rv \<in> {[], [b]}"
  by (cases "vm_exception vm")
     (auto simp: fu_return_uuid_eq object_bytes_def is_uuid_def fu_from_zobj_def set_obj_def, auto simp: fu_return_uuid_def native_def)

lemma return_issue:
  assumes "return_or_throw (on_core gen vm) = (rv, vm')"
    and "\<And>r s'. gen (core vm) = (r, s') \<Longrightarrow> issue \<sigma> (map (Pair c) (map f (case r of None \<Rightarrow> [] | Some b \<Rightarrow> [b]))) (high_water s')"
  shows "issue \<sigma> (map (Pair c) (map f (object_bytes vm' rv))) (high_water (core vm'))"
proof -
  obtain r s1 where g: "gen (core vm) = (r, s1)" by fastforce
  have c: "core vm' = s1"
    using assms(1) core_return_or_throw [of "on_core gen vm"] g by (simp add: on_core_def)
  have "object_bytes vm' rv \<in> {[], case r of None \<Rightarrow> [] | Some b \<Rightarrow> [b]}"
    using assms(1) g object_bytes_return by (cases r) (auto simp: on_core_def return_or_throw_def)
  then show ?thesis using assms(2) [OF g] issue_fewer unfolding c by auto
qed

lemma node_clockseq_issue:
  assumes "(case on_core (node_clockseq node cs) vm of (None, vm) \<Rightarrow> (IS_NULL, vm) | (Some (np, cseq), vm) \<Rightarrow> k np cseq vm) = (rv, vm')"
    and "issue (high_water (core vm)) [] (high_water (core vm'))"
    and "\<And>np cseq. args_ok np cseq \<Longrightarrow> - 1 \<le> cseq \<Longrightarrow> snd (snd node) \<longleftrightarrow> np = None \<Longrightarrow> snd cs \<longleftrightarrow> cseq = - 1 \<Longrightarrow>
      k np cseq vm = (rv, vm') \<Longrightarrow> issue (high_water (core vm)) (map (Pair c) (map f (object_bytes vm' rv))) (high_water (core vm'))"
  shows "issue (high_water (core vm)) (map (Pair c) (map f (object_bytes vm' rv))) (high_water (core vm'))"
proof (rule node_clockseq_cases [of node cs "core vm"])
  fix np cseq assume n: "node_clockseq node cs (core vm) = (Some (np, cseq), core vm)" "args_ok np cseq" "- 1 \<le> cseq"
    "snd (snd node) \<longleftrightarrow> np = None" "snd cs \<longleftrightarrow> cseq = - 1"
  have "k np cseq vm = (rv, vm')" using assms(1) n(1) by (simp add: on_core_def)
  with assms(3) n(2-5) show ?thesis by blast
next
  fix msg assume "node_clockseq node cs (core vm) = (None, zend_throw InvalidArgumentException msg (core vm))"
  then have "rv = IS_NULL" using assms(1) by (simp add: on_core_def)
  with assms(2) show ?thesis by simp
qed

lemma uuid2_issue:
  assumes inv: "fu_inv (core vm)" and r: "Uuid_uuid2 B dm lid node cs vm = (rv, vm')"
    and quiet: "issue (high_water (core vm)) [] (high_water (core vm'))" and given: "\<not> snd (snd node)" "\<not> snd cs"
  shows "issue (high_water (core vm)) (map (Pair C2) (map (\<lambda>b. time60 b div 2 ^ 32) (object_bytes vm' rv))) (high_water (core vm'))"
proof (cases "dm < 0 \<or> 0xff < dm")
  case True
  with r have "rv = IS_NULL" by (auto simp: Uuid_uuid2_def)
  with quiet show ?thesis by simp
next
  case False
  obtain l s where l: "fu_local_id_arg (posix_ids B) dm (fst lid) (fst (snd lid)) (snd (snd lid)) (core vm) = (l, s)"
    by (cases "fu_local_id_arg (posix_ids B) dm (fst lid) (fst (snd lid)) (snd (snd lid)) (core vm)")
  note e = Uuid_uuid2_def on_core_eq [of "fu_local_id_arg (posix_ids B) dm (fst lid) (fst (snd lid)) (snd (snd lid))", OF l] if_not_P [OF False]
  show ?thesis
  proof (cases l)
    case None
    with r have "rv = IS_NULL" by (simp add: e)
    with quiet show ?thesis by simp
  next
    case (Some local_id)
    then have v: "vm\<lparr>core := s\<rparr> = vm" using local_id_result [OF l] by simp
    show ?thesis
    proof (rule node_clockseq_issue [OF r [unfolded e Some prod.case option.case v Let_def] quiet])
      fix np cseq assume n: "args_ok np cseq" "- 1 \<le> cseq" "snd (snd node) \<longleftrightarrow> np = None" "snd cs \<longleftrightarrow> cseq = - 1"
        "return_or_throw (on_core (fu_gen_v2 (plat B) local_id (word_of_int dm) np cseq (\<not> snd (snd node) \<and> \<not> snd cs)) vm) = (rv, vm')"
      obtain nd where nd: "np = Some nd" using n(3) given(1) by auto
      have "v2_valid (plat B, local_id, word_of_int dm, nd, cseq)"
        using n(1,2,4) given(2) by (auto simp: v2_valid_def args_ok_def nd)
      moreover have "return_or_throw (on_core (v2_tick (plat B, local_id, word_of_int dm, nd, cseq)) vm) = (rv, vm')"
        using n(5) given by (simp add: v2_tick_def nd)
      ultimately show "issue (high_water (core vm)) (map (Pair C2) (map (\<lambda>b. time60 b div 2 ^ 32) (object_bytes vm' rv)))
          (high_water (core vm'))"
        using return_issue issue_v2 [OF inv] by blast
    qed
  qed
qed

lemma class_issue:
  assumes "vm_inv (simd B) vm" and "vm_exception vm = None" and "runtime_ok B Z D" and "user_marks (simd B) Z D"
    and "call_args_ok vm c" and r: "class_run B Z D c vm = (rv, vm')"
  shows "vm_inv (simd B) vm'" and "issue (high_water (core vm)) (issued_by_class vm' c rv) (high_water (core vm'))"
proof -
  show inv': "vm_inv (simd B) vm'" using class_call_outcome [OF assms(1-3,5) r] by blast
  have i: "fu_inv (core vm)" using assms(1) by (rule vm_inv_core)
  have quiet: "issue (high_water (core vm)) [] (high_water (core vm'))"
    using class_up [OF assms(4,3,1), of c] r
    by (intro high_water_le [OF i vm_inv_core [OF inv']]) (simp add: vm_up_def)
  have greg: "issue (high_water (core vm)) (map (Pair CG) (map time60 (object_bytes vm' rv))) (high_water (core vm'))"
    if "greg_valid i" "return_or_throw (on_core (greg_tick i) vm) = (rv, vm')" for i
    by (rule return_issue [OF that(2) issue_greg [OF i that(1)]])
  show "issue (high_water (core vm)) (issued_by_class vm' c rv) (high_water (core vm'))"
  proof (cases "\<exists>f. c = Cls (S_factory f)")
    case False
    then have "issued_by_class vm' c rv = []" by (cases c; cases "case c of Cls s \<Rightarrow> s"; auto split: class_call.splits)
    with quiet show ?thesis by simp
  next
    case True
    then obtain f where c: "c = Cls (S_factory f)" by blast
    show ?thesis
    proof (cases f)
      case (F_uuid1 node cs)
      have "Uuid_uuid1 B node cs vm = (rv, vm')" using r by (simp add: c F_uuid1)
      from node_clockseq_issue [OF this [unfolded Uuid_uuid1_def] quiet, of CG time60]
      show ?thesis using greg [of "(plat B, Call_v1 np cseq)" for np cseq] by (simp add: c F_uuid1)
    next
      case (F_uuid6 node cs)
      have "Uuid_uuid6 B node cs vm = (rv, vm')" using r by (simp add: c F_uuid6)
      from node_clockseq_issue [OF this [unfolded Uuid_uuid6_def] quiet, of CG time60]
      show ?thesis using greg [of "(plat B, Call_v6 np cseq)" for np cseq] by (simp add: c F_uuid6)
    next
      case (F_uuid2 dm lid node cs)
      have "Uuid_uuid2 B dm lid node cs vm = (rv, vm')" using r by (simp add: c F_uuid2)
      from uuid2_issue [OF i this quiet] quiet show ?thesis by (simp add: c F_uuid2)
    next
      case (F_uuid7 w)
      show ?thesis
      proof (cases w)
        case IS_NULL
        have "return_or_throw (on_core (fu_gen_v7 (plat B)) vm) = (rv, vm')" using r by (simp add: c F_uuid7 IS_NULL Uuid_uuid7_def)
        from return_issue [OF this issue_gen_v7 [OF i]] show ?thesis by (simp add: c F_uuid7 IS_NULL)
      qed (use quiet c F_uuid7 in simp_all)
    qed (use quiet c in simp_all)
  qed
qed


subsection \<open>The machine implements the issuer\<close>

datatype spec_label = Issue "(clk \<times> nat) list" | Reset

fun spec_start :: marks where
  "spec_start C7 = None" | "spec_start CG = Some 0" | "spec_start C2 = Some 0"

text \<open>The specification: issue numbers above the marks, or (in a forked child) start over.\<close>

inductive spec_step :: "marks \<Rightarrow> spec_label \<Rightarrow> marks \<Rightarrow> bool" where
  issues: "issue \<sigma> outs \<sigma>' \<Longrightarrow> spec_step \<sigma> (Issue outs) \<sigma>'"
| resets: "spec_step \<sigma> Reset spec_start"

inductive_simps spec_step_Issue [simp]: "spec_step \<sigma> (Issue outs) \<sigma>'"
inductive_simps spec_step_Reset [simp]: "spec_step \<sigma> Reset \<sigma>'"

definition label :: "('w, 'm, 's) build \<Rightarrow> event \<Rightarrow> 'w vm \<Rightarrow> spec_label" where
  "label B e vm = (if e = Forked True then Reset else Issue (issued B e vm))"

definition machine_step :: "('w, 'm, 's) build \<Rightarrow> 'w zend \<Rightarrow> 'w date_api \<Rightarrow> 'w vm \<Rightarrow> spec_label \<Rightarrow> 'w vm \<Rightarrow> bool" where
  "machine_step B Z D vm l vm' \<longleftrightarrow> (\<exists>e. step B Z D vm e vm' \<and> l = label B e vm')"

lemma high_water_boot: "high_water (fu_boot w) = spec_start"
proof
  show "high_water (fu_boot w) c = spec_start c" for c
    by (cases c) (simp_all add: fu_boot_def fu_ginit_def globals.extend_def v7_mark_def)
qed

lemma child_core:
  assumes "fu_inv s"
  shows "fu_atfork_child True s = (fu_boot (world s))\<lparr>EG_exception := EG_exception s\<rparr>"
  unfolding fu_atfork_fresh [OF assms] by (cases s) (simp add: fu_boot_def globals.extend_def)

lemma high_water_cong: "gen_marks s' = gen_marks s \<Longrightarrow> high_water s' = high_water s"
proof
  assume "gen_marks s' = gen_marks s"
  then show "high_water s' c = high_water s c" for c
    using v7_mark_cong [of s' s] by (cases c) (simp_all add: gen_marks_iff)
qed

lemma quiet_step: "core vm' = core vm \<Longrightarrow> issue (high_water (core vm)) [] (high_water (core vm'))"
  by (simp add: issue_Nil)

lemma fork_refines:
  assumes inv: "vm_inv (simd B) vm" and vm': "vm' = vm\<lparr>core := fu_atfork_child in_php (core vm)\<rparr>"
  shows "vm_inv (simd B) vm' \<and> spec_step (high_water (core vm)) (label B (Forked in_php) vm') (high_water (core vm'))"
proof -
  have "vm_inv (simd B) vm'"
    unfolding vm' by (rule vm_inv_core_update [OF inv fu_inv_atfork [OF vm_inv_core [OF inv]]])
  moreover have "high_water (core vm') = spec_start" if in_php
  proof -
    have "core vm' = (fu_boot (world (core vm)))\<lparr>EG_exception := EG_exception (core vm)\<rparr>"
      using that child_core [OF vm_inv_core [OF inv]] by (simp add: vm')
    then have "high_water (core vm') = high_water (fu_boot (world (core vm)))"
      by (simp only:) (rule high_water_cong, simp add: fu_inv_world)
    then show ?thesis by (simp add: high_water_boot)
  qed
  moreover have "core vm' = core vm" if "\<not> in_php" using that by (simp add: vm' fu_atfork_child_def)
  ultimately show ?thesis by (cases in_php) (simp_all add: label_def issue_Nil)
qed

lemma step_refines:
  assumes "step B Z D vm e vm'" and inv: "vm_inv (simd B) vm" and "runtime_ok B Z D" and "user_marks (simd B) Z D"
  shows "vm_inv (simd B) vm' \<and> spec_step (high_water (core vm)) (label B e vm') (high_water (core vm'))"
  using assms(1)
proof cases
  case (call c rv s)
  have "fu_inv s" "issue (high_water (core vm)) (issued_by_fn B c rv) (high_water s)"
    using fn_issue [OF vm_inv_core [OF inv] _ call(3-5)] assms(3) by (simp_all add: runtime_ok_def)
  with call inv show ?thesis by (simp add: label_def vm_inv_core_update)
next
  case (meth c rv)
  with class_issue [OF inv meth(2) assms(3,4) meth(3,4)] show ?thesis by (simp add: label_def)
next
  case (clone o1 o2)
  have "core (snd (fu_clone o1 vm)) = core vm" by (simp add: fu_clone_eq)
  with clone fu_clone_inv [OF inv, of o1] show ?thesis by (simp add: label_def issue_Nil)
next
  case (destroy o1)
  then show ?thesis using fu_free_inv [OF inv] by (simp add: label_def fu_free_def issue_Nil)
next
  case (cast o1 std)
  then show ?thesis
    by (cases rule: fu_str_cases [OF inv cast(3)]) (simp add: fu_cast_def label_def quiet_step)
next
  case (dump o1)
  then show ?thesis
    by (cases rule: fu_str_cases [OF inv dump(3)]) (simp add: fu_get_debug_info_def label_def quiet_step)
next
  case (exported o1 std)
  then show ?thesis
    by (cases rule: fu_str_cases [OF inv exported(3)]) (simp add: fu_get_properties_for_def label_def quiet_step)
next
  case catch
  have "high_water (core vm') = high_water (core vm)" unfolding catch by (rule high_water_cong) (simp add: fu_inv_world)
  with catch inv show ?thesis by (simp add: label_def issue_Nil vm_inv_core_update vm_inv_core fu_inv_world)
next
  case (alloc ce)
  have "store_ok vm'" by (rule store_ok_update [OF vm_inv_store [OF inv], of _ "next_object vm"]) (auto simp: alloc)
  then have "vm_inv (simd B) vm'" using inv unfolding alloc vm_inv_def by auto
  with alloc show ?thesis by (simp add: label_def issue_Nil)
next
  case (release o1 ce)
  have "store_ok vm'" by (rule store_ok_update [OF vm_inv_store [OF inv], of _ o1]) (auto simp: release)
  then have "vm_inv (simd B) vm'" using inv unfolding release vm_inv_def by auto
  with release show ?thesis by (simp add: label_def issue_Nil)
next
  case (wait w)
  have "high_water (core vm') = high_water (core vm)" unfolding wait by (rule high_water_cong) (simp add: fu_inv_world)
  with wait inv show ?thesis by (simp add: label_def issue_Nil vm_inv_core_update vm_inv_core fu_inv_world)
next
  case (fork in_php)
  then show ?thesis using fork_refines [OF inv, of vm' in_php] by simp
qed

interpretation machine: issuer "\<lambda>vm outs vm'. machine_step B Z D vm (Issue outs) vm'" "\<lambda>vm. high_water (core vm)"
  "\<lambda>vm. vm_inv (simd B) vm \<and> runtime_ok B Z D \<and> user_marks (simd B) Z D" for B Z D
proof unfold_locales
  fix vm vm' :: "'a vm" and outs
  assume g: "vm_inv (simd B) vm \<and> runtime_ok B Z D \<and> user_marks (simd B) Z D" and s: "machine_step B Z D vm (Issue outs) vm'"
  then obtain e where "step B Z D vm e vm'" "label B e vm' = Issue outs" by (auto simp: machine_step_def)
  with g step_refines [of B Z D vm e vm']
  show "vm_inv (simd B) vm' \<and> runtime_ok B Z D \<and> user_marks (simd B) Z D"
    "issue (high_water (core vm)) outs (high_water (core vm'))" by simp_all
qed

lemma machine_run:
  assumes "runs (machine_step B Z D) vm trace vm'" and "runtime_ok B Z D" and "user_marks (simd B) Z D" and "vm_inv (simd B) vm"
  shows "vm_inv (simd B) vm' \<and> runs spec_step (high_water (core vm)) trace (high_water (core vm'))"
  using assms(1,4)
proof (induction rule: runs.induct)
  case (stop vm)
  then show ?case by (simp add: runs.stop)
next
  case (move vm l vm1 ls vm')
  then show ?case using step_refines [OF _ _ assms(2,3)] unfolding machine_step_def by (metis runs.move)
qed


text \<open>C1: the process implements its specification: every run of the extension from the start of the process, in
  whatever order functions, methods, object handlers, userland code, clock changes and forks are interleaved, is a run
  of the abstract issuer that hands out version 7 numbers and version 1, 6 and 2 timestamps above its high-water
  marks and starts over only in a forked child; and the marks it reaches are those the globals hold.\<close>

theorem machine_refines_issuer:
  assumes "runtime_ok B Z D" and "user_marks (simd B) Z D" and "handles_fresh put"
    and "runs (machine_step B Z D) (vm_boot put w) trace vm"
  shows "vm_inv (simd B) vm \<and> runs spec_step spec_start trace (high_water (core vm))"
  using machine_run [OF assms(4,1,2) vm_boot_inv [OF assms(3)]] by (simp add: vm_boot_def high_water_boot)

text \<open>C2: between two forks no number comes back: over all entry points together (\<open>uuid_v7\<close>, the batches,
  \<open>Uuid::uuid7\<close>; or \<open>uuid_v1\<close>, \<open>uuid_v6\<close>, \<open>Uuid::uuid1\<close> and \<open>Uuid::uuid6\<close>; or \<open>Uuid::uuid2\<close> with node
  and clock sequence), in any interleaving with everything else, the version 7 UUIDs returned are strictly increasing as
  numbers, and the timestamps of versions 1 and 6, and those of version 2, are strictly increasing, whatever the
  clock did and whichever calls failed.\<close>

theorem issued_strictly_increasing:
  assumes "runtime_ok B Z D" and "user_marks (simd B) Z D" and "handles_fresh put"
    and "runs (machine_step B Z D) (vm_boot put w) (before @ map Issue outs) vm"
  shows "sorted_wrt (<) (of_clk c (concat outs))"
proof -
  obtain vm1 where r: "runs (machine_step B Z D) (vm_boot put w) before vm1" "runs (machine_step B Z D) vm1 (map Issue outs) vm"
    using runs_split [OF assms(4)] by blast
  from machine_run [OF r(1) assms(1,2) vm_boot_inv [OF assms(3)]] assms(1,2) show ?thesis
    by (intro machine.run_sorted [OF runs_map [OF r(2)]]) blast
qed

text \<open>C5: a forked child shares nothing with its parent: at whatever point of a run the process forks, the child's
  generator state is exactly that of a process just started in the same world (nothing of the parent's random
  buffer, DRBG key, seeds or marks), while the objects and a pending exception are inherited.\<close>

theorem forked_child_fresh:
  assumes "runtime_ok B Z D" and "user_marks (simd B) Z D" and "handles_fresh put"
    and "runs (machine_step B Z D) (vm_boot put w) trace vm"
    and "step B Z D vm (Forked True) vm'"
  shows "core vm' = (fu_boot (world (core vm)))\<lparr>EG_exception := vm_exception vm\<rparr> \<and> objects vm' = objects vm"
  using assms(5)
proof cases
  case fork
  have "fu_inv (core vm)" using machine_run [OF assms(4,1,2) vm_boot_inv [OF assms(3)]] vm_inv_core by blast
  with fork show ?thesis by (simp add: child_core)
qed

subsection \<open>Userland that calls back\<close>

text \<open>The assumptions on userland hold for code that calls the extension again: a method body that runs a list of
  the extension's functions and lets the first exception propagate.\<close>

fun user_calls :: "('w, 'm, 's) build \<Rightarrow> fn_call list \<Rightarrow> 'w vm \<Rightarrow> 'w vm" where
  "user_calls B [] vm = vm"
| "user_calls B (c # cs) vm =
     (if vm_exception vm \<noteq> None then vm
      else user_calls B cs (vm\<lparr>core := snd (fn_run B c (core vm))\<rparr>))"

lemma user_calls_facts:
  assumes "build_ok B" and "list_all fn_args_ok cs" and "vm_inv h vm"
  shows "vm_inv h (user_calls B cs vm)" and "vm_up vm (user_calls B cs vm)"
  using assms(2,3)
proof (induction cs arbitrary: vm)
  case (Cons c cs)
  {
    case 1
    show ?case
    proof (cases "vm_exception vm")
      case None
      obtain rv s where r: "fn_run B c (core vm) = (rv, s)" by (cases "fn_run B c (core vm)")
      have "fu_inv s" using fn_run_inv [OF vm_inv_core r assms(1) None] 1 by simp
      with None 1 Cons.IH(1) show ?thesis by (simp add: r vm_inv_core_update)
    qed (use 1 in simp)
  next
    case 2
    show ?case
    proof (cases "vm_exception vm")
      case None
      obtain rv s where r: "fn_run B c (core vm) = (rv, s)" by (cases "fn_run B c (core vm)")
      have i: "fu_inv s" using fn_run_inv [OF vm_inv_core r assms(1) None] 2 by simp
      have "vm_up vm (vm\<lparr>core := s\<rparr>)" using fn_run_up [OF vm_inv_core _ r] 2 by (simp add: vm_up_def)
      moreover have "vm_up (vm\<lparr>core := s\<rparr>) (user_calls B cs (vm\<lparr>core := s\<rparr>))"
        using 2 by (intro Cons.IH(2)) (simp_all add: vm_inv_core_update i)
      ultimately show ?thesis using None by (simp add: r vm_up_trans [of vm "vm\<lparr>core := s\<rparr>"])
    qed simp
  }
qed simp_all

lemma sample_date_marks:
  "vm_up vm (snd (snd (getTimestamp sample_date o1 vm)))" "vm_up vm (snd (snd (format_u sample_date o1 vm)))"
  "vm_up vm (snd (snd (init_from_ts sample_date secs us vm)))" "vm_up vm (snd (snd (createFromFormat sample_date str vm)))"
  by (simp_all add: sample_date_def new_date_def vm_up_def)

definition reentrant_zend :: "(nat, 'm, 's) build \<Rightarrow> fn_call list \<Rightarrow> nat zend" where
  "reentrant_zend B cs =
     sample_zend\<lparr>call_method := \<lambda>fn o1 vm. (IS_OBJECT 0, user_calls B cs vm),
       get_string := \<lambda>o1 vm. (lit ''text'', user_calls B cs vm)\<rparr>"

lemma reentrant_runtime:
  assumes "build_ok B" and "list_all fn_args_ok cs"
  shows "runtime_ok B (reentrant_zend B cs) sample_date" and "user_marks h (reentrant_zend B cs) sample_date"
  using user_calls_facts [OF assms] assms(1)
  by (simp_all add: runtime_ok_def zend_ok_def user_marks_def reentrant_zend_def sample_zend_def
      sample_date_ok sample_date_make_ok sample_date_marks)

definition sample_userland :: "nat zend" where
  "sample_userland = reentrant_zend sample_build [Generate V7 True, Random 16, Generate V1 False]"

lemma sample_userland_ok: "runtime_ok sample_build sample_userland sample_date" "user_marks h sample_userland sample_date"
  unfolding sample_userland_def by (rule reentrant_runtime; simp add: sample_build_ok zend_long_range_def)+

subsection \<open>A run\<close>

lemma sample_user_marks: "user_marks h sample_zend sample_date"
  by (simp add: user_marks_def sample_zend_def sample_date_marks)

text \<open>A process that asks for a version 7 UUID, forks or not, and asks again.\<close>

lemma sample_key: "v7_key_of 1700000000123456789 < 2 ^ 60 - 1"
  by (simp add: v7_key_of_def)

lemma sample_v7:
  assumes "vm_inv (simd sample_build) vm" and "vm_exception vm = None" and "v7_key (core vm) < 2 ^ 60 - 1"
  obtains a vm' where "machine_step sample_build sample_userland sample_date vm (Issue [(C7, a)]) vm'"
    "vm_inv (simd sample_build) vm'" "vm_exception vm' = None" "v7_initialized (core vm')"
    "step sample_build sample_userland sample_date vm' (Forked True) (vm'\<lparr>core := fu_atfork_child True (core vm')\<rparr>)"
    "v7_key (core vm) = 0 \<Longrightarrow> v7_key (core vm') < 2 ^ 60 - 1"
proof -
  let ?P = "plat sample_build"
  have "clock_nanos (fst (clock ?P (world (core vm)))) = Inr 1700000000123456789"
    by (simp add: sample_build_def sample_platform_def UINT64_MAX_def)
  moreover have "entropy_ok ?P" by (simp add: entropy_ok_def sample_build_def sample_platform_def)
  ultimately obtain b s where g: "fu_gen_v7 ?P (core vm) = (Some b, s)" "EG_exception s = None"
    "v7_key s = v7_key_of 1700000000123456789 \<or> v7_key s = v7_key (core vm) \<or> v7_key s = v7_key (core vm) + 1"
    using gen_v7_total [OF vm_inv_core [OF assms(1)] _ _ assms(3)] assms(2) by metis
  let ?vm = "vm\<lparr>core := s\<rparr>"
  have "fn_run sample_build (Generate V7 True) (core vm) = (IS_STRING b, s)"
    using g(1) by (simp add: uuid_v7_bin_def fu_fn_generate_def fu_retval_uuid_def)
  then have st: "step sample_build sample_userland sample_date vm (Called (Generate V7 True) (IS_STRING b)) ?vm"
    using assms(2) by (intro step.call) simp_all
  have "machine_step sample_build sample_userland sample_date vm (Issue [(C7, be_nat b)]) ?vm"
    unfolding machine_step_def by (rule exI [of _ "Called (Generate V7 True) (IS_STRING b)"]) (use st in \<open>simp add: label_def\<close>)
  moreover have "vm_inv (simd sample_build) ?vm"
    using step_refines [OF st assms(1) sample_userland_ok(1) sample_userland_ok(2)] by blast
  moreover have "v7_initialized s"
    by (rule v7_next_cases [OF vm_inv_core [OF assms(1)], of ?P]) (use g(1) in \<open>auto simp: fu_gen_v7_eq v7_mark_def split: if_splits\<close>)
  moreover have "step sample_build sample_userland sample_date ?vm (Forked True) (?vm\<lparr>core := fu_atfork_child True (core ?vm)\<rparr>)"
    by (rule step.fork)
  moreover have "v7_key (core vm) = 0 \<Longrightarrow> v7_key s < 2 ^ 60 - 1"
    using g(3) sample_key by auto
  ultimately show thesis using g(2) by (intro that [of "be_nat b" ?vm]) simp_all
qed

lemma sample_handles: "handles_fresh sample_put"
  by (simp add: handles_fresh_def sample_put_free)

lemma sample_boot: "vm_inv h (vm_boot sample_put (5 :: nat))" "vm_exception (vm_boot sample_put 5) = None" "v7_key (core (vm_boot sample_put 5)) < 2 ^ 60 - 1"
  "v7_key (core (vm_boot sample_put 5)) = 0"
  by (simp_all add: vm_boot_inv sample_handles) (simp_all add: vm_boot_def fu_boot_def fu_ginit_def globals.extend_def)

theorem machine_refines_issuer_witness:
  "\<exists>a b vm. runs (machine_step sample_build sample_userland sample_date) (vm_boot sample_put 5) [Issue [(C7, a)], Reset, Issue [(C7, b)]] vm \<and>
     runs spec_step spec_start [Issue [(C7, a)], Reset, Issue [(C7, b)]] (high_water (core vm))"
proof -
  obtain a vm1 where s1: "machine_step sample_build sample_userland sample_date (vm_boot sample_put 5) (Issue [(C7, a)]) vm1"
    "vm_inv (simd sample_build) vm1" "vm_exception vm1 = None"
    "step sample_build sample_userland sample_date vm1 (Forked True) (vm1\<lparr>core := fu_atfork_child True (core vm1)\<rparr>)"
    using sample_v7 [OF sample_boot(1-3)] by metis
  let ?vm2 = "vm1\<lparr>core := fu_atfork_child True (core vm1)\<rparr>"
  have r: "machine_step sample_build sample_userland sample_date vm1 Reset ?vm2"
    unfolding machine_step_def using s1(4) by (intro exI [of _ "Forked True"]) (simp add: label_def)
  have i: "vm_inv (simd sample_build) ?vm2" using step_refines [OF s1(4,2) sample_userland_ok(1) sample_userland_ok(2)] by blast
  have k: "v7_key (core ?vm2) < 2 ^ 60 - 1" "vm_exception ?vm2 = None" using s1(3) by (simp_all add: fu_atfork_child_def)
  obtain b vm3 where s3: "machine_step sample_build sample_userland sample_date ?vm2 (Issue [(C7, b)]) vm3"
    using sample_v7 [OF i k(2,1)] by metis
  have run: "runs (machine_step sample_build sample_userland sample_date) (vm_boot sample_put 5) [Issue [(C7, a)], Reset, Issue [(C7, b)]] vm3"
    using s1(1) r s3 by (blast intro: runs.intros)
  from machine_refines_issuer [OF sample_userland_ok sample_handles run] run show ?thesis by blast
qed


theorem issued_strictly_increasing_witness:
  "\<exists>a b vm. runs (machine_step sample_build sample_userland sample_date) (vm_boot sample_put 5) [Issue [(C7, a)], Issue [(C7, b)]] vm \<and> a < b"
proof -
  obtain a vm1 where s1: "machine_step sample_build sample_userland sample_date (vm_boot sample_put 5) (Issue [(C7, a)]) vm1"
    "vm_inv (simd sample_build) vm1" "vm_exception vm1 = None" "v7_key (core vm1) < 2 ^ 60 - 1"
    using sample_v7 [OF sample_boot(1-3)] sample_boot(4) by metis
  obtain b vm2 where s2: "machine_step sample_build sample_userland sample_date vm1 (Issue [(C7, b)]) vm2"
    using sample_v7 [OF s1(2-4)] by metis
  have run: "runs (machine_step sample_build sample_userland sample_date) (vm_boot sample_put 5) [Issue [(C7, a)], Issue [(C7, b)]] vm2"
    using s1(1) s2 by (blast intro: runs.intros)
  then have "runs (machine_step sample_build sample_userland sample_date) (vm_boot sample_put 5) ([] @ map Issue [[(C7, a)], [(C7, b)]]) vm2" by simp
  from issued_strictly_increasing [OF sample_userland_ok sample_handles this, of C7]
  have "a < b" by (simp add: of_clk_def)
  with run show ?thesis by blast
qed

theorem forked_child_fresh_witness:
  "\<exists>a vm vm'. runs (machine_step sample_build sample_userland sample_date) (vm_boot sample_put 5) [Issue [(C7, a)]] vm \<and> v7_initialized (core vm) \<and>
     step sample_build sample_userland sample_date vm (Forked True) vm' \<and> core vm' = fu_boot (world (core vm))"
proof -
  obtain a vm1 where s1: "machine_step sample_build sample_userland sample_date (vm_boot sample_put 5) (Issue [(C7, a)]) vm1"
    "vm_exception vm1 = None" "v7_initialized (core vm1)"
    "step sample_build sample_userland sample_date vm1 (Forked True) (vm1\<lparr>core := fu_atfork_child True (core vm1)\<rparr>)"
    using sample_v7 [OF sample_boot(1-3)] by metis
  let ?vm2 = "vm1\<lparr>core := fu_atfork_child True (core vm1)\<rparr>"
  have run: "runs (machine_step sample_build sample_userland sample_date) (vm_boot sample_put 5) [Issue [(C7, a)]] vm1"
    using s1(1) by (blast intro: runs.intros)
  have "core ?vm2 = (fu_boot (world (core vm1)))\<lparr>EG_exception := vm_exception vm1\<rparr>"
    using forked_child_fresh [OF sample_userland_ok sample_handles run s1(4)] by blast
  also have "\<dots> = fu_boot (world (core vm1))"
    using s1(2) by (simp add: fu_boot_def globals.extend_def)
  finally show ?thesis using run s1 by blast
qed

end
