(* ===== verification/Fu_Values.thy ===== *)
theory Fu_Values
  imports Fu_Machine
begin

section \<open>Instances are values\<close>

text \<open>
  An instance that lives keeps its 16 bytes: nothing but \<open>__unserialize\<close> on it changes them, and nothing but its own
  destruction ends it.  One lemma per operation, up to runs of the process.  The engine may give the handle of a destroyed
  instance out again; what is followed here is an instance from some moment on, until it is destroyed.
\<close>

definition kept :: "nat \<Rightarrow> 'w vm \<Rightarrow> 'w vm \<Rightarrow> bool" where
  "kept o1 vm vm' \<longleftrightarrow> (is_uuid vm o1 \<longrightarrow> is_uuid vm' o1 \<and> bytes_of vm' o1 = bytes_of vm o1)"

lemma kept_refl [simp, intro]: "kept o1 vm vm"
  by (simp add: kept_def)

lemma kept_trans: "kept o1 vm vm1 \<Longrightarrow> kept o1 vm1 vm2 \<Longrightarrow> kept o1 vm vm2"
  by (simp add: kept_def)

lemma kept_same: "objects vm' o1 = objects vm o1 \<Longrightarrow> kept o1 vm vm'"
  by (simp add: kept_def is_uuid_def fu_from_zobj_def)

lemma kept_objects: "objects vm' = objects vm \<Longrightarrow> kept o1 vm vm'"
  by (simp add: kept_same)

lemma kept_cong: "objects vm2 = objects vm1 \<Longrightarrow> kept o1 vm vm2 \<longleftrightarrow> kept o1 vm vm1"
  by (simp add: kept_def is_uuid_def fu_from_zobj_def)

lemma kept_throw [simp]: "kept o1 vm (vm_throw ce msg vm1) \<longleftrightarrow> kept o1 vm vm1"
  by (rule kept_cong) simp

lemma kept_core [simp]: "kept o1 vm (vm1\<lparr>core := s\<rparr>) \<longleftrightarrow> kept o1 vm vm1"
  by (rule kept_cong) simp

text \<open>A new object gets a handle that is not in use.\<close>

lemma kept_new: "objects vm o2 = None \<Longrightarrow> objects vm' = (objects vm)(o2 \<mapsto> z) \<Longrightarrow> kept o1 vm vm'"
  by (auto simp: kept_def is_uuid_def fu_from_zobj_def)

lemma kept_created: "created vm rv vm' \<Longrightarrow> kept o1 vm vm'"
  by (auto simp: created_def kept_objects kept_new split: if_splits)

lemma kept_str: "vm_inv h vm \<Longrightarrow> is_uuid vm o2 \<Longrightarrow> kept o1 vm (snd (fu_str h o2 vm))"
  by (rule fu_str_cases [of h vm o2]) (simp_all add: kept_def)

text \<open>What userland is assumed to do with the instance while the extension calls it: hold it, without calling
  \<open>__unserialize\<close> on it.\<close>

definition user_keeps :: "fu_simd \<Rightarrow> nat \<Rightarrow> 'w zend \<Rightarrow> 'w date_api \<Rightarrow> bool" where
  "user_keeps h o1 Z D =
     ((\<forall>fn o2 vm. vm_inv h vm \<longrightarrow> kept o1 vm (snd (call_method Z fn o2 vm))) \<and>
      (\<forall>o2 vm. vm_inv h vm \<longrightarrow> kept o1 vm (snd (get_string Z o2 vm))) \<and>
      (\<forall>o2 vm. vm_inv h vm \<longrightarrow> kept o1 vm (snd (snd (getTimestamp D o2 vm)))) \<and>
      (\<forall>o2 vm. vm_inv h vm \<longrightarrow> kept o1 vm (snd (snd (format_u D o2 vm)))) \<and>
      (\<forall>secs us vm. vm_inv h vm \<longrightarrow> kept o1 vm (snd (snd (init_from_ts D secs us vm)))) \<and>
      (\<forall>str vm. vm_inv h vm \<longrightarrow> kept o1 vm (snd (snd (createFromFormat D str vm)))))"

lemma user_keepsD:
  assumes "user_keeps h o1 Z D" and "vm_inv h vm"
  shows "call_method Z fn o2 vm = (ret, vm1) \<Longrightarrow> kept o1 vm vm1"
    and "get_string Z o2 vm = (str, vm1) \<Longrightarrow> kept o1 vm vm1"
    and "getTimestamp D o2 vm = (cr, ret, vm1) \<Longrightarrow> kept o1 vm vm1"
    and "format_u D o2 vm = (cr, ret, vm1) \<Longrightarrow> kept o1 vm vm1"
    and "init_from_ts D secs us vm = (ret, time, vm1) \<Longrightarrow> kept o1 vm vm1"
    and "createFromFormat D str vm = (cr, ret, vm1) \<Longrightarrow> kept o1 vm vm1"
  using assms unfolding user_keeps_def by (metis snd_conv)+

subsection \<open>Calls that run userland code\<close>

lemma resolve_stringable_kept:
  assumes "user_keeps h o1 Z D" and "vm_inv h vm" and "resolve_stringable B Z ce o2 vm = (r, vm')"
  shows "kept o1 vm vm'"
  using assms(3) user_keepsD(2) [OF assms(1,2), of o2] by (auto simp: resolve_stringable_def split: if_splits prod.splits)

lemma resolve_kept:
  assumes u: "user_keeps h o1 Z D" and ok: "zend_ok h Z" and inv: "vm_inv h vm" and r: "fu_resolve_uuid B Z z vm = (r, vm')"
  shows "kept o1 vm vm'"
proof (cases "\<exists>o2 ce fn. z = IS_OBJECT o2 \<and> objects vm o2 = Some (Other ce) \<and>
    fu_find_zero_arg_method Z ce (lit ''getcore'') (MAY_BE_OBJECT Z) (Some (fast_uuid_ce Z)) = Some fn")
  case True
  then obtain o2 ce fn where z: "z = IS_OBJECT o2" "objects vm o2 = Some (Other ce)"
    "fu_find_zero_arg_method Z ce (lit ''getcore'') (MAY_BE_OBJECT Z) (Some (fast_uuid_ce Z)) = Some fn" by blast
  obtain ret vm1 where c: "call_method Z fn o2 vm = (ret, vm1)" by (cases "call_method Z fn o2 vm")
  have "kept o1 vm1 vm'"
    using r z c resolve_stringable_kept [OF u zend_okD(1) [OF ok inv c], of B ce o2]
    by (auto simp: fu_resolve_uuid_def split: option.splits if_splits)
  with user_keepsD(1) [OF u inv c] show ?thesis by (rule kept_trans)
next
  case False
  with r resolve_stringable_kept [OF u inv, of B] show ?thesis
    by (auto simp: fu_resolve_uuid_def split: zval.splits option.splits zobj.splits)
qed

lemma dt_secs_micros_kept:
  assumes u: "user_keeps h o1 Z D" and ok: "date_ok h D" and inv: "vm_inv h vm" and r: "fu_dt_secs_micros Z D dtobj vm = (r, vm')"
  shows "kept o1 vm vm'"
proof -
  obtain cr ret vm1 where t: "getTimestamp D dtobj vm = (cr, ret, vm1)" by (cases "getTimestamp D dtobj vm")
  obtain cr2 ret2 vm2 where f: "format_u D dtobj vm1 = (cr2, ret2, vm2)" by (cases "format_u D dtobj vm1")
  have "vm_inv h vm1" using ok inv t unfolding date_ok_def by (metis snd_conv)
  then have k: "kept o1 vm vm1" "kept o1 vm vm2"
    using user_keepsD(3) [OF u inv t] user_keepsD(4) [OF u _ f] kept_trans by blast+
  have "vm' \<in> {vm, vm1, vm2} \<or> (\<exists>ce msg. vm' \<in> {vm_throw ce msg vm1, vm_throw ce msg vm2})"
    using r unfolding fu_dt_secs_micros_def t by (auto simp: f split: option.splits if_splits zval.splits)
  with k show ?thesis by auto
qed

lemma make_datetime_kept:
  assumes u: "user_keeps h o1 Z D" and ok: "date_make_ok h D" and inv: "vm_inv h vm"
    and r: "fu_make_datetime D secs micros vm = (r, vm')"
  shows "kept o1 vm vm'"
proof -
  have s: "kept o1 vm1 vm2" if "vm_inv h vm1" "fu_make_datetime_from_string D secs micros vm1 = (r2, vm2)" for vm1 r2 vm2
    using that user_keepsD(6) [OF u that(1)] by (auto simp: fu_make_datetime_from_string_def split: prod.splits if_splits)
  show ?thesis
  proof (cases "php84 D \<and> zend_long_range secs")
    case True
    obtain tmp time vm1 where i: "init_from_ts D secs (uint micros) vm = (tmp, time, vm1)"
      by (cases "init_from_ts D secs (uint micros) vm")
    have "kept o1 vm vm1" by (rule user_keepsD(5) [OF u inv i])
    with True r i s [OF date_make_okD(1) [OF ok inv i]] show ?thesis
      by (auto simp: fu_make_datetime_def split: if_splits intro: kept_trans)
  qed (use r s [OF inv] in \<open>auto simp: fu_make_datetime_def\<close>)
qed

subsection \<open>Factories and methods\<close>

lemma args_read_kept:
  assumes "user_keeps (simd B) o1 Z D" and "runtime_ok B Z D" and "vm_inv (simd B) vm"
  shows "kept o1 vm (args_read B Z D f vm)"
proof -
  have z: "zend_ok (simd B) Z" and d: "date_ok (simd B) D" using assms(2) by (simp_all add: runtime_ok_def)
  have r: "kept o1 vm (snd (fu_resolve_uuid B Z zns vm))" for zns
    using resolve_kept [OF assms(1) z assms(3), of B zns] by (cases "fu_resolve_uuid B Z zns vm") simp
  have t: "kept o1 vm (snd (fu_dt_secs_micros Z D o2 vm))" for o2
    using dt_secs_micros_kept [OF assms(1) d assms(3), of o2] by (cases "fu_dt_secs_micros Z D o2 vm") simp
  have g: "kept o1 vm (snd (get_string Z o2 vm))" for o2
    using user_keepsD(2) [OF assms(1,3), of o2] by (cases "get_string Z o2 vm") simp
  show ?thesis
    by (cases "(B, Z, D, f, vm)" rule: args_read.cases) (use r t g in simp_all)
qed

lemma static_kept:
  assumes "user_keeps (simd B) o1 Z D" and "runtime_ok B Z D" and "vm_inv (simd B) vm" and "vm_exception vm = None"
    and "call_args_ok vm (Cls s)" and "class_run B Z D (Cls s) vm = (rv, vm')"
  shows "kept o1 vm vm'"
proof (cases s)
  case (S_factory f)
  then have "created (args_read B Z D f vm) rv vm'"
    using static_outcome [OF assms(3,4), of B Z D f rv vm'] assms(2,5,6) by (simp add: runtime_ok_def)
  with args_read_kept [OF assms(1-3)] show ?thesis by (rule kept_trans [OF _ kept_created])
next
  case (S_isValid str)
  then show ?thesis using assms(6) by (auto simp: Uuid_isValid_def)
next
  case (S_set_state data)
  then show ?thesis using set_state_outcome [OF assms(3,4), of B data] assms(6) by (auto simp: factory_outcome_def intro: kept_created)
qed

lemma unserialize_kept: "o1 \<noteq> this \<Longrightarrow> kept o1 vm (snd (Uuid_unserialize this data vm))"
  by (auto simp: Uuid_unserialize_def split: option.splits zval.splits intro: kept_same)

lemma method_kept:
  assumes u: "user_keeps (simd B) o1 Z D" and ok: "runtime_ok B Z D" and inv: "vm_inv (simd B) vm"
    and inst: "is_uuid vm this" and m: "\<And>data. m = M_unserialize data \<Longrightarrow> o1 \<noteq> this"
  shows "kept o1 vm (snd (method_run B Z D this m vm))"
proof -
  have z: "zend_ok (simd B) Z" and d: "date_make_ok (simd B) D" using ok by (simp_all add: runtime_ok_def)
  have str: "kept o1 vm vm1" if "fu_str (simd B) this vm = (str, vm1)" for str vm1
    using kept_str [OF inv inst, of o1] that by simp
  show ?thesis
  proof (cases m)
    case M_getDateTime
    then show ?thesis
      using make_datetime_kept [OF u d inv] by (auto simp: Uuid_getDateTime_def split: option.splits prod.splits)
  next
    case (M_equals z1)
    then show ?thesis using resolve_kept [OF u z inv] by (auto simp: Uuid_equals_def split: option.splits prod.splits)
  next
    case (M_compareTo z1)
    then show ?thesis using resolve_kept [OF u z inv] by (auto simp: Uuid_compareTo_def Let_def split: option.splits prod.splits)
  next
    case (M_unserialize data)
    then show ?thesis using unserialize_kept [OF m [OF M_unserialize]] by simp
  qed (auto simp: Uuid_construct_def Uuid_toString_def Uuid_getBytes_def Uuid_getHex_def Uuid_getUrn_def Uuid_getVersion_def
        Uuid_getVariant_def Uuid_getInteger_def Uuid_getTimestampMillis_def Uuid_getFields_def Uuid_jsonSerialize_def
        Uuid_serialize_def Let_def split: option.splits prod.splits intro: str)
qed

subsection \<open>Runs\<close>

text \<open>The events that end the instance, or may change its bytes.\<close>

definition touches :: "nat \<Rightarrow> event \<Rightarrow> bool" where
  "touches o1 e =
     (case e of
        Destroyed o2 \<Rightarrow> o2 = o1
      | Method (On this (M_unserialize data)) rv \<Rightarrow> this = o1
      | _ \<Rightarrow> False)"

lemma step_keeps:
  assumes "step B Z D vm e vm'" and u: "user_keeps (simd B) o1 Z D" and ok: "runtime_ok B Z D" and inv: "vm_inv (simd B) vm"
    and e: "\<not> touches o1 e"
  shows "kept o1 vm vm'"
proof -
  have free: "objects vm (next_object vm) = None" by (rule next_object_free [OF vm_inv_store [OF inv]])
  from assms(1) show ?thesis
  proof cases
    case (meth c rv)
    show ?thesis
    proof (cases c)
      case (On this m)
      then have "kept o1 vm (snd (method_run B Z D this m vm))"
        using meth(1,3) e by (intro method_kept [OF u ok inv]) (auto simp: touches_def)
      then show ?thesis using meth(4) by (simp add: On)
    next
      case (Cls s)
      then show ?thesis using static_kept [OF u ok inv meth(2)] meth(3,4) by blast
    qed
  next
    case (clone o2 o3)
    then have "vm' = snd (fu_clone o2 vm)" by simp
    then show ?thesis by (intro kept_new [OF free]) (simp add: fu_clone_eq)
  next
    case (cast o2 std)
    then show ?thesis using kept_str [OF inv cast(3), of o1] by (auto simp: fu_cast_def split: prod.splits)
  next
    case (dump o2)
    then show ?thesis using kept_str [OF inv dump(3), of o1] by (auto simp: fu_get_debug_info_def split: prod.splits)
  next
    case (exported o2 std)
    then show ?thesis using kept_str [OF inv exported(3), of o1] by (auto simp: fu_get_properties_for_def split: prod.splits)
  next
    case (alloc ce)
    then show ?thesis by (intro kept_new [OF free]) simp
  next
    case (release o2 ce)
    then show ?thesis by (auto simp: kept_def is_uuid_def fu_from_zobj_def)
  next
    case (destroy o2)
    then show ?thesis using e by (intro kept_same) (simp add: fu_free_def touches_def)
  qed simp_all
qed

lemma run_keeps:
  assumes "runs (step B Z D) vm events vm'" and "user_keeps (simd B) o1 Z D" and "runtime_ok B Z D" and "user_marks (simd B) Z D"
    and "vm_inv (simd B) vm" and "list_all (\<lambda>e. \<not> touches o1 e) events"
  shows "vm_inv (simd B) vm' \<and> kept o1 vm vm'"
  using assms(1,5,6)
proof (induction rule: runs.induct)
  case (move vm e vm1 events vm')
  from move.prems have e: "\<not> touches o1 e" "list_all (\<lambda>e. \<not> touches o1 e) events" by simp_all
  have "vm_inv (simd B) vm1" using step_refines [OF move.hyps(1) move.prems(1) assms(3,4)] by blast
  with move.IH e(2) step_keeps [OF move.hyps(1) assms(2,3) move.prems(1) e(1)] show ?case by (blast intro: kept_trans)
qed simp

text \<open>C15: instances are values: over any run (functions, methods, clones, casts, dumps, forks, userland code) in which
  it is neither destroyed nor the target of \<open>__unserialize\<close>, an instance stays an instance with the same 16 bytes, and
  so with the same text and the same serialized form, whatever is done with it, with its clones and with other objects.\<close>

theorem instances_are_values:
  assumes "runtime_ok B Z D" and "user_marks (simd B) Z D" and "user_keeps (simd B) o1 Z D" and "vm_inv (simd B) vm"
    and "runs (step B Z D) vm events vm'" and "is_uuid vm o1" and "list_all (\<lambda>e. \<not> touches o1 e) events"
  shows "is_uuid vm' o1 \<and> bytes_of vm' o1 = bytes_of vm o1 \<and> fst (fu_str (simd B) o1 vm') = fst (fu_str (simd B) o1 vm) \<and>
    Uuid_serialize o1 vm' = (fst (Uuid_serialize o1 vm), vm')"
proof -
  have k: "vm_inv (simd B) vm'" "is_uuid vm' o1" "bytes_of vm' o1 = bytes_of vm o1"
    using run_keeps [OF assms(5,3,1,2,4,7)] assms(6) by (simp_all add: kept_def)
  have "fst (fu_str (simd B) o1 v) = fu_format36 (simd B) (bytes_of v o1)" if "vm_inv (simd B) v" "is_uuid v o1" for v :: "'a vm"
    by (rule fu_str_cases [OF that]) simp
  with k assms(4,6) show ?thesis by (simp add: Uuid_serialize_def)
qed

lemma sample_date_keeps:
  assumes "vm_inv h vm"
  shows "kept o1 vm (snd (snd (init_from_ts sample_date secs us vm)))"
  using kept_new [OF next_object_free [OF vm_inv_store [OF assms]], of _ "Other 3"] by (simp add: sample_date_def new_date_def)

lemma user_calls_objects [simp]: "objects (user_calls B cs vm) = objects vm"
  by (induction cs arbitrary: vm) simp_all

text \<open>Userland that calls the extension back holds the instance.\<close>

lemma sample_user_keeps: "user_keeps h o1 sample_userland sample_date"
proof -
  have d: "snd (snd (getTimestamp sample_date o2 vm)) = vm" "snd (snd (format_u sample_date o2 vm)) = vm"
    "snd (snd (createFromFormat sample_date str vm)) = vm" for o2 str vm
    by (simp_all add: sample_date_def)
  show ?thesis
    unfolding user_keeps_def
    by (intro conjI allI impI) (simp_all add: d sample_date_keeps sample_userland_def reentrant_zend_def kept_objects)
qed

text \<open>The instance is cast, cloned, its clone is destroyed, and the process forks.\<close>

theorem instances_are_values_witness:
  "\<exists>vm'. runs (step sample_build sample_userland sample_date) sample_vm [Cast 0, Cloned 0 2, Destroyed 2, Forked True] vm' \<and>
     bytes_of vm' 0 = bytes_of sample_vm 0"
proof -
  let ?step = "step sample_build sample_userland sample_date"
  obtain str u vm1 where v: "fu_str (simd sample_build) 0 sample_vm = (str, vm1)" "vm1 = set_obj 0 u sample_vm"
    by (simp add: fu_str_def fu_from_zobj_def sample_vm_def Let_def)
  then have t: "fu_str (simd sample_build) 0 sample_vm = (str, vm1)" "is_uuid vm1 0" by simp_all
  have "dom (objects vm1) = dom (objects sample_vm)" by (auto simp: v(2) sample_vm_def)
  then have n: "next_object vm1 = 2"
    using sample_store(2) by (simp add: v(2) next_object_def sample_put_def sample_vm_def)
  have c: "?step sample_vm (Cast 0) vm1"
    using step.cast [OF sample_vm_inv(2), of sample_build sample_userland sample_date] t(1) by (simp add: fu_cast_def)
  obtain vm2 where l: "fu_clone 0 vm1 = (2, vm2)" "is_uuid vm2 2" by (simp add: fu_clone_eq n)
  let ?vm = "(fu_free 2 vm2)\<lparr>core := fu_atfork_child True (core (fu_free 2 vm2))\<rparr>"
  have "runs ?step sample_vm [Cast 0, Cloned 0 2, Destroyed 2, Forked True] ?vm"
    using c step.clone [OF t(2) l(1), of sample_build sample_userland sample_date]
      step.destroy [OF l(2), of sample_build sample_userland sample_date] step.fork by (blast intro: runs.intros)
  moreover have "vm_inv (simd sample_build) sample_vm" using sample_vm_inv(1) .
  ultimately show ?thesis
    using instances_are_values [OF sample_userland_ok sample_user_keeps _ _ sample_vm_inv(2)] by (auto simp: touches_def)
qed

end
