(* ===== verification/Spec2Isabelle.thy ===== *)
theory Spec2Isabelle
  imports Fu_Values
begin

text \<open>
  \<^bold>\<open>A model of the PHP extension fast\_uuid.\<close>

  The C extension (\<open>src/fast_uuid.c\<close>, \<open>src/fast_uuid_arginfo.h\<close>, \<open>src/php_fast_uuid.h\<close>) generates, parses and
  compares UUIDs of versions 1 to 8 as procedural functions and as the final class \<open>FastUuid\Uuid\<close>.  This library
  translates it definition by definition and proves what makes it correct.  The word sizes, the wrap-around, the buffers
  and every early return of the code are in the definitions; what is not in the repository is an argument of
  them.

  \<^bold>\<open>Parts and theories,\<close> from the bottom up.

  \<^item> \<open>Fu_Prelude\<close>: bytes, words, \<open>memcmp\<close>, \<open>zend_result\<close>, and \<open>be_nat\<close>, the number 16 bytes denote, which is the
    abstract side of most properties; shared lemmas on shifts, masks and stores, collected in \<open>fu_len\<close> and \<open>fu_unat\<close>.
  \<^item> \<open>Fu_Hex\<close>: the tables MINIT fills and the scalar, SSSE3 and NEON formatters of \<open>fu_format36\<close> (locale \<open>hex_formatter\<close>,
    interpreted for each: all three write the same 32 digits).  \<open>Fu_Parse\<close>: \<open>fu_parse\<close>, accepted language and
    result.  \<open>Fu_Decimal\<close>: \<open>fu_to_decimal\<close>, \<open>fu_from_decimal\<close>, and termination of the printing loop as written.
  \<^item> \<open>Fu_State\<close>: the globals of \<open>ZEND_BEGIN_MODULE_GLOBALS\<close> as a record, with \<open>EG(exception)\<close> and the outside world
    beside them, GINIT, GSHUTDOWN and the fork handler \<open>fu_atfork_child\<close>; the invariant \<open>fu_inv\<close> every operation keeps.
  \<^item> \<open>Fu_Aes\<close>: both hardware back ends of \<open>fu_aes_ctr\<close> over the AES instructions (locale \<open>ctr_cipher\<close>) and the known-answer
    test.  \<open>Fu_Platform\<close>: OS entropy, clock, CPU.  \<open>Fu_Random\<close>: the DRBG with fast key erasure, the 8 KiB buffer of
    \<open>fu_rand\<close>, xoshiro256** and \<open>fast_uuid_random_bytes\<close> (locales \<open>byte_source\<close>, \<open>zeroing_source\<close>).
  \<^item> \<open>Fu_Clock\<close>: \<open>fu_unix_nanos\<close> and the two monotonic Gregorian clocks (locale \<open>monotonic_clock\<close>: every value issued
    is above the mark, whatever the wall clock does).  \<open>Fu_Layout\<close>: the field layouts and their readers.
    \<open>Fu_V7\<close>, \<open>Fu_Gen\<close>: the generators and batches, each an interpretation of \<open>monotonic_clock\<close> where it has a memory;
    \<open>Fu_Outcome\<close>: the contract their callers rely on (locale \<open>uuid_generator\<close>, interpreted for every generator).
  \<^item> \<open>Fu_Args\<close>, \<open>Fu_Functions\<close>: the argument checks and the procedural functions with both entry points of the
    two-string functions.  \<open>Fu_Object\<close>: objects in a store with their text cache, the handlers, argument resolution
    (\<open>fu_resolve_uuid\<close> with its reflection checks) and methods; \<open>Fu_Date\<close>, \<open>Fu_Factory\<close>, \<open>Fu_Methods\<close>: dates, the
    static factories, and the remaining methods, with one datatype for all calls on the class.
  \<^item> \<open>Fu_Classes\<close>, \<open>Fu_Types\<close>: the tables of \<open>fast_uuid_arginfo.h\<close> and that every handler returns what its entry
    declares.  \<open>Fu_Flf\<close>: this module's run in the engine's frameless-call table, keyed into the system id or overwritten
    under \<open>dl()\<close>.  \<open>Fu_Module\<close>: MINIT, class registration, CPU probes, MINFO.
  \<^item> \<open>Fu_Marks\<close>, \<open>Fu_Machine\<close>, \<open>Fu_Values\<close>: the process.  Any interleaving of functions, methods, object handlers,
    userland code, clock changes and forks is a run of one step relation, which refines an abstract issuer of
    increasing numbers (locale \<open>issuer\<close>); and an instance that is not destroyed never changes but by \<open>__unserialize\<close>.

  \<^bold>\<open>How state and errors correspond.\<close>  A C function that returns \<open>FAILURE\<close> with an exception set is a function that
  returns \<open>None\<close> or \<open>FAILURE\<close> and a state whose \<open>EG_exception\<close> is set.
  The globals are passed and returned; a PHP object is a handle into the store of \<open>Fu_Object\<close>, because \<open>fu_clone\<close>,
  \<open>__unserialize\<close> and the text cache depend on sharing.  A C \<open>size_t\<close> that indexes a buffer is a natural number, a
  timestamp a 64-bit word, a \<open>zend_long\<close> an integer with its range check.  Handles come from the engine's object store, a
  parameter (\<open>store_put\<close>) of which only this is used: the handle of a new object is not in use (\<open>store_ok\<close>,
  \<open>handles_fresh\<close>).  It may be the handle of an object destroyed before, as in PHP.

  \<^bold>\<open>What the lemmas show.\<close>  Each component has its \<open>\<dots>_cases\<close> or \<open>\<dots>_props\<close> lemmas, one rule for all outcomes of an
  operation, errors included; they carry the invariant (\<open>fu_inv\<close>, \<open>vm_inv\<close>) and the frame (\<open>gen_marks\<close>).  On them rest the
  order and uniqueness of versions 1, 2, 6 and 7, batches equal to single calls, exact round trips of texts, numbers,
  timestamps and serialized forms, counter mode and key erasure of the DRBG, each random byte served once, the outcome
  of every function and method, the fork handler, and start-up.  The statements speak of numbers, octets and times (\<open>be_nat\<close>,
  \<open>canonical_text\<close>, \<open>canonical_decimal\<close>, \<open>uuid_time\<close>, \<open>field_array\<close>), not of the code's own arithmetic.

  \<^bold>\<open>Parameters and what is relied on.\<close>  \<open>'w platform\<close>: \<open>php_random_bytes\<close>, the clock, the AES instructions (any; the
  back ends are related to the same block cipher).  \<open>'w build\<close>: the hex routine, the engine's \<open>strncasecmp\<close>, the MD5 and SHA-1
  contexts (\<open>digest_ok\<close>: the length of a digest), uid and gid, the hash table limit.  \<open>'w zend\<close>, \<open>'w date_api\<close>: the
  class table, method calls and ext/date; \<open>zend_ok\<close>, \<open>date_ok\<close> and \<open>date_make_ok\<close> say that userland code reached
  through them keeps the invariant, and that the constructors of ext/date make a \<open>DateTimeImmutable\<close> of the time they are
  given; \<open>classes_ok\<close> says what the class table has under two names; \<open>user_marks\<close> that userland moves no mark back (it can
  reach the globals only through the extension), \<open>user_keeps\<close> that it holds the instance considered and does not
  unserialize into it.  The samples (\<open>sample_platform\<close>, \<open>sample_build\<close>, \<open>sample_zend\<close>, \<open>sample_engine\<close>, \<open>sample_date\<close>,
  \<open>sample_put\<close>, \<open>sample_env\<close>, and \<open>sample_userland\<close>, which calls the extension back) satisfy them.

  \<^bold>\<open>Bounds and fuel.\<close>  All loops are total functions with a measure, except the printing loop of \<open>fu_to_decimal\<close>, which is also
  given as a \<open>while_option\<close> in its 40-byte buffer and shown to end (39 rounds are enough for a number below \<open>2 ^ 128\<close>).
  \<open>expand_arginfo\<close> follows aliases of argument infos for 3 rounds, which is enough: \<open>Fu_Types\<close> finds
  the entry of every function and method.

  \<^bold>\<open>Not modelled.\<close>  The engine's argument parsing (the values it yields are the arguments here), reference counts and
  memory, TSRM (each thread has its own globals record), the module entry, the Windows lookup of the precise clock, the
  polyfills for PHP before 8.4, and everything that is not the extension's C code: the PHP compatibility layer, the
  stub, tests, benchmarks, documents and build files.  Successive start-ups (\<open>minits\<close>) share the library's static variables,
  so they are start-ups while the library stays mapped.
\<close>

end
